(* ===== verification/Prelude.thy ===== *)
theory Prelude
  imports Complex_Main "HOL-Library.Word" "HOL-Library.Multiset"
begin

unbundle bit_operations_syntax

text \<open>
  The vocabulary the components share: bytes and byte slices, the ways a Go call can
  end (a value, an error value, a run-time panic, or never), the standard-library slice
  operations the repository uses (\<open>sort.Slice\<close>, \<open>slices.Delete\<close>, \<open>bytes.Compare\<close>), and
  the lemmas on lists the component proofs rest on.
\<close>

section \<open>Bytes, slices and the outcomes of a call\<close>

type_synonym byte = "8 word"
type_synonym bytes = "byte list"

text \<open>
  A run-time panic unwinds the goroutine and, where nothing recovers it (this repository
  never calls \<open>recover\<close>), ends the process. An error is an ordinary second result.
  \<open>Blocked\<close> is a call that never returns: a goroutine waiting for a mutex it already
  holds.
\<close>

datatype go_panic =
    NilDereference
  | IndexOutOfRange
  | SliceBounds
  | SliceTooShort
  | DivideByZero
  | NegativeMake
  | ClosedChannel
  | NonPositiveTicker

datatype 'e failure = Err 'e | Panic go_panic | Blocked

type_synonym ('e, 'a) go = "'e failure + 'a"

named_theorems shortlist_rules \<open>what sorting a slice and truncating it keep\<close>

section \<open>Slice operations of the standard library\<close>

text \<open>
  \<open>slices.Delete (xs, i, i+1)\<close> at the first index whose element satisfies a test,
  followed by \<open>break\<close>: the loop of \<open>kBucket.Insert\<close> and \<open>kBucket.Remove\<close>.
\<close>

fun delete_first :: "('a \<Rightarrow> bool) \<Rightarrow> 'a list \<Rightarrow> 'a list" where
  "delete_first P [] = []"
| "delete_first P (x # xs) = (if P x then xs else x # delete_first P xs)"

text \<open>\<open>bytes.Compare\<close>: lexicographic, a proper prefix being smaller.\<close>

fun bytes_compare :: "bytes \<Rightarrow> bytes \<Rightarrow> int" where
  "bytes_compare [] [] = 0"
| "bytes_compare [] (y # ys) = -1"
| "bytes_compare (x # xs) [] = 1"
| "bytes_compare (x # xs) (y # ys) =
     (if x < y then -1 else if y < x then 1 else bytes_compare xs ys)"

lemma bytes_compare_eq_0: "bytes_compare xs ys = 0 \<longleftrightarrow> xs = ys"
  by (induction xs ys rule: bytes_compare.induct) auto

text \<open>
  \<open>sort.Slice\<close>: the library documents only that the result is a sorted permutation, the contract
  \<open>slice_sorter\<close> below; equal elements can come out in any order. The routing table sorts
  contacts with distinct identifiers, where by \<open>sort_unique\<close> every implementation of the contract gives the
  same result, so there it is this insertion sort. The lookup sorts lists with repeated contacts and takes the sort as an argument.
\<close>

fun insert_by :: "('a \<Rightarrow> 'a \<Rightarrow> bool) \<Rightarrow> 'a \<Rightarrow> 'a list \<Rightarrow> 'a list" where
  "insert_by lt x [] = [x]"
| "insert_by lt x (y # ys) = (if lt x y then x # y # ys else y # insert_by lt x ys)"

definition sort_slice :: "('a \<Rightarrow> 'a \<Rightarrow> bool) \<Rightarrow> 'a list \<Rightarrow> 'a list" where
  "sort_slice lt xs = fold (insert_by lt) xs []"

section \<open>Lemmas on bytes and lists\<close>

lemma byte_less_256 [simp]: "unat (b :: byte) < 256"
  using unsigned_less [of b, where 'a = nat] by simp

lemma set_delete_first_subset: "set (delete_first P xs) \<subseteq> set xs"
  by (induction xs) auto

lemma in_delete_first: "x \<in> set (delete_first P xs) \<Longrightarrow> x \<in> set xs"
  using set_delete_first_subset by fast

lemma delete_first_keeps: "x \<in> set xs \<Longrightarrow> \<not> P x \<Longrightarrow> x \<in> set (delete_first P xs)"
  by (induction xs) auto

lemma delete_first_id: "(\<And>x. x \<in> set xs \<Longrightarrow> \<not> P x) \<Longrightarrow> delete_first P xs = xs"
  by (induction xs) auto

lemma length_delete_first:
  "length (delete_first P xs) = (if \<exists>x\<in>set xs. P x then length xs - 1 else length xs)"
proof (induction xs)
  case (Cons a xs)
  then show ?case by (cases xs) auto
qed simp

lemma length_delete_first_le: "length (delete_first P xs) \<le> length xs"
  by (induction xs) auto

lemma sorted_map_delete_first: "sorted (map f xs) \<Longrightarrow> sorted (map f (delete_first P xs))"
  by (induction xs) (auto dest: in_delete_first)

lemma distinct_map_delete_first:
  "distinct (map f xs) \<Longrightarrow> distinct (map f (delete_first P xs))"
  by (induction xs) (auto dest: in_delete_first)

text \<open>With distinct keys, deleting the first entry of a key deletes the key.\<close>

lemma delete_first_removes_key:
  "distinct (map f xs) \<Longrightarrow> x \<in> set (delete_first (\<lambda>y. f y = a) xs) \<Longrightarrow> f x \<noteq> a"
proof (induction xs)
  case (Cons y ys)
  then show ?case
    by (cases "f y = a") (auto simp: image_iff)
qed simp

lemma distinct_map_filter: "distinct (map f xs) \<Longrightarrow> distinct (map f (filter P xs))"
  by (induction xs) auto

lemma distinct_map_take: "distinct (map f xs) \<Longrightarrow> distinct (map f (take n xs))"
  by (simp flip: take_map)

lemma sorted_map_take: "sorted (map f xs) \<Longrightarrow> sorted (map f (take n xs))"
  by (simp add: sorted_wrt_take flip: take_map)

lemma sorted_take_le_drop:
  assumes "sorted (map f xs)" and "x \<in> set (take n xs)" and "y \<in> set (drop n xs)"
  shows "f x \<le> (f y :: 'b :: linorder)"
proof -
  have "sorted (map f (take n xs) @ map f (drop n xs))"
    using assms(1) by (metis append_take_drop_id map_append)
  then show ?thesis using assms(2,3) by (auto simp: sorted_append)
qed

lemma set_insert_by [simp]: "set (insert_by lt x ys) = insert x (set ys)"
  by (induction ys) auto

lemma mset_insert_by: "mset (insert_by lt x ys) = add_mset x (mset ys)"
  by (induction ys) auto

lemma sorted_insert_by:
  assumes "\<And>a b. a \<in> insert x (set ys) \<Longrightarrow> b \<in> insert x (set ys)
             \<Longrightarrow> lt a b \<longleftrightarrow> (f a :: 'b :: linorder) < f b"
    and "sorted (map f ys)"
  shows "sorted (map f (insert_by lt x ys))"
  using assms
proof (induction ys)
  case (Cons y ys)
  have xy: "lt x y \<longleftrightarrow> f x < f y" using Cons.prems(1) by simp
  have IH: "sorted (map f (insert_by lt x ys))"
    using Cons.prems by (intro Cons.IH) auto
  show ?case
  proof (cases "lt x y")
    case True
    then show ?thesis using Cons.prems(2) xy by auto
  next
    case False
    then show ?thesis using IH Cons.prems(2) xy by auto
  qed
qed simp

lemma mset_fold_insert_by: "mset (fold (insert_by lt) xs acc) = mset xs + mset acc"
  by (induction xs arbitrary: acc) (auto simp: mset_insert_by)

lemma sorted_fold_insert_by:
  assumes "\<And>a b. a \<in> set xs \<union> set acc \<Longrightarrow> b \<in> set xs \<union> set acc
             \<Longrightarrow> lt a b \<longleftrightarrow> (f a :: 'b :: linorder) < f b"
    and "sorted (map f acc)"
  shows "sorted (map f (fold (insert_by lt) xs acc))"
  using assms
proof (induction xs arbitrary: acc)
  case (Cons x xs)
  have "sorted (map f (insert_by lt x acc))"
    using Cons.prems by (intro sorted_insert_by) auto
  then show ?case using Cons.prems by (auto intro!: Cons.IH)
qed simp

section \<open>The contract of sort.Slice\<close>

text \<open>
  The interface the routing code relies on: \<open>srt lt xs\<close> is a permutation of \<open>xs\<close>, and
  is sorted by every key that \<open>lt\<close> compares. The lemmas of the locale are what
  \<open>sort.Slice\<close> followed by truncation to \<open>k\<close> elements gives.
\<close>

locale slice_sorter =
  fixes srt :: "('a \<Rightarrow> 'a \<Rightarrow> bool) \<Rightarrow> 'a list \<Rightarrow> 'a list"
  assumes srt_mset: "mset (srt lt xs) = mset xs"
    and srt_sorted:
      "(\<And>a b. a \<in> set xs \<Longrightarrow> b \<in> set xs \<Longrightarrow> lt a b \<longleftrightarrow> (f a :: nat) < f b)
         \<Longrightarrow> sorted (map f (srt lt xs))"
begin

lemma srt_set: "set (srt lt xs) = set xs"
  using srt_mset by (metis set_mset_mset)

lemma srt_length: "length (srt lt xs) = length xs"
  using srt_mset by (metis size_mset)

lemma srt_distinct_map: "distinct (map g (srt lt xs)) \<longleftrightarrow> distinct (map g xs)"
  using srt_mset by (metis mset_eq_imp_distinct_iff mset_map)

lemma srt_map_sort:
  assumes "\<And>a b. a \<in> set xs \<Longrightarrow> b \<in> set xs \<Longrightarrow> lt a b \<longleftrightarrow> (f a :: nat) < f b"
  shows "map f (srt lt xs) = sort (map f xs)"
  by (rule properties_for_sort [symmetric]) (simp_all add: srt_mset srt_sorted [OF assms])

lemma top_subset: "set (take k (srt lt xs)) \<subseteq> set xs"
  using srt_set set_take_subset by fast

lemma top_length: "length (take k (srt lt xs)) = min k (length xs)"
  by (simp add: srt_length min.commute)

lemma top_closest:
  assumes "\<And>a b. a \<in> set xs \<Longrightarrow> b \<in> set xs \<Longrightarrow> lt a b \<longleftrightarrow> (f a :: nat) < f b"
    and "y \<in> set xs" and "y \<notin> set (take k (srt lt xs))"
    and "x \<in> set (take k (srt lt xs))"
  shows "f x \<le> f y"
proof -
  have "y \<in> set (take k (srt lt xs)) \<union> set (drop k (srt lt xs))"
    using assms(2) srt_set by (metis append_take_drop_id set_append)
  then have "y \<in> set (drop k (srt lt xs))" using assms(3) by blast
  then show ?thesis
    using sorted_take_le_drop [OF srt_sorted [OF assms(1)] assms(4)] by blast
qed

lemma top_dropped_full:
  assumes "y \<in> set xs" and "y \<notin> set (take k (srt lt xs))"
  shows "length (take k (srt lt xs)) = k"
proof -
  have "k < length (srt lt xs)"
    using assms srt_set by (metis leI take_all)
  then show ?thesis by simp
qed

lemma sort_unique:
  assumes "\<And>a b. a \<in> set xs \<Longrightarrow> b \<in> set xs \<Longrightarrow> lt a b \<longleftrightarrow> (f a :: nat) < f b"
    and "inj_on f (set xs)"
    and "mset ys = mset xs" and "sorted (map f ys)"
  shows "srt lt xs = ys"
proof -
  have "set ys = set xs" using assms(3) by (rule mset_eq_setD)
  then have inj: "inj_on f (set (srt lt xs) \<union> set ys)" using assms(2) srt_set by simp
  have eq: "mset (map f ys) = mset (map f (srt lt xs))"
    using assms(3) srt_mset by simp
  have "sorted (map f (srt lt xs))" by (rule srt_sorted [OF assms(1)])
  then have "map f (srt lt xs) = map f ys"
    using properties_for_sort [OF eq assms(4)] properties_for_sort [OF refl] by metis
  then show ?thesis using inj_on_map_eq_map [OF inj] by blast
qed

end

interpretation go_sort: slice_sorter "sort_slice"
proof
  show "mset (sort_slice lt xs) = mset xs" for lt :: "'a \<Rightarrow> 'a \<Rightarrow> bool" and xs
    by (simp add: sort_slice_def mset_fold_insert_by)
  show "sorted (map f (sort_slice lt xs))"
    if "\<And>a b. a \<in> set xs \<Longrightarrow> b \<in> set xs \<Longrightarrow> lt a b \<longleftrightarrow> (f a :: nat) < f b"
    for lt :: "'a \<Rightarrow> 'a \<Rightarrow> bool" and xs f
    unfolding sort_slice_def by (rule sorted_fold_insert_by) (use that in auto)
qed

lemmas [shortlist_rules] = go_sort.srt_mset go_sort.srt_set go_sort.srt_length go_sort.srt_distinct_map go_sort.top_subset

end
