(* ===== verification/Keyspace.thy ===== *)
theory Keyspace
  imports Prelude
begin

unbundle bit_operations_syntax

text \<open>
  The 160-bit key space of \<open>api/kdht_utils.go\<close>: node identifiers, their conversions
  (slices, hexadecimal strings), the XOR metric and the comparison of distances.
  A \<open>[20]byte\<close> array is a byte list of length 20 (\<open>is_nodeid\<close>); the numeric reading of an
  identifier, \<open>id_val\<close>, is the specification side of the metric.
\<close>

section \<open>Constants and conversions\<close>

definition KeyBytes :: nat where "KeyBytes = 20"
definition KeyBits :: nat where "KeyBits = KeyBytes * 8"
definition DataHashBytes :: nat where "DataHashBytes = 32"
definition ApplicationIDBytes :: nat where "ApplicationIDBytes = 64"

lemma key_consts [simp]:
  "KeyBytes = 20" "KeyBits = 160" "DataHashBytes = 32" "ApplicationIDBytes = 64"
  by (simp_all add: KeyBytes_def KeyBits_def DataHashBytes_def ApplicationIDBytes_def)

type_synonym nodeid = bytes
type_synonym applock = bytes

definition is_nodeid :: "bytes \<Rightarrow> bool" where
  "is_nodeid b \<longleftrightarrow> length b = KeyBytes"

definition is_applock :: "bytes \<Rightarrow> bool" where
  "is_applock b \<longleftrightarrow> length b = ApplicationIDBytes"

text \<open>The zero value of the array types.\<close>

definition zero_id :: nodeid where "zero_id = replicate KeyBytes 0"
definition zero_lock :: applock where "zero_lock = replicate ApplicationIDBytes 0"

definition SliceCompare :: "bytes \<Rightarrow> bytes \<Rightarrow> bool" where
  "SliceCompare a b = (if length a \<noteq> length b then False else bytes_compare a b = 0)"

definition SliceToNodeID :: "bytes \<Rightarrow> nodeid" where
  "SliceToNodeID data = (if length data \<noteq> KeyBytes then zero_id else data)"

datatype key_error = InvalidHex | WrongLength nat nat | HashUnavailable

text \<open>\<open>encoding/hex\<close>: two lower-case digits per byte out, either case in.\<close>

definition hex_digit :: "nat \<Rightarrow> char" where
  "hex_digit n = ''0123456789abcdef'' ! n"

definition hex_of_byte :: "byte \<Rightarrow> string" where
  "hex_of_byte b = [hex_digit (unat b div 16), hex_digit (unat b mod 16)]"

definition hex_encode :: "bytes \<Rightarrow> string" where
  "hex_encode bs = concat (map hex_of_byte bs)"

definition hex_value :: "char \<Rightarrow> nat option" where
  "hex_value c =
     (let n = of_char c :: nat in
      if 48 \<le> n \<and> n \<le> 57 then Some (n - 48)
      else if 97 \<le> n \<and> n \<le> 102 then Some (n - 87)
      else if 65 \<le> n \<and> n \<le> 70 then Some (n - 55)
      else None)"

fun hex_decode :: "string \<Rightarrow> bytes option" where
  "hex_decode [] = Some []"
| "hex_decode [c] = None"
| "hex_decode (c # d # cs) =
     (case (hex_value c, hex_value d, hex_decode cs) of
        (Some h, Some l, Some bs) \<Rightarrow> Some (of_nat (16 * h + l) # bs)
      | _ \<Rightarrow> None)"

definition NodeID_String :: "nodeid \<Rightarrow> string" where
  "NodeID_String n = hex_encode n"

definition StringToNodeID :: "string \<Rightarrow> (key_error, nodeid) go" where
  "StringToNodeID s =
     (case hex_decode s of
        None \<Rightarrow> Inl (Err InvalidHex)
      | Some b \<Rightarrow>
          if length b \<noteq> KeyBytes then Inl (Err (WrongLength (length b) KeyBytes))
          else Inr b)"

text \<open>\<open>make\<close> of the array's length and \<open>copy\<close>: the count copied is the shorter length.\<close>

definition NodeIDToSlice :: "nodeid \<Rightarrow> (key_error, bytes) go" where
  "NodeIDToSlice n =
     (let b = take KeyBytes n; copied = min KeyBytes (length n) in
      if copied \<noteq> KeyBytes then Inl (Err (WrongLength KeyBytes copied)) else Inr b)"

definition SliceToDataID :: "bytes \<Rightarrow> (key_error, bytes) go" where
  "SliceToDataID data =
     (if length data \<noteq> DataHashBytes then Inl (Err (WrongLength (length data) DataHashBytes))
      else Inr data)"

text \<open>\<open>Blake2Conv\<close>, which nothing calls; \<open>blake2b size\<close> is the third-party hash of that size.\<close>

definition Blake2Conv :: "(nat \<Rightarrow> (bytes \<Rightarrow> bytes) option) \<Rightarrow> bytes \<Rightarrow> (key_error, nodeid) go" where
  "Blake2Conv blake2b data =
     (case blake2b KeyBytes of
        None \<Rightarrow> Inl (Err HashUnavailable)
      | Some h \<Rightarrow> let checksum = h data in Inr (take KeyBytes checksum @ replicate (KeyBytes - length checksum) 0))"

definition SliceToAppLock :: "bytes \<Rightarrow> (key_error, applock) go" where
  "SliceToAppLock data =
     (if length data \<noteq> ApplicationIDBytes
      then Inl (Err (WrongLength (length data) DataHashBytes))
      else Inr data)"

text \<open>The mismatch branch of the source, a \<open>log.Fatalf\<close>, is never taken for a 64-byte array.\<close>

definition AppLockToSlice :: "applock \<Rightarrow> bytes" where
  "AppLockToSlice l = take ApplicationIDBytes l"

text \<open>
  The language's own conversion \<open>api.NodeID(slice)\<close>: it panics when the slice is shorter
  than the array and ignores what is beyond it.
\<close>

definition NodeID_conv :: "bytes \<Rightarrow> ('e, nodeid) go" where
  "NodeID_conv s = (if length s < KeyBytes then Inl (Panic SliceTooShort) else Inr (take KeyBytes s))"

section \<open>The metric\<close>

definition XorDistance :: "nodeid \<Rightarrow> nodeid \<Rightarrow> nodeid" where
  "XorDistance local other = map (\<lambda>i. local ! i XOR other ! i) [0..<KeyBytes]"

text \<open>The loop of \<open>LessDistance\<close> decides at the first byte in which the distances differ.\<close>

fun LessDistance :: "nodeid \<Rightarrow> nodeid \<Rightarrow> bool" where
  "LessDistance (a # as) (b # bs) =
     (if a < b then True else if b < a then False else LessDistance as bs)"
| "LessDistance _ _ = False"

definition CompareXorDistance :: "nodeid \<Rightarrow> nodeid \<Rightarrow> nodeid \<Rightarrow> bool" where
  "CompareXorDistance a b target = LessDistance (XorDistance a target) (XorDistance b target)"

text \<open>The number an identifier denotes, most significant byte first.\<close>

fun id_val :: "bytes \<Rightarrow> nat" where
  "id_val [] = 0"
| "id_val (b # bs) = unat b * 256 ^ length bs + id_val bs"

section \<open>Lemmas\<close>

lemma SliceCompare_iff [simp]: "SliceCompare a b \<longleftrightarrow> a = b"
  by (auto simp: SliceCompare_def bytes_compare_eq_0)

lemma length_zero_id [simp]: "length zero_id = 20"
  by (simp add: zero_id_def)

lemma length_SliceToNodeID [simp]: "length (SliceToNodeID b) = 20"
  by (simp add: SliceToNodeID_def)

lemma SliceToNodeID_id: "length b = 20 \<Longrightarrow> SliceToNodeID b = b"
  by (simp add: SliceToNodeID_def)

lemma length_XorDistance [simp]: "length (XorDistance a b) = 20"
  by (simp add: XorDistance_def)

lemma nth_XorDistance [simp]: "i < 20 \<Longrightarrow> XorDistance a b ! i = a ! i XOR b ! i"
  by (simp add: XorDistance_def)

lemma XorDistance_commute: "XorDistance a b = XorDistance b a"
  by (simp add: XorDistance_def xor.commute)

lemma XorDistance_self: "XorDistance a a = zero_id"
  by (rule nth_equalityI) (auto simp: zero_id_def)

lemma XorDistance_cancel: "length b = 20 \<Longrightarrow> XorDistance a (XorDistance a b) = b"
  by (rule nth_equalityI) (auto simp flip: xor.assoc)

lemma XorDistance_inj:
  "length a = 20 \<Longrightarrow> length b = 20 \<Longrightarrow> XorDistance a t = XorDistance b t \<longleftrightarrow> a = b"
  by (metis XorDistance_cancel XorDistance_commute)

lemma XorDistance_eq_zero:
  "length a = 20 \<Longrightarrow> length b = 20 \<Longrightarrow> XorDistance a b = zero_id \<longleftrightarrow> a = b"
  by (metis XorDistance_cancel XorDistance_self)

lemma id_val_less: "id_val bs < 256 ^ length bs"
proof (induction bs)
  case (Cons b bs)
  have "unat b + 1 \<le> 256" using byte_less_256 [of b] by linarith
  then have "(unat b + 1) * 256 ^ length bs \<le> 256 * 256 ^ length bs"
    by (rule mult_le_mono1)
  moreover have "unat b * 256 ^ length bs + id_val bs < (unat b + 1) * 256 ^ length bs"
    using Cons by (simp only: distrib_right mult_1 add_less_cancel_left)
  ultimately show ?case by (simp only: id_val.simps length_Cons power_Suc)
qed simp

lemma id_val_less_160: "length n = 20 \<Longrightarrow> id_val n < 2 ^ 160"
  using id_val_less [of n] by simp

lemma LessDistance_id_val:
  "length a = length b \<Longrightarrow> LessDistance a b \<longleftrightarrow> id_val a < id_val b"
proof (induction a b rule: list_induct2)
  case (Cons x xs y ys)
  let ?m = "256 ^ length xs :: nat"
  have bx: "id_val xs < ?m" and by': "id_val ys < ?m"
    using id_val_less [of xs] id_val_less [of ys] Cons.hyps by simp_all
  have step: "unat u * ?m + c < unat v * ?m + d" if "u < v" "c < ?m" for u v :: byte and c d
  proof -
    have "unat u + 1 \<le> unat v" using that(1) by (simp add: word_less_nat_alt)
    then have "(unat u + 1) * ?m \<le> unat v * ?m" by (rule mult_le_mono1)
    then show ?thesis using that(2) by (simp add: algebra_simps)
  qed
  consider "x < y" | "y < x" | "x = y" by fastforce
  then show ?case
  proof cases
    case 1
    then show ?thesis using step [OF 1 bx, of "id_val ys"] Cons.hyps by simp
  next
    case 2
    then have "\<not> x < y" by simp
    then show ?thesis using 2 step [OF 2 by', of "id_val xs"] Cons.hyps by simp
  next
    case 3
    then show ?thesis using Cons by simp
  qed
qed simp

lemma id_val_inj: "length a = length b \<Longrightarrow> id_val a = id_val b \<longleftrightarrow> a = b"
proof (induction a b rule: list_induct2)
  case (Cons x xs y ys)
  let ?m = "256 ^ length xs :: nat"
  have bx: "id_val xs < ?m" and by': "id_val ys < ?m"
    using id_val_less [of xs] id_val_less [of ys] Cons.hyps by simp_all
  have "unat x = unat y \<and> id_val xs = id_val ys"
    if "unat x * ?m + id_val xs = unat y * ?m + id_val ys"
  proof -
    have "(unat x * ?m + id_val xs) div ?m = unat x"
      and "(unat y * ?m + id_val ys) div ?m = unat y"
      using bx by' by simp_all
    then have "unat x = unat y" using that by metis
    then show ?thesis using that by simp
  qed
  then show ?case using Cons by (auto simp: word_unat_eq_iff)
qed simp

lemma id_val_zero_id [simp]: "id_val zero_id = 0"
proof -
  have "id_val (replicate n 0) = 0" for n by (induction n) auto
  then show ?thesis by (simp add: zero_id_def)
qed

lemma hex_value_digit_table: "list_all (\<lambda>n. hex_value (hex_digit n) = Some n) [0..<16]"
  by code_simp

lemma hex_value_digit: "n < 16 \<Longrightarrow> hex_value (hex_digit n) = Some n"
  using hex_value_digit_table by (simp add: list_all_iff)

lemma hex_decode_encode: "hex_decode (hex_encode bs) = Some bs"
proof (induction bs)
  case (Cons b bs)
  have "unat b div 16 < 16" "unat b mod 16 < 16"
    using byte_less_256 [of b] by linarith simp
  then have "hex_value (hex_digit (unat b div 16)) = Some (unat b div 16)"
    and "hex_value (hex_digit (unat b mod 16)) = Some (unat b mod 16)"
    by (simp_all add: hex_value_digit)
  moreover have "(of_nat (16 * (unat b div 16) + unat b mod 16) :: byte) = b"
    by (simp only: mult_div_mod_eq) simp
  ultimately show ?case using Cons by (simp add: hex_encode_def hex_of_byte_def)
qed (simp add: hex_encode_def)

end
