(* ===== verification/KeyBits.thy ===== *)
theory KeyBits
  imports Keyspace
begin

unbundle bit_operations_syntax

text \<open>
  The bit-level half of \<open>api/kdht_utils.go\<close>: the shared-prefix loops that choose a bucket,
  the single-bit operations, the prefix test, and the generator of refresh targets.
  \<open>idbit\<close> is the specification: bit \<open>p\<close> of an identifier counted from the most significant.
\<close>

section \<open>Prefix length and bucket index\<close>

text \<open>The inner loop \<open>for j := range 8\<close> over the bits of one differing byte.\<close>

fun lead_bit :: "byte \<Rightarrow> nat list \<Rightarrow> nat option" where
  "lead_bit x [] = None"
| "lead_bit x (j # js) = (if x AND drop_bit j 0x80 \<noteq> 0 then Some j else lead_bit x js)"

text \<open>The outer loop \<open>for i := range KeyBytes\<close>; \<open>None\<close> when it runs to its end.\<close>

fun prefix_loop :: "nodeid \<Rightarrow> nodeid \<Rightarrow> nat list \<Rightarrow> nat option" where
  "prefix_loop local other [] = None"
| "prefix_loop local other (i # is) =
     (let x = local ! i XOR other ! i in
      if x \<noteq> 0 then
        (case lead_bit x [0..<8] of
           Some j \<Rightarrow> Some (i * 8 + j)
         | None \<Rightarrow> prefix_loop local other is)
      else prefix_loop local other is)"

definition SharedPrefixLength :: "nodeid \<Rightarrow> nodeid \<Rightarrow> nat" where
  "SharedPrefixLength local other =
     (case prefix_loop local other [0..<KeyBytes] of Some d \<Rightarrow> d | None \<Rightarrow> KeyBits)"

definition KBucketIndex :: "nodeid \<Rightarrow> nodeid \<Rightarrow> nat" where
  "KBucketIndex local other =
     (let maxDepth = KeyBits - 1 in
      case prefix_loop local other [0..<KeyBytes] of Some d \<Rightarrow> d | None \<Rightarrow> maxDepth)"

section \<open>Single bits\<close>

text \<open>Bit 0 is the least significant bit of the last byte.\<close>

definition GetBit :: "nodeid \<Rightarrow> int \<Rightarrow> int" where
  "GetBit key b =
     (if b < 0 \<or> int KeyBits \<le> b then 0
      else let byteIndex = KeyBytes - 1 - nat b div 8; bitIndex = nat b mod 8 in
        if key ! byteIndex AND push_bit bitIndex 1 \<noteq> 0 then 1 else 0)"

definition SetBit :: "nodeid \<Rightarrow> int \<Rightarrow> nodeid" where
  "SetBit key b =
     (if b < 0 \<or> int KeyBits \<le> b then key
      else let byteIndex = KeyBytes - 1 - nat b div 8; bitIndex = nat b mod 8 in
        key[byteIndex := key ! byteIndex OR push_bit bitIndex 1])"

definition ClearBit :: "nodeid \<Rightarrow> int \<Rightarrow> nodeid" where
  "ClearBit key b =
     (if b < 0 \<or> int KeyBits \<le> b then key
      else let byteIndex = KeyBytes - 1 - nat b div 8; bitIndex = nat b mod 8 in
        key[byteIndex := key ! byteIndex AND NOT (push_bit bitIndex 1)])"

definition FlipBit :: "nodeid \<Rightarrow> int \<Rightarrow> nodeid" where
  "FlipBit key b =
     (if b < 0 \<or> int KeyBits \<le> b then key
      else let byteIndex = KeyBytes - 1 - nat b div 8; bitIndex = nat b mod 8 in
        key[byteIndex := key ! byteIndex XOR push_bit bitIndex 1])"

definition ConfirmPrefix :: "nodeid \<Rightarrow> nodeid \<Rightarrow> int \<Rightarrow> bool" where
  "ConfirmPrefix a b prefixLen =
     (if prefixLen < 0 \<or> int KeyBits < prefixLen then False
      else list_all (\<lambda>i. GetBit a (int i) = GetBit b (int i)) [0..<nat prefixLen])"

section \<open>Refresh targets\<close>

datatype random_error = BucketOutOfRange int | RandFailed

text \<open>
  \<open>rnd\<close> is what \<open>rand.Read\<close> puts into the bytes from \<open>k/8\<close> on, or \<open>None\<close> for its error.
\<close>

definition highMask :: "nat \<Rightarrow> byte" where
  "highMask b = push_bit (b + 1) 0xFF"

definition RandomIDInBucket :: "bytes option \<Rightarrow> nodeid \<Rightarrow> int \<Rightarrow> (random_error, nodeid) go" where
  "RandomIDInBucket rnd local k =
     (if k < 0 \<or> 160 \<le> k then Inl (Err (BucketOutOfRange k))
      else let byteIdx = nat k div 8; b = 7 - nat k mod 8 in
        case rnd of
          None \<Rightarrow> Inl (Err RandFailed)
        | Some r \<Rightarrow>
            let out = take byteIdx local @ take (KeyBytes - byteIdx) r;
                restored = (out ! byteIdx AND NOT (highMask b)) OR (local ! byteIdx AND highMask b);
                out1 = out[byteIdx := restored];
                out2 = out1[byteIdx := out1 ! byteIdx XOR push_bit b 1]
            in Inr out2)"

section \<open>Bits as the specification\<close>

definition idbit :: "nodeid \<Rightarrow> nat \<Rightarrow> bool" where
  "idbit n p = bit (n ! (p div 8)) (7 - p mod 8)"

definition prefix_spec :: "nodeid \<Rightarrow> nodeid \<Rightarrow> nat \<Rightarrow> bool" where
  "prefix_spec l r d \<longleftrightarrow> d \<le> 160 \<and> (\<forall>p<d. idbit l p = idbit r p)
     \<and> (d < 160 \<longrightarrow> idbit l d \<noteq> idbit r d)"

lemma prefix_spec_unique: "prefix_spec l r d \<Longrightarrow> prefix_spec l r e \<Longrightarrow> d = e"
  unfolding prefix_spec_def by (metis linorder_neqE_nat order_less_le_trans)

lemma byte_zero_iff: "(x :: byte) = 0 \<longleftrightarrow> (\<forall>j<8. \<not> bit x (7 - j))"
proof
  assume h: "\<forall>j<8. \<not> bit x (7 - j)"
  have "\<not> bit x n" if "n < 8" for n
  proof -
    have "7 - (7 - n) = n" using that by arith
    then show ?thesis using h [rule_format, of "7 - n"] by simp
  qed
  then show "x = 0" by (intro bit_word_eqI) simp
qed simp

lemma high_bit_test: "j < 8 \<Longrightarrow> (x :: byte) AND drop_bit j 0x80 \<noteq> 0 \<longleftrightarrow> bit x (7 - j)"
proof -
  assume j: "j < 8"
  have "drop_bit j (0x80 :: byte) = 2 ^ (7 - j)"
  proof -
    have "\<forall>j<8. drop_bit j (0x80 :: byte) = 2 ^ (7 - j)" by code_simp
    then show ?thesis using j by blast
  qed
  then show ?thesis by (simp add: and_exp_eq_0_iff_not_bit)
qed

lemma lead_bit_correct:
  assumes "j \<le> 8" and "\<forall>i<j. \<not> bit x (7 - i)"
  shows "case lead_bit x [j..<8] of
      Some d \<Rightarrow> d < 8 \<and> bit x (7 - d) \<and> (\<forall>i<d. \<not> bit x (7 - i))
    | None \<Rightarrow> x = 0"
  using assms
proof (induction "8 - j" arbitrary: j)
  case 0
  then show ?case by (simp add: byte_zero_iff)
next
  case (Suc n)
  then have j: "j < 8" by simp
  then have split: "[j..<8] = j # [Suc j..<8]" by (rule upt_conv_Cons)
  show ?case
  proof (cases "bit x (7 - j)")
    case True
    then show ?thesis using split j Suc.prems high_bit_test [OF j, of x] by simp
  next
    case False
    then have "\<forall>i<Suc j. \<not> bit x (7 - i)" using Suc.prems(2) less_Suc_eq by auto
    then show ?thesis
      using Suc.hyps(1) [of "Suc j"] Suc.hyps(2) j split False high_bit_test [OF j, of x] by simp
  qed
qed

lemma prefix_loop_correct:
  assumes "i \<le> 20" and "\<forall>p<i * 8. idbit l p = idbit r p"
  shows "prefix_spec l r (case prefix_loop l r [i..<20] of Some d \<Rightarrow> d | None \<Rightarrow> 160)"
  using assms
proof (induction "20 - i" arbitrary: i)
  case 0
  then show ?case by (simp add: prefix_spec_def)
next
  case (Suc n)
  then have i: "i < 20" by simp
  let ?x = "l ! i XOR r ! i"
  have split: "[i..<20] = i # [Suc i..<20]" using i by (rule upt_conv_Cons)
  have bits: "idbit l (i * 8 + j) \<noteq> idbit r (i * 8 + j) \<longleftrightarrow> bit ?x (7 - j)" if "j < 8" for j
    using that by (auto simp: idbit_def bit_xor_iff)
  have lead: "case lead_bit ?x [0..<8] of
      Some d \<Rightarrow> d < 8 \<and> bit ?x (7 - d) \<and> (\<forall>j<d. \<not> bit ?x (7 - j)) | None \<Rightarrow> ?x = 0"
    by (rule lead_bit_correct) simp_all
  show ?case
  proof (cases "?x = 0")
    case True
    have "idbit l p = idbit r p" if "p < Suc i * 8" for p
    proof (cases "p < i * 8")
      case False
      then have "p = i * 8 + (p - i * 8)" and "p - i * 8 < 8" using that by auto
      then show ?thesis using bits True by (metis bit_0_eq bot_apply bot_bool_def)
    qed (use Suc.prems in simp)
    then have "prefix_spec l r
        (case prefix_loop l r [Suc i..<20] of Some d \<Rightarrow> d | None \<Rightarrow> 160)"
      using Suc.hyps(1) [of "Suc i"] Suc.hyps(2) i by simp
    then show ?thesis using True split by (simp add: Let_def)
  next
    case False
    then obtain d where d: "lead_bit ?x [0..<8] = Some d" "d < 8" "bit ?x (7 - d)"
      "\<forall>j<d. \<not> bit ?x (7 - j)"
      using lead by (cases "lead_bit ?x [0..<8]") auto
    have "idbit l p = idbit r p" if "p < i * 8 + d" for p
    proof (cases "p < i * 8")
      case False
      then have "p = i * 8 + (p - i * 8)" and "p - i * 8 < d" using that by auto
      then show ?thesis using bits [of "p - i * 8"] d by auto
    qed (use Suc.prems in simp)
    then have "prefix_spec l r (i * 8 + d)"
      using bits [OF d(2)] d(2,3) i by (simp add: prefix_spec_def)
    then show ?thesis using False d(1) split by (simp add: Let_def)
  qed
qed

lemma SharedPrefixLength_spec: "prefix_spec l r (SharedPrefixLength l r)"
  using prefix_loop_correct [of 0 l r] by (simp add: SharedPrefixLength_def split: option.splits)

lemma SharedPrefixLength_eqI: "prefix_spec l r d \<Longrightarrow> SharedPrefixLength l r = d"
  using SharedPrefixLength_spec prefix_spec_unique by blast

lemma SharedPrefixLength_le [simp]: "SharedPrefixLength l r \<le> 160"
  using SharedPrefixLength_spec by (simp add: prefix_spec_def)

lemma prefix_loop_bound: "prefix_loop l r is = Some d \<Longrightarrow> set is \<subseteq> {..<20} \<Longrightarrow> d < 160"
proof (induction "is")
  case (Cons i "is")
  let ?x = "l ! i XOR r ! i"
  have "case lead_bit ?x [0..<8] of
      Some d \<Rightarrow> d < 8 \<and> bit ?x (7 - d) \<and> (\<forall>j<d. \<not> bit ?x (7 - j)) | None \<Rightarrow> ?x = 0"
    by (rule lead_bit_correct) simp_all
  then show ?case using Cons by (auto simp: Let_def split: if_splits option.splits)
qed simp

lemma KBucketIndex_eq: "KBucketIndex l r = min (SharedPrefixLength l r) 159"
proof (cases "prefix_loop l r [0..<20]")
  case (Some d)
  then have "d < 160" by (rule prefix_loop_bound) auto
  then show ?thesis using Some by (simp add: KBucketIndex_def SharedPrefixLength_def)
qed (simp add: KBucketIndex_def SharedPrefixLength_def)

lemma SharedPrefixLength_self [simp]: "SharedPrefixLength l l = 160"
  by (rule SharedPrefixLength_eqI) (simp add: prefix_spec_def)

section \<open>Bits of the numeric value\<close>

lemma bit_nat_append:
  assumes "(r :: nat) < 2 ^ m"
  shows "bit (a * 2 ^ m + r) k \<longleftrightarrow> (if k < m then bit r k else bit a (k - m))"
proof (cases "k < m")
  case True
  have "take_bit m (a * 2 ^ m + r) = r" using assms by (simp add: take_bit_eq_mod)
  then show ?thesis using True bit_take_bit_iff [of m "a * 2 ^ m + r" k] by simp
next
  case False
  have "(2 :: nat) ^ k = 2 ^ m * 2 ^ (k - m)" using False by (simp flip: power_add)
  then have "(a * 2 ^ m + r) div 2 ^ k = (a * 2 ^ m + r) div 2 ^ m div 2 ^ (k - m)"
    by (simp only: div_mult2_eq)
  also have "(a * 2 ^ m + r) div 2 ^ m = a" using assms by simp
  finally show ?thesis using False by (simp add: bit_iff_odd)
qed

lemma power_256: "256 ^ n = (2 :: nat) ^ (8 * n)"
  by (simp add: power_mult)

lemma bit_id_val:
  "bit (id_val bs) k \<longleftrightarrow> k < 8 * length bs \<and> bit (bs ! (length bs - 1 - k div 8)) (k mod 8)"
proof (induction bs)
  case (Cons b bs)
  let ?m = "8 * length bs"
  have val: "id_val (b # bs) = unat b * 2 ^ ?m + id_val bs" by (simp add: power_256)
  have bound: "id_val bs < 2 ^ ?m" using id_val_less [of bs] by (simp add: power_256)
  show ?case
  proof (cases "k < ?m")
    case True
    then have "k div 8 < length bs" by auto
    then have "(b # bs) ! (length (b # bs) - 1 - k div 8) = bs ! (length bs - 1 - k div 8)"
      by (simp add: nth_Cons')
    then show ?thesis
      unfolding val bit_nat_append [OF bound] using True Cons by simp
  next
    case False
    have "bit b (k - ?m) \<longleftrightarrow> k < 8 * length (b # bs) \<and> bit b (k mod 8)"
    proof (cases "k < 8 * length (b # bs)")
      case True
      then have "k = ?m + (k - ?m)" "k - ?m < 8" using False by auto
      then have "k mod 8 = k - ?m" by (metis mod_less mod_mult_self4 mult.commute)
      then show ?thesis using True by simp
    next
      case outside: False
      then show ?thesis using bit_imp_le_length [of b "k - ?m"] by auto
    qed
    moreover have "length (b # bs) - 1 - k div 8 = 0" using False by simp
    ultimately show ?thesis
      unfolding val bit_nat_append [OF bound] using False by (simp add: bit_unsigned_iff)
  qed
qed simp

lemma bit_id_val_160:
  assumes "length n = 20" and "k < 160"
  shows "bit (id_val n) k \<longleftrightarrow> idbit n (159 - k)"
proof -
  define q m where "q = k div 8" and "m = k mod 8"
  have q: "q < 20" and m: "m < 8" and k: "k = 8 * q + m" using assms(2) by (auto simp: q_def m_def)
  obtain r where r: "r = 7 - m" "r < 8" "7 - r = m" using m by auto
  have "159 - k = r + 8 * (19 - q)" using q m k r by simp
  then have "(159 - k) div 8 = 19 - k div 8" and "7 - (159 - k) mod 8 = k mod 8"
    using q m k r(2,3) by simp_all
  then show ?thesis using assms by (simp add: bit_id_val idbit_def)
qed

lemma bit_imp_power_le: "bit (v :: nat) m \<Longrightarrow> 2 ^ m \<le> v"
  by (rule ccontr) (simp add: bit_iff_odd)

lemma high_bits_clear_less:
  assumes "\<And>k. m \<le> k \<Longrightarrow> \<not> bit (v :: nat) k"
  shows "v < 2 ^ m"
proof -
  have "n < m" if "bit v n" for n using assms [of n] that by (cases "n < m") auto
  then have "take_bit m v = v" by (intro bit_eqI) (auto simp: bit_take_bit_iff)
  then show ?thesis by (metis take_bit_nat_less_exp)
qed

lemma idbit_XorDistance:
  "p < 160 \<Longrightarrow> idbit (XorDistance a b) p \<longleftrightarrow> idbit a p \<noteq> idbit b p"
proof -
  assume "p < 160"
  then have "p div 8 < 20" by auto
  then show ?thesis by (simp add: idbit_def bit_xor_iff)
qed

text \<open>A shared prefix of \<open>d\<close> bits bounds the distance from above and, if it is exact, from below.\<close>

lemma distance_less_prefix:
  assumes "d \<le> SharedPrefixLength l r"
  shows "id_val (XorDistance l r) < 2 ^ (160 - d)"
proof (rule high_bits_clear_less)
  fix k assume k: "160 - d \<le> k"
  have agree: "\<forall>p<d. idbit l p = idbit r p"
    using SharedPrefixLength_spec [of l r] assms by (simp add: prefix_spec_def)
  show "\<not> bit (id_val (XorDistance l r)) k"
  proof (cases "k < 160")
    case True
    then have "159 - k < d" using k by simp
    then show ?thesis
      using True agree bit_id_val_160 [of "XorDistance l r" k] by (simp add: idbit_XorDistance)
  qed (simp add: bit_id_val)
qed

lemma distance_ge_prefix:
  assumes "SharedPrefixLength l r < 160"
  shows "2 ^ (159 - SharedPrefixLength l r) \<le> id_val (XorDistance l r)"
proof (rule bit_imp_power_le)
  let ?d = "SharedPrefixLength l r"
  have "idbit l ?d \<noteq> idbit r ?d"
    using SharedPrefixLength_spec [of l r] assms by (simp add: prefix_spec_def)
  then show "bit (id_val (XorDistance l r)) (159 - ?d)"
    using assms by (simp add: bit_id_val_160 idbit_XorDistance)
qed

lemma longer_prefix_closer:
  assumes "SharedPrefixLength l b < SharedPrefixLength l a"
  shows "id_val (XorDistance l a) < id_val (XorDistance l b)"
proof -
  let ?d = "SharedPrefixLength l b"
  have d: "?d < 160" using assms SharedPrefixLength_le [of l a] by linarith
  have "id_val (XorDistance l a) < 2 ^ (160 - Suc ?d)"
    by (rule distance_less_prefix) (use assms in simp)
  also have "160 - Suc ?d = 159 - ?d" by simp
  also have "(2::nat) ^ (159 - ?d) \<le> id_val (XorDistance l b)" by (rule distance_ge_prefix [OF d])
  finally show ?thesis .
qed

lemma SharedPrefixLength_160_iff:
  assumes "length a = 20" and "length b = 20"
  shows "SharedPrefixLength a b = 160 \<longleftrightarrow> a = b"
proof
  assume "SharedPrefixLength a b = 160"
  then have "id_val (XorDistance a b) < 1" using distance_less_prefix [of 160 a b] by simp
  then have "id_val (XorDistance a b) = id_val zero_id" by simp
  then have "XorDistance a b = zero_id" by (subst (asm) id_val_inj) simp_all
  then show "a = b" using assms by (simp add: XorDistance_eq_zero)
qed simp

section \<open>Lemmas on single bits\<close>

lemma and_bit_test: "bitIndex < 8 \<Longrightarrow> (x :: byte) AND push_bit bitIndex 1 \<noteq> 0 \<longleftrightarrow> bit x bitIndex"
  by (simp add: push_bit_eq_mult and_exp_eq_0_iff_not_bit)

lemma GetBit_idbit:
  assumes "0 \<le> b" and "b < 160"
  shows "GetBit key b = of_bool (idbit key (159 - nat b))"
proof -
  define q m where "q = nat b div 8" and "m = nat b mod 8"
  have q: "q < 20" and m: "m < 8" and k: "nat b = 8 * q + m" using assms by (auto simp: q_def m_def)
  obtain r where r: "r = 7 - m" "r < 8" "7 - r = m" using m by auto
  have "159 - nat b = r + 8 * (19 - q)" using q m k r by simp
  then have "idbit key (159 - nat b) \<longleftrightarrow> bit (key ! (19 - q)) m"
    using q r(2,3) by (simp add: idbit_def)
  then show ?thesis
    using assms and_bit_test [OF m] by (simp add: GetBit_def q_def m_def Let_def)
qed

lemma GetBit_id_val:
  assumes "length key = 20" and "0 \<le> b" and "b < 160"
  shows "GetBit key b = of_bool (bit (id_val key) (nat b))"
  using assms by (simp add: GetBit_idbit bit_id_val_160)

text \<open>Updating one byte by a one-bit mask changes one bit.\<close>

lemma idbit_update:
  assumes "length key = 20" and "p < 160" and "k < 160"
    and "\<And>n. n < 8 \<Longrightarrow> bit x n \<longleftrightarrow> (if n = k mod 8 then v else bit (key ! (19 - k div 8)) n)"
  shows "idbit (key[19 - k div 8 := x]) p \<longleftrightarrow> (if p = 159 - k then v else idbit key p)"
proof -
  define q m where "q = k div 8" and "m = k mod 8"
  have q: "q < 20" and m: "m < 8" and k: "k = 8 * q + m" using assms by (auto simp: q_def m_def)
  define s t where "s = p div 8" and "t = p mod 8"
  have s: "s < 20" and t: "t < 8" and p: "p = 8 * s + t" using assms by (auto simp: s_def t_def)
  have iff: "p = 159 - k \<longleftrightarrow> s = 19 - q \<and> 7 - t = m"
  proof
    assume "p = 159 - k"
    then have sum: "8 * (s + q) + (t + m) = 159" using p k assms(3) by simp
    have "t + m < 15" using t m by simp
    then have "s + q = 19 \<and> t + m = 7" using sum by arith
    then show "s = 19 - q \<and> 7 - t = m" by arith
  next
    assume "s = 19 - q \<and> 7 - t = m"
    then have "s + q = 19" and "t + m = 7" using q t by arith+
    then have "8 * (s + q) + (t + m) = 159" by simp
    then show "p = 159 - k" using p k by simp
  qed
  show ?thesis
  proof (cases "s = 19 - q")
    case True
    then have "idbit (key[19 - k div 8 := x]) p \<longleftrightarrow> bit x (7 - t)"
      using assms(1) s by (simp add: idbit_def s_def t_def q_def)
    moreover have "idbit key p \<longleftrightarrow> bit (key ! (19 - k div 8)) (7 - t)"
      using True by (simp add: idbit_def s_def t_def q_def)
    ultimately show ?thesis
      using assms(4) [of "7 - t"] iff True t by (simp add: m_def)
  next
    case False
    then have "idbit (key[19 - k div 8 := x]) p \<longleftrightarrow> idbit key p"
      by (simp add: idbit_def s_def q_def)
    then show ?thesis using iff False by simp
  qed
qed

lemma bit_mask_byte: "bit ((2 :: byte) ^ m) n \<longleftrightarrow> n = m \<and> n < 8"
  by (auto simp: bit_exp_iff)

lemma idbit_SetBit:
  assumes "length key = 20" "p < 160" "0 \<le> b" "b < 160"
  shows "idbit (SetBit key b) p \<longleftrightarrow> p = 159 - nat b \<or> idbit key p"
proof -
  let ?x = "key ! (19 - nat b div 8) OR 2 ^ (nat b mod 8)"
  have "idbit (key[19 - nat b div 8 := ?x]) p \<longleftrightarrow> (if p = 159 - nat b then True else idbit key p)"
    by (rule idbit_update) (use assms in \<open>auto simp: bit_or_iff bit_mask_byte\<close>)
  then show ?thesis using assms by (simp add: SetBit_def Let_def)
qed

lemma idbit_ClearBit:
  assumes "length key = 20" "p < 160" "0 \<le> b" "b < 160"
  shows "idbit (ClearBit key b) p \<longleftrightarrow> p \<noteq> 159 - nat b \<and> idbit key p"
proof -
  let ?x = "key ! (19 - nat b div 8) AND NOT (2 ^ (nat b mod 8))"
  have "idbit (key[19 - nat b div 8 := ?x]) p \<longleftrightarrow> (if p = 159 - nat b then False else idbit key p)"
    by (rule idbit_update) (use assms in \<open>auto simp: bit_and_iff bit_not_iff bit_mask_byte\<close>)
  then show ?thesis using assms by (simp add: ClearBit_def Let_def)
qed

lemma idbit_FlipBit:
  assumes "length key = 20" "p < 160" "0 \<le> b" "b < 160"
  shows "idbit (FlipBit key b) p \<longleftrightarrow> (p = 159 - nat b) \<noteq> idbit key p"
proof -
  let ?y = "key ! (19 - nat b div 8)"
  let ?x = "?y XOR 2 ^ (nat b mod 8)"
  have old: "bit ?y (nat b mod 8) \<longleftrightarrow> idbit key (159 - nat b)"
    using assms GetBit_idbit [of b key] and_bit_test [of "nat b mod 8" ?y]
    by (simp add: GetBit_def Let_def split: if_splits)
  have "idbit (key[19 - nat b div 8 := ?x]) p
      \<longleftrightarrow> (if p = 159 - nat b then \<not> idbit key (159 - nat b) else idbit key p)"
    by (rule idbit_update) (use assms old in \<open>auto simp: bit_xor_iff bit_mask_byte\<close>)
  then show ?thesis using assms by (auto simp: FlipBit_def Let_def)
qed

lemma length_bit_ops [simp]:
  "length (SetBit key b) = length key" "length (ClearBit key b) = length key"
  "length (FlipBit key b) = length key"
  by (simp_all add: SetBit_def ClearBit_def FlipBit_def Let_def)

lemma ConfirmPrefix_suffix:
  assumes "length a = 20" and "length b = 20" and "0 \<le> n" and "n \<le> 160"
  shows "ConfirmPrefix a b n \<longleftrightarrow> id_val a mod 2 ^ nat n = id_val b mod 2 ^ nat n"
proof -
  have eqv: "GetBit a (int i) = GetBit b (int i) \<longleftrightarrow> (bit (id_val a) i \<longleftrightarrow> bit (id_val b) i)"
    if "i < nat n" for i
    using that assms GetBit_id_val [of a "int i"] GetBit_id_val [of b "int i"] by auto
  have "ConfirmPrefix a b n \<longleftrightarrow> (\<forall>i<nat n. bit (id_val a) i \<longleftrightarrow> bit (id_val b) i)"
    using eqv assms(3,4) by (auto simp: ConfirmPrefix_def list_all_iff)
  also have "\<dots> \<longleftrightarrow> take_bit (nat n) (id_val a) = take_bit (nat n) (id_val b)"
    by (auto simp: bit_eq_iff bit_take_bit_iff)
  finally show ?thesis by (simp add: take_bit_eq_mod)
qed

section \<open>What the generator of refresh targets returns\<close>

lemma bit_ones_byte: "bit (0xFF :: byte) n \<longleftrightarrow> n < 8"
proof -
  have "(0xFF :: byte) = mask 8" by code_simp
  then show ?thesis by (simp only: bit_mask_iff) simp
qed

lemma bit_highMask: "bit (highMask b) n \<longleftrightarrow> b < n \<and> n < 8"
  unfolding highMask_def bit_push_bit_iff bit_ones_byte by auto

lemma RandomIDInBucket_bits:
  assumes "length local = 20" and "0 \<le> k" and "k < 160" and "length r = 20 - nat k div 8"
    and "RandomIDInBucket (Some r) local k = Inr out" and "p < 160"
  shows "length out = 20"
    and "idbit out p = (if p < nat k then idbit local p
         else bit (r ! (p div 8 - nat k div 8)) (7 - p mod 8) \<noteq> (p = nat k))"
proof -
  define q m where "q = nat k div 8" and "m = nat k mod 8"
  have q: "q < 20" and m: "m < 8" and k: "nat k = 8 * q + m" using assms by (auto simp: q_def m_def)
  define s t where "s = p div 8" and "t = p mod 8"
  have s: "s < 20" and t: "t < 8" and p: "p = 8 * s + t" using assms by (auto simp: s_def t_def)
  define buf where "buf = take q local @ r"
  define y where "y = ((buf ! q AND NOT (highMask (7 - m))) OR (local ! q AND highMask (7 - m)))
      XOR 2 ^ (7 - m)"
  have len: "length buf = 20" using assms q by (simp add: buf_def q_def)
  have "\<not> k < 0" "\<not> 160 \<le> k" using assms by simp_all
  then have out: "out = buf[q := y]"
    using assms(4,5) q len
    by (simp add: RandomIDInBucket_def Let_def buf_def y_def q_def [symmetric] m_def [symmetric])
  show "length out = 20" using out len by simp
  have buf_nth: "buf ! s = (if s < q then local ! s else r ! (s - q))"
    using assms(1) q by (simp add: buf_def nth_append)
  have ybit: "bit y n \<longleftrightarrow> ((if n < 8 - m then bit (r ! 0) n else bit (local ! q) n) \<noteq> (n = 7 - m))"
    if "n < 8" for n
  proof -
    have "buf ! q = r ! 0" using assms(1) q by (simp add: buf_def nth_append)
    then show ?thesis
      using that m by (auto simp: y_def bit_xor_iff bit_or_iff bit_and_iff bit_not_iff bit_highMask bit_mask_byte)
  qed
  show "idbit out p = (if p < nat k then idbit local p
         else bit (r ! (p div 8 - nat k div 8)) (7 - p mod 8) \<noteq> (p = nat k))"
  proof (cases "s = q")
    case True
    then have "idbit out p \<longleftrightarrow> bit y (7 - t)"
      using out len q by (simp add: idbit_def s_def t_def)
    moreover have "7 - t < 8 - m \<longleftrightarrow> \<not> p < nat k" and "7 - t = 7 - m \<longleftrightarrow> p = nat k"
      using True p k m t by auto
    ultimately show ?thesis
      using ybit [of "7 - t"] True by (auto simp: idbit_def s_def [symmetric] t_def [symmetric] q_def [symmetric])
  next
    case False
    then have "idbit out p \<longleftrightarrow> bit (buf ! s) (7 - t)"
      using out len by (simp add: idbit_def s_def t_def)
    moreover have "p < nat k \<longleftrightarrow> s < q" and "p \<noteq> nat k" using False p k m t by auto
    ultimately show ?thesis
      using buf_nth by (simp add: idbit_def s_def [symmetric] t_def [symmetric] q_def [symmetric])
  qed
qed

lemma RandomIDInBucket_total:
  "0 \<le> k \<Longrightarrow> k < 160 \<Longrightarrow> \<exists>out. RandomIDInBucket (Some r) local k = Inr out"
  by (simp add: RandomIDInBucket_def Let_def)

lemma prefix_ge_iff:
  "d \<le> 160 \<Longrightarrow> d \<le> SharedPrefixLength l r \<longleftrightarrow> (\<forall>p<d. idbit l p = idbit r p)"
  using SharedPrefixLength_spec [of l r] unfolding prefix_spec_def
  by (metis order_less_le_trans linorder_not_le)

lemma prefix_eq_iff:
  assumes "d < 160"
  shows "SharedPrefixLength l r = d \<longleftrightarrow> (\<forall>p<d. idbit l p = idbit r p) \<and> idbit l d \<noteq> idbit r d"
proof
  assume "SharedPrefixLength l r = d"
  then show "(\<forall>p<d. idbit l p = idbit r p) \<and> idbit l d \<noteq> idbit r d"
    using SharedPrefixLength_spec [of l r] assms by (simp add: prefix_spec_def)
next
  assume "(\<forall>p<d. idbit l p = idbit r p) \<and> idbit l d \<noteq> idbit r d"
  then show "SharedPrefixLength l r = d"
    using assms by (intro SharedPrefixLength_eqI) (simp add: prefix_spec_def)
qed

section \<open>Properties of the key space\<close>

lemma xor_le_add: "(x :: nat) XOR y \<le> x + y"
proof (induction x arbitrary: y rule: less_induct)
  case (less x)
  show ?case
  proof (cases "x = 0")
    case False
    then have "x div 2 XOR y div 2 \<le> x div 2 + y div 2" by (intro less.IH) simp
    moreover have "(of_bool (odd x \<noteq> odd y) :: nat) \<le> x mod 2 + y mod 2" by (auto simp: odd_iff_mod_2_eq_one)
    ultimately have "of_bool (odd x \<noteq> odd y) + 2 * (x div 2 XOR y div 2)
        \<le> (x mod 2 + y mod 2) + 2 * (x div 2 + y div 2)"
      by (intro add_mono mult_le_mono2)
    then have "x XOR y \<le> (x mod 2 + y mod 2) + 2 * (x div 2 + y div 2)"
      by (simp only: xor_nat_rec [of x y])
    then show ?thesis by (simp add: algebra_simps)
  qed simp
qed

lemma id_val_XorDistance:
  assumes "length a = 20" and "length b = 20"
  shows "id_val (XorDistance a b) = id_val a XOR id_val b"
proof (rule bit_eqI)
  fix k
  show "bit (id_val (XorDistance a b)) k \<longleftrightarrow> bit (id_val a XOR id_val b) k"
  proof (cases "k < 160")
    case True
    then show ?thesis
      using assms by (simp add: bit_id_val_160 idbit_XorDistance bit_xor_iff)
  qed (use assms in \<open>simp add: bit_id_val bit_xor_iff\<close>)
qed

text \<open>
  C1. \<open>XorDistance\<close> is a metric on identifiers read as 160-bit numbers, and a unidirectional
  one: it is symmetric, zero exactly on equal identifiers, satisfies the triangle inequality,
  and for every identifier and distance there is exactly one identifier at that distance.
\<close>

theorem XorDistance_metric:
  assumes "is_nodeid a" and "is_nodeid b" and "is_nodeid c"
  shows "XorDistance a b = XorDistance b a
    \<and> (XorDistance a b = zero_id \<longleftrightarrow> a = b)
    \<and> id_val (XorDistance a c) \<le> id_val (XorDistance a b) + id_val (XorDistance b c)
    \<and> (\<exists>!z. is_nodeid z \<and> XorDistance a z = c)"
proof -
  have len: "length a = 20" "length b = 20" "length c = 20"
    using assms by (simp_all add: is_nodeid_def)
  have "id_val a XOR id_val c = (id_val a XOR id_val b) XOR (id_val b XOR id_val c)"
    by (simp add: xor.assoc flip: xor.assoc [of "id_val b"])
  then have "id_val (XorDistance a c) \<le> id_val (XorDistance a b) + id_val (XorDistance b c)"
    using len xor_le_add by (simp add: id_val_XorDistance)
  moreover have "\<exists>!z. is_nodeid z \<and> XorDistance a z = c"
  proof (rule ex1I [of _ "XorDistance a c"])
    show "is_nodeid (XorDistance a c) \<and> XorDistance a (XorDistance a c) = c"
      using len by (simp add: is_nodeid_def XorDistance_cancel)
    show "z = XorDistance a c" if "is_nodeid z \<and> XorDistance a z = c" for z
      using that by (auto simp: is_nodeid_def XorDistance_cancel)
  qed
  ultimately show ?thesis
    using XorDistance_commute XorDistance_eq_zero [OF len(1,2)] by blast
qed

theorem XorDistance_metric_witness:
  "is_nodeid zero_id \<and> (\<exists>!z. is_nodeid z \<and> XorDistance zero_id z = zero_id)"
proof -
  have "is_nodeid zero_id" by (simp add: is_nodeid_def)
  then show ?thesis using XorDistance_metric [of zero_id zero_id zero_id] by blast
qed

text \<open>
  C2. \<open>CompareXorDistance\<close>, the byte-by-byte loop, is the numeric comparison of the two
  distances: \<open>a\<close> is closer to the target than \<open>b\<close> exactly when its XOR with the target is the
  smaller number.
\<close>

theorem CompareXorDistance_numeric:
  "CompareXorDistance a b target \<longleftrightarrow>
     id_val (XorDistance a target) < id_val (XorDistance b target)"
  by (simp add: CompareXorDistance_def LessDistance_id_val)

text \<open>
  C3. The prefix loops are right: \<open>SharedPrefixLength\<close> is the position of the first differing
  bit (160 exactly for equal identifiers), \<open>KBucketIndex\<close> is the same number capped at 159, and
  an identifier that shares a longer prefix with the local one is strictly closer to it.
\<close>

theorem SharedPrefixLength_correct:
  assumes "is_nodeid l" and "is_nodeid a" and "is_nodeid b"
  shows "(\<forall>p < SharedPrefixLength l a. idbit l p = idbit a p)
    \<and> (SharedPrefixLength l a < 160 \<longrightarrow>
         idbit l (SharedPrefixLength l a) \<noteq> idbit a (SharedPrefixLength l a))
    \<and> (SharedPrefixLength l a = 160 \<longleftrightarrow> l = a)
    \<and> KBucketIndex l a = min (SharedPrefixLength l a) 159
    \<and> (SharedPrefixLength l b < SharedPrefixLength l a \<longrightarrow> CompareXorDistance a b l)"
proof -
  have "prefix_spec l a (SharedPrefixLength l a)" by (rule SharedPrefixLength_spec)
  moreover have "SharedPrefixLength l a = 160 \<longleftrightarrow> l = a"
    using assms by (simp add: is_nodeid_def SharedPrefixLength_160_iff)
  moreover have "CompareXorDistance a b l" if "SharedPrefixLength l b < SharedPrefixLength l a"
    using longer_prefix_closer [OF that]
    by (simp add: CompareXorDistance_def LessDistance_id_val XorDistance_commute [of _ l])
  ultimately show ?thesis by (simp add: prefix_spec_def KBucketIndex_eq)
qed

theorem SharedPrefixLength_correct_witness:
  "SharedPrefixLength zero_id (0x01 # replicate 19 0) = 7
    \<and> CompareXorDistance (0x01 # replicate 19 0) (0x80 # replicate 19 0) zero_id"
proof -
  have "SharedPrefixLength zero_id (0x01 # replicate 19 0) = 7"
    and "SharedPrefixLength zero_id (0x80 # replicate 19 0) = 0" by code_simp+
  then show ?thesis
    using SharedPrefixLength_correct [of zero_id "0x01 # replicate 19 0" "0x80 # replicate 19 0"]
    by (simp add: is_nodeid_def)
qed

text \<open>
  C22. Text form: parsing the hexadecimal form of an identifier gives the identifier back, and
  \<open>StringToNodeID\<close> accepts exactly the strings that decode to 20 bytes, failing with the wrong
  length or the invalid-digit error otherwise.
\<close>

theorem StringToNodeID_roundtrip:
  "(is_nodeid n \<longrightarrow> StringToNodeID (NodeID_String n) = Inr n)
   \<and> (StringToNodeID s = Inr m \<longleftrightarrow> hex_decode s = Some m \<and> is_nodeid m)
   \<and> (hex_decode s = None \<longrightarrow> StringToNodeID s = Inl (Err InvalidHex))"
  by (auto simp: StringToNodeID_def NodeID_String_def hex_decode_encode is_nodeid_def
      split: option.splits)

theorem StringToNodeID_roundtrip_witness:
  "StringToNodeID (NodeID_String zero_id) = Inr zero_id"
  using StringToNodeID_roundtrip [of zero_id "''''" zero_id] by (simp add: is_nodeid_def)

text \<open>
  The single-bit operations: setting, clearing or flipping bit \<open>b\<close> of a 20-byte key
  determines that bit and leaves every other bit as it was; outside \<open>0..159\<close> they return the
  key unchanged and \<open>GetBit\<close> reads 0.
\<close>

lemma bit_operations_correct:
  assumes "is_nodeid key" and "0 \<le> i" and "i < 160"
  shows "GetBit (SetBit key b) i = (if i = b then 1 else GetBit key i)
    \<and> GetBit (ClearBit key b) i = (if i = b then 0 else GetBit key i)
    \<and> GetBit (FlipBit key b) i = (if i = b then 1 - GetBit key i else GetBit key i)
    \<and> (b < 0 \<or> 160 \<le> b \<longrightarrow> GetBit key b = 0)"
proof (cases "0 \<le> b \<and> b < 160")
  case True
  have len: "length key = 20" using assms(1) by (simp add: is_nodeid_def)
  have pos: "159 - nat i < 160" by simp
  have eq: "159 - nat i = 159 - nat b \<longleftrightarrow> i = b" using True assms(2,3) by arith
  have b: "0 \<le> b" "b < 160" using True by simp_all
  have "GetBit (SetBit key b) i = of_bool (i = b \<or> idbit key (159 - nat i))"
    using GetBit_idbit [OF assms(2,3), of "SetBit key b"] idbit_SetBit [OF len pos b] eq by simp
  moreover have "GetBit (ClearBit key b) i = of_bool (i \<noteq> b \<and> idbit key (159 - nat i))"
    using GetBit_idbit [OF assms(2,3), of "ClearBit key b"] idbit_ClearBit [OF len pos b] eq by simp
  moreover have "GetBit (FlipBit key b) i = of_bool ((i = b) \<noteq> idbit key (159 - nat i))"
    using GetBit_idbit [OF assms(2,3), of "FlipBit key b"] idbit_FlipBit [OF len pos b] eq by simp
  ultimately show ?thesis
    using b GetBit_idbit [OF assms(2,3), of key] by (cases "i = b") simp_all
next
  case False
  then have "SetBit key b = key" "ClearBit key b = key" "FlipBit key b = key" "GetBit key b = 0"
    and "i \<noteq> b"
    using assms by (auto simp: SetBit_def ClearBit_def FlipBit_def GetBit_def)
  then show ?thesis by simp
qed

text \<open>
  \<open>ConfirmPrefix\<close> tests the other end of the key: because \<open>GetBit\<close> counts from the least
  significant bit, it holds exactly when the two keys agree in their last \<open>prefixLen\<close> bits, so
  keys that differ in their very first bit pass it for every length up to 159.
\<close>

lemma ConfirmPrefix_tests_suffix:
  assumes "is_nodeid a" and "is_nodeid b"
  shows "ConfirmPrefix a b n \<longleftrightarrow>
     0 \<le> n \<and> n \<le> 160 \<and> id_val a mod 2 ^ nat n = id_val b mod 2 ^ nat n"
proof (cases "0 \<le> n \<and> n \<le> 160")
  case True
  then show ?thesis using assms by (simp add: ConfirmPrefix_suffix is_nodeid_def)
qed (auto simp: ConfirmPrefix_def)

text \<open>
  C21. \<open>RandomIDInBucket\<close> keeps the promised prefix but not the promised bit: for \<open>k\<close> in range
  it returns an identifier that agrees with the local one in bits \<open>0..k-1\<close>; bit \<open>k\<close> is the
  random one flipped, so the identifier falls into bucket \<open>k\<close> exactly when the random bit
  happens to equal the local one, and into a deeper bucket otherwise.
\<close>

theorem RandomIDInBucket_prefix:
  assumes "is_nodeid local" and "0 \<le> k" and "k < 160" and "length r = 20 - nat k div 8"
  shows "\<exists>out. RandomIDInBucket (Some r) local k = Inr out \<and> is_nodeid out
    \<and> nat k \<le> SharedPrefixLength local out
    \<and> (SharedPrefixLength local out = nat k \<longleftrightarrow> bit (hd r) (7 - nat k mod 8) = idbit local (nat k))"
proof -
  obtain out where out: "RandomIDInBucket (Some r) local k = Inr out"
    using RandomIDInBucket_total [OF assms(2,3)] by blast
  have len: "length local = 20" and kk: "nat k < 160" using assms(1-3) by (simp_all add: is_nodeid_def)
  note bits = RandomIDInBucket_bits [OF len assms(2,3,4) out]
  have low: "\<forall>p<nat k. idbit local p = idbit out p" using bits(2) kk by auto
  have "r \<noteq> []" using assms(4) kk by auto
  then have "idbit out (nat k) \<longleftrightarrow> \<not> bit (hd r) (7 - nat k mod 8)"
    using bits(2) [OF kk] by (simp add: hd_conv_nth)
  then show ?thesis
    using out bits(1) [OF kk] low prefix_eq_iff [OF kk, of local out] prefix_ge_iff [of "nat k" local out] kk
    by (auto simp: is_nodeid_def)
qed

theorem RandomIDInBucket_prefix_witness:
  "\<exists>out. RandomIDInBucket (Some (0x80 # replicate 19 0)) zero_id 0 = Inr out
     \<and> SharedPrefixLength zero_id out \<noteq> 0"
  using RandomIDInBucket_prefix [of zero_id 0 "0x80 # replicate 19 0"]
  by (auto simp: is_nodeid_def idbit_def zero_id_def)

end
