(* ===== verification/Contact.thy ===== *)
theory Contact
  imports KeyBits
begin

text \<open>
  Peers. \<open>contact\<close> is the message \<open>api.Contact\<close> with the constructor and methods of
  \<open>api/rpc_ext.go\<close> and the nil-safe getters of \<open>api/rpc.pb.go\<close>; a Go pointer to it is a
  \<open>cptr\<close>, \<open>None\<close> being \<open>nil\<close>. \<open>node_contact\<close> is the struct of \<open>node/contact.go\<close>.
\<close>

record contact =
  c_Id :: bytes
  c_Username :: string
  c_Address :: string
  c_TcpPort :: string
  c_UdpPort :: string
  c_LastSeen :: int

type_synonym cptr = "contact option"

text \<open>\<open>now\<close> is the reading of the clock at the call.\<close>

definition NewContact :: "int \<Rightarrow> bytes \<Rightarrow> string \<Rightarrow> string \<Rightarrow> string \<Rightarrow> contact" where
  "NewContact now ident address tcpPort udpPort =
     \<lparr>c_Id = ident, c_Username = ''default'', c_Address = address, c_TcpPort = tcpPort,
      c_UdpPort = udpPort, c_LastSeen = now\<rparr>"

definition UpdateUsername :: "contact \<Rightarrow> string \<Rightarrow> contact" where
  "UpdateUsername c name = c\<lparr>c_Username := name\<rparr>"

text \<open>The generated getters answer the zero value on a nil pointer.\<close>

definition GetId :: "cptr \<Rightarrow> bytes" where
  "GetId p = (case p of None \<Rightarrow> [] | Some c \<Rightarrow> c_Id c)"

definition GetUsername :: "cptr \<Rightarrow> string" where
  "GetUsername p = (case p of None \<Rightarrow> '''' | Some c \<Rightarrow> c_Username c)"

definition GetAddress :: "cptr \<Rightarrow> string" where
  "GetAddress p = (case p of None \<Rightarrow> '''' | Some c \<Rightarrow> c_Address c)"

definition GetUdpPort :: "cptr \<Rightarrow> string" where
  "GetUdpPort p = (case p of None \<Rightarrow> '''' | Some c \<Rightarrow> c_UdpPort c)"

text \<open>The hand-written methods read the fields directly and panic on a nil pointer.\<close>

definition GetUDPAddress :: "cptr \<Rightarrow> ('e, string) go" where
  "GetUDPAddress p =
     (case p of None \<Rightarrow> Inl (Panic NilDereference)
      | Some c \<Rightarrow> Inr (c_Address c @ '':'' @ c_UdpPort c))"

definition GetTCPAddress :: "cptr \<Rightarrow> ('e, string) go" where
  "GetTCPAddress p =
     (case p of None \<Rightarrow> Inl (Panic NilDereference)
      | Some c \<Rightarrow> Inr (c_Address c @ '':'' @ c_TcpPort c))"

definition contact_ID :: "cptr \<Rightarrow> ('e, nodeid) go" where
  "contact_ID p = NodeID_conv (GetId p)"

text \<open>The key the routing code sorts and places by.\<close>

definition nid :: "cptr \<Rightarrow> nodeid" where
  "nid p = SliceToNodeID (GetId p)"

lemma length_nid [simp]: "length (nid p) = 20"
  by (simp add: nid_def)

lemma GetId_simps [simp]: "GetId None = []" "GetId (Some c) = c_Id c"
  by (simp_all add: GetId_def)

lemma nid_Some: "length (c_Id c) = 20 \<Longrightarrow> nid (Some c) = c_Id c"
  by (simp add: nid_def SliceToNodeID_id)

lemma contact_ID_nid:
  "contact_ID p = Inr n \<Longrightarrow> length (GetId p) = 20 \<Longrightarrow> n = nid p"
  by (simp add: contact_ID_def NodeID_conv_def nid_def SliceToNodeID_id)

section \<open>The contact of the node package\<close>

text \<open>\<open>time.Time\<close> is read only through \<open>UnixNano\<close>, a signed 64-bit count.\<close>

record node_contact =
  nc_id :: nodeid
  nc_address :: string
  nc_lastSeen :: "64 word"

definition node_NewContact :: "64 word \<Rightarrow> nodeid \<Rightarrow> string \<Rightarrow> node_contact" where
  "node_NewContact now ident address = \<lparr>nc_id = ident, nc_address = address, nc_lastSeen = now\<rparr>"

definition nc_ID :: "node_contact \<Rightarrow> nodeid" where "nc_ID c = nc_id c"
definition nc_Address :: "node_contact \<Rightarrow> string" where "nc_Address c = nc_address c"
definition LastSeen :: "node_contact \<Rightarrow> 64 word" where "LastSeen c = nc_lastSeen c"

definition UpdateLastSeen :: "64 word \<Rightarrow> node_contact \<Rightarrow> node_contact \<times> 64 word" where
  "UpdateLastSeen now c =
     (let window = now - nc_lastSeen c in (c\<lparr>nc_lastSeen := now\<rparr>, window))"

end
