(* ===== verification/KBucket.thy ===== *)
theory KBucket
  imports Contact
begin

text \<open>
  One k-bucket, \<open>network/routing/buckets.go\<close>. A bucket keeps at most \<open>k\<close> peers ordered by
  XOR distance to the local node; it reads the local contact and \<open>k\<close> through its pointer
  to the routing table, here the record \<open>router\<close> that the table's record extends.
\<close>

record router =
  rt_local :: cptr
  rt_k :: nat
  rt_alpha :: int

record kbucket =
  depth :: nat
  isFull :: bool
  peers :: "cptr list"

definition newBucket :: "'z router_scheme \<Rightarrow> nat \<Rightarrow> kbucket" where
  "newBucket r d = \<lparr>depth = d, isFull = False, peers = []\<rparr>"

definition updateFull :: "'z router_scheme \<Rightarrow> kbucket \<Rightarrow> kbucket" where
  "updateFull r b =
     (if length (peers b) < rt_k r then b\<lparr>isFull := False\<rparr> else b\<lparr>isFull := True\<rparr>)"

definition containsContact :: "kbucket \<Rightarrow> cptr \<Rightarrow> bool" where
  "containsContact b c = list_ex (\<lambda>contact. SliceCompare (GetId contact) (GetId c)) (peers b)"

text \<open>The comparison \<open>Insert\<close> passes to \<open>sort.Slice\<close>.\<close>

definition closer_to :: "nodeid \<Rightarrow> cptr \<Rightarrow> cptr \<Rightarrow> bool" where
  "closer_to localID x y =
     LessDistance (XorDistance (SliceToNodeID (GetId x)) localID)
                  (XorDistance (SliceToNodeID (GetId y)) localID)"

definition bucket_Insert :: "'z router_scheme \<Rightarrow> kbucket \<Rightarrow> cptr \<Rightarrow> kbucket \<times> bool" where
  "bucket_Insert r b c =
     (let ps = delete_first (\<lambda>existing. SliceCompare (GetId existing) (GetId c)) (peers b);
          ps = ps @ [c];
          localID = SliceToNodeID (GetId (rt_local r));
          ps = sort_slice (closer_to localID) ps;
          ps = (if rt_k r < length ps then take (rt_k r) ps else ps);
          b' = updateFull r (b\<lparr>peers := ps\<rparr>)
      in (b', containsContact b' c))"

definition bucket_Remove :: "'z router_scheme \<Rightarrow> kbucket \<Rightarrow> cptr \<Rightarrow> kbucket \<times> bool" where
  "bucket_Remove r b c =
     (if containsContact b c
      then (updateFull r (b\<lparr>peers :=
              delete_first (\<lambda>node. SliceCompare (GetId node) (GetId c)) (peers b)\<rparr>), True)
      else (b, False))"

text \<open>The loop of \<open>Split\<close>: a peer of exactly this depth stays left, any other goes right.\<close>

fun split_loop :: "nodeid \<Rightarrow> nat \<Rightarrow> cptr list \<Rightarrow> cptr list \<times> cptr list \<Rightarrow> cptr list \<times> cptr list" where
  "split_loop localID d [] acc = acc"
| "split_loop localID d (c # cs) (left, right) =
     (if SharedPrefixLength localID (SliceToNodeID (GetId c)) = d
      then split_loop localID d cs (left @ [c], right)
      else split_loop localID d cs (left, right @ [c]))"

definition bucket_Split :: "'z router_scheme \<Rightarrow> kbucket \<Rightarrow> kbucket \<times> kbucket option" where
  "bucket_Split r b =
     (if \<not> containsContact b (rt_local r) then (b, None)
      else
        let localID = SliceToNodeID (GetId (rt_local r));
            (lp, rp) = split_loop localID (depth b) (peers b) ([], []);
            left = (newBucket r (depth b))\<lparr>peers := lp\<rparr>;
            right = (newBucket r (depth b + 1))\<lparr>peers := rp\<rparr>
        in (updateFull r left, Some (updateFull r right)))"

section \<open>The invariant of a bucket\<close>

text \<open>Distance of a peer to an identifier, as a number.\<close>

definition dist :: "nodeid \<Rightarrow> cptr \<Rightarrow> nat" where
  "dist t c = id_val (XorDistance (nid c) t)"

definition bucket_inv :: "'z router_scheme \<Rightarrow> kbucket \<Rightarrow> bool" where
  "bucket_inv r b \<longleftrightarrow>
     length (peers b) \<le> rt_k r
     \<and> isFull b = (rt_k r \<le> length (peers b))
     \<and> sorted (map (dist (nid (rt_local r))) (peers b))
     \<and> distinct (map GetId (peers b))"

lemma closer_to_iff: "closer_to t x y \<longleftrightarrow> dist t x < dist t y"
  by (simp add: closer_to_def dist_def nid_def LessDistance_id_val)

lemma dist_self_zero: "dist t c = 0 \<longleftrightarrow> nid c = t" if "length t = 20"
proof -
  have "dist t c = 0 \<longleftrightarrow> id_val (XorDistance (nid c) t) = id_val zero_id"
    by (simp add: dist_def)
  also have "\<dots> \<longleftrightarrow> XorDistance (nid c) t = zero_id" by (rule id_val_inj) simp
  finally show ?thesis using that by (simp add: XorDistance_eq_zero)
qed

lemma dist_inj: "length t = 20 \<Longrightarrow> dist t x = dist t y \<longleftrightarrow> nid x = nid y"
  by (simp add: dist_def id_val_inj XorDistance_inj)

lemma containsContact_iff: "containsContact b c \<longleftrightarrow> GetId c \<in> GetId ` set (peers b)"
  by (auto simp: containsContact_def list_ex_iff) (metis image_eqI)

lemma updateFull_simps [simp]:
  "peers (updateFull r b) = peers b" "depth (updateFull r b) = depth b"
  "isFull (updateFull r b) \<longleftrightarrow> rt_k r \<le> length (peers b)"
  by (auto simp: updateFull_def)

lemma newBucket_simps [simp]:
  "peers (newBucket r d) = []" "depth (newBucket r d) = d" "\<not> isFull (newBucket r d)"
  by (simp_all add: newBucket_def)

lemma split_loop_filter:
  "split_loop l d cs (xs, ys) =
     (xs @ filter (\<lambda>c. SharedPrefixLength l (nid c) = d) cs,
      ys @ filter (\<lambda>c. SharedPrefixLength l (nid c) \<noteq> d) cs)"
  by (induction l d cs "(xs, ys)" arbitrary: xs ys rule: split_loop.induct) (auto simp: nid_def)

section \<open>Insertion\<close>

definition insert_pool :: "kbucket \<Rightarrow> cptr \<Rightarrow> cptr list" where
  "insert_pool b c = delete_first (\<lambda>e. GetId e = GetId c) (peers b) @ [c]"

lemma peers_Insert:
  "peers (fst (bucket_Insert r b c)) =
     take (rt_k r) (sort_slice (closer_to (nid (rt_local r))) (insert_pool b c))"
  by (simp add: bucket_Insert_def Let_def insert_pool_def nid_def)

lemma depth_Insert [simp]: "depth (fst (bucket_Insert r b c)) = depth b"
  by (simp add: bucket_Insert_def Let_def)

lemma isFull_Insert:
  "isFull (fst (bucket_Insert r b c)) \<longleftrightarrow> rt_k r \<le> length (peers (fst (bucket_Insert r b c)))"
  by (simp add: bucket_Insert_def Let_def)

lemma snd_Insert: "snd (bucket_Insert r b c) = containsContact (fst (bucket_Insert r b c)) c"
  by (simp add: bucket_Insert_def Let_def)

lemma set_insert_pool:
  "distinct (map GetId (peers b)) \<Longrightarrow>
   set (insert_pool b c) = insert c {x \<in> set (peers b). GetId x \<noteq> GetId c}"
  using delete_first_removes_key [of GetId "peers b" _ "GetId c"]
  by (auto simp: insert_pool_def intro: delete_first_keeps dest: in_delete_first)

lemma distinct_insert_pool:
  "distinct (map GetId (peers b)) \<Longrightarrow> distinct (map GetId (insert_pool b c))"
  using delete_first_removes_key [of GetId "peers b" _ "GetId c"]
  by (force simp: insert_pool_def intro: distinct_map_delete_first)

lemma Insert_inv:
  assumes "bucket_inv r b"
  shows "bucket_inv r (fst (bucket_Insert r b c))"
proof -
  let ?t = "nid (rt_local r)"
  let ?s = "sort_slice (closer_to ?t) (insert_pool b c)"
  have "sorted (map (dist ?t) ?s)"
    by (rule go_sort.srt_sorted) (simp add: closer_to_iff)
  moreover have "distinct (map GetId ?s)"
    using assms by (simp add: shortlist_rules bucket_inv_def distinct_insert_pool)
  ultimately show ?thesis
    using isFull_Insert [of r b c]
    by (simp add: bucket_inv_def peers_Insert sorted_map_take distinct_map_take)
qed

lemma Insert_subset:
  "distinct (map GetId (peers b)) \<Longrightarrow>
   set (peers (fst (bucket_Insert r b c))) \<subseteq> insert c (set (peers b))"
  unfolding peers_Insert using go_sort.top_subset set_insert_pool by fastforce

lemma Insert_dropped:
  assumes "distinct (map GetId (peers b))"
    and "y \<in> insert c {x \<in> set (peers b). GetId x \<noteq> GetId c}"
    and "y \<notin> set (peers (fst (bucket_Insert r b c)))"
  shows "length (peers (fst (bucket_Insert r b c))) = rt_k r"
    and "x \<in> set (peers (fst (bucket_Insert r b c)))
           \<Longrightarrow> dist (nid (rt_local r)) x \<le> dist (nid (rt_local r)) y"
proof -
  have y: "y \<in> set (insert_pool b c)" using assms(1,2) by (simp add: set_insert_pool)
  show "length (peers (fst (bucket_Insert r b c))) = rt_k r"
    using go_sort.top_dropped_full [OF y] assms(3) unfolding peers_Insert by blast
  show "dist (nid (rt_local r)) x \<le> dist (nid (rt_local r)) y"
    if "x \<in> set (peers (fst (bucket_Insert r b c)))"
    using go_sort.top_closest [OF _ y] that assms(3) closer_to_iff unfolding peers_Insert by blast
qed

section \<open>Removal and splitting\<close>

lemma Remove_inv: "bucket_inv r b \<Longrightarrow> bucket_inv r (fst (bucket_Remove r b c))"
  using length_delete_first_le [of "\<lambda>e. GetId e = GetId c" "peers b"]
  by (auto simp: bucket_Remove_def bucket_inv_def
      intro: sorted_map_delete_first distinct_map_delete_first)

lemma depth_Remove [simp]: "depth (fst (bucket_Remove r b c)) = depth b"
  by (simp add: bucket_Remove_def)

lemma set_Remove:
  assumes "distinct (map GetId (peers b))"
  shows "set (peers (fst (bucket_Remove r b c))) = {x \<in> set (peers b). GetId x \<noteq> GetId c}"
proof (cases "containsContact b c")
  case True
  then show ?thesis
    using delete_first_removes_key [OF assms, of _ "GetId c"]
    by (auto simp: bucket_Remove_def intro: delete_first_keeps dest: in_delete_first)
next
  case False
  then have "GetId x \<noteq> GetId c" if "x \<in> set (peers b)" for x
    using that by (metis containsContact_iff imageI)
  with False show ?thesis by (auto simp: bucket_Remove_def)
qed

lemma Split_None: "\<not> containsContact b (rt_local r) \<Longrightarrow> bucket_Split r b = (b, None)"
  by (simp add: bucket_Split_def)

lemma Split_Some:
  assumes "containsContact b (rt_local r)"
  obtains left right where "bucket_Split r b = (left, Some right)"
    and "depth left = depth b" and "depth right = depth b + 1"
    and "peers left = filter (\<lambda>c. SharedPrefixLength (nid (rt_local r)) (nid c) = depth b) (peers b)"
    and "peers right = filter (\<lambda>c. SharedPrefixLength (nid (rt_local r)) (nid c) \<noteq> depth b) (peers b)"
    and "isFull left = (rt_k r \<le> length (peers left))"
    and "isFull right = (rt_k r \<le> length (peers right))"
proof (rule that)
  let ?P = "\<lambda>c. SharedPrefixLength (nid (rt_local r)) (nid c) = depth b"
  show "bucket_Split r b =
      (updateFull r ((newBucket r (depth b))\<lparr>peers := filter ?P (peers b)\<rparr>),
       Some (updateFull r ((newBucket r (depth b + 1))\<lparr>peers := filter (\<lambda>c. \<not> ?P c) (peers b)\<rparr>)))"
    using assms by (simp add: bucket_Split_def Let_def split_loop_filter nid_def [symmetric])
qed simp_all

lemma Split_depth: "bucket_Split r b = (left, Some right) \<Longrightarrow> depth right = depth b + 1"
  by (auto simp: bucket_Split_def Let_def split: if_splits prod.splits)

lemma bucket_inv_filter:
  assumes "bucket_inv r b" and "peers b' = filter P (peers b)"
    and "isFull b' = (rt_k r \<le> length (peers b'))"
  shows "bucket_inv r b'"
proof -
  have "length (filter P (peers b)) \<le> length (peers b)" by simp
  then have "length (filter P (peers b)) \<le> rt_k r"
    using assms(1) unfolding bucket_inv_def by linarith
  then show ?thesis
    using assms by (simp add: bucket_inv_def sorted_filter distinct_map_filter)
qed

section \<open>Properties\<close>

text \<open>
  \<open>Insert\<close> keeps the \<open>k\<close> closest: on a well-formed bucket the result is well formed, its
  peers are the new contact and the old ones of other identifiers, cut to \<open>k\<close>; a peer that is
  dropped leaves exactly \<open>k\<close> peers behind, none of them farther from the local node. The
  returned flag says whether the contact was kept.
\<close>

lemma Insert_keeps_closest:
  assumes "bucket_inv r b" and "bucket_Insert r b c = (b', kept)"
  shows "bucket_inv r b'
    \<and> set (peers b') \<subseteq> insert c {x \<in> set (peers b). GetId x \<noteq> GetId c}
    \<and> (kept \<longleftrightarrow> (\<exists>x \<in> set (peers b'). GetId x = GetId c))
    \<and> (\<forall>y \<in> insert c {x \<in> set (peers b). GetId x \<noteq> GetId c} - set (peers b').
           length (peers b') = rt_k r
           \<and> (\<forall>x \<in> set (peers b'). dist (nid (rt_local r)) x \<le> dist (nid (rt_local r)) y))"
proof -
  have d: "distinct (map GetId (peers b))" using assms(1) by (simp add: bucket_inv_def)
  have b': "b' = fst (bucket_Insert r b c)" and kept: "kept = snd (bucket_Insert r b c)"
    using assms(2) by simp_all
  have "bucket_inv r b'" unfolding b' by (rule Insert_inv [OF assms(1)])
  moreover have "set (peers b') \<subseteq> insert c {x \<in> set (peers b). GetId x \<noteq> GetId c}"
    unfolding b' peers_Insert
    using go_sort.top_subset [of "rt_k r" "closer_to (nid (rt_local r))" "insert_pool b c"]
    unfolding set_insert_pool [OF d] .
  moreover have "kept \<longleftrightarrow> (\<exists>x \<in> set (peers b'). GetId x = GetId c)"
    unfolding kept b' snd_Insert containsContact_iff image_iff by metis
  moreover have "\<forall>y \<in> insert c {x \<in> set (peers b). GetId x \<noteq> GetId c} - set (peers b').
           length (peers b') = rt_k r
           \<and> (\<forall>x \<in> set (peers b'). dist (nid (rt_local r)) x \<le> dist (nid (rt_local r)) y)"
    unfolding b' using Insert_dropped [OF d] by blast
  ultimately show ?thesis by blast
qed

text \<open>Peers for the concrete instances: the identifier \<open>0\<dots>0v\<close>.\<close>

definition low_peer :: "byte \<Rightarrow> cptr" where
  "low_peer v = Some (NewContact 0 (replicate 19 0 @ [v]) ''localhost'' ''6668'' ''6669'')"

lemma GetId_low_peer [simp]: "GetId (low_peer v) = replicate 19 0 @ [v]"
  by (simp add: low_peer_def NewContact_def)

lemma nid_low_peer [simp]: "nid (low_peer v) = replicate 19 0 @ [v]"
  by (simp add: nid_def SliceToNodeID_def)

end
