(* ===== verification/RoutingTable.thy ===== *)
theory RoutingTable
  imports KBucket
begin

text \<open>
  The routing table, \<open>network/routing/routing_table.go\<close>: a list of buckets, bucket \<open>i\<close>
  holding the peers that share exactly \<open>i\<close> leading bits with the local node, the last one
  every peer that shares more. Each operation is one critical section of the table's mutex
  (for \<open>Update\<close>, one pass of its loop); the model runs them one after the other.
\<close>

record routing_table = router +
  buckets :: "kbucket list"

datatype rt_error = NoSplit | BucketIndexRange int

definition localID :: "'z router_scheme \<Rightarrow> nodeid" where
  "localID rt = SliceToNodeID (GetId (rt_local rt))"

section \<open>Update\<close>

text \<open>
  The loop of \<open>Update\<close>: a pass either returns, fails, or splits the deepest bucket and
  starts again. Every split increases the depth of the last bucket, which the guard keeps
  below \<open>KeyBits\<close>, so the loop ends on every table, well formed or not.
\<close>

function rt_Update :: "routing_table \<Rightarrow> cptr \<Rightarrow> routing_table \<times> (rt_error, unit) go" where
  "rt_Update rt c =
     (let local = localID rt; other = SliceToNodeID (GetId c); size = length (buckets rt) in
      if size \<noteq> 0 \<and> local = other then (rt, Inr ())
      else
        let bucketIndex = SharedPrefixLength local other in
        if size = 0 \<and> GetId c = GetId (rt_local rt) then
          (rt\<lparr>buckets := [fst (bucket_Insert rt (newBucket rt 0) c)]\<rparr>, Inr ())
        else
          let bucketIndex = (if size \<le> bucketIndex then size - 1 else bucketIndex) in
          if size \<le> bucketIndex then (rt, Inl (Panic IndexOutOfRange))
          else
            let bucket = buckets rt ! bucketIndex in
            if bucketIndex = size - 1 \<and> depth bucket < KeyBits - 1 \<and> isFull bucket then
              (case bucket_Split rt bucket of
                 (left, None) \<Rightarrow> (rt, Inl (Err NoSplit))
               | (left, Some right) \<Rightarrow>
                   rt_Update (rt\<lparr>buckets := take bucketIndex (buckets rt) @ [left, right]\<rparr>) c)
            else
              (rt\<lparr>buckets := (buckets rt)[bucketIndex := fst (bucket_Insert rt bucket c)]\<rparr>, Inr ()))"
  by pat_completeness auto
termination
proof (relation "measure (\<lambda>(rt, c). KeyBits - depth (last (buckets rt)))")
  show "wf (measure (\<lambda>(rt, c). KeyBits - depth (last (buckets rt))))" by simp
  fix rt :: routing_table and c :: cptr
  fix local other size bi bucketIndex bucket split left right_opt right
  assume h: "size = length (buckets rt)" "\<not> size \<le> bucketIndex"
    "bucket = buckets rt ! bucketIndex"
    "bucketIndex = size - 1 \<and> depth bucket < KeyBits - 1 \<and> isFull bucket"
    "(left, right_opt) = bucket_Split rt bucket" "right_opt = Some right"
  then have "last (buckets rt) = bucket" by (cases "buckets rt = []") (auto simp: last_conv_nth)
  moreover have "KeyBits - depth right < KeyBits - depth bucket"
  proof -
    have "depth right = depth bucket + 1" using Split_depth [of rt bucket left right] h(5,6) by simp
    moreover have "depth bucket < KeyBits - 1" using h(4) by blast
    ultimately show ?thesis by simp
  qed
  ultimately show "((rt\<lparr>buckets := take bucketIndex (buckets rt) @ [left, right]\<rparr>, c), (rt, c))
      \<in> measure (\<lambda>(rt, c). KeyBits - depth (last (buckets rt)))"
    by simp
qed

declare rt_Update.simps [simp del]

text \<open>A negative \<open>k\<close> panics in the \<open>make\<close> of the first bucket.\<close>

definition NewRoutingTable :: "cptr \<Rightarrow> int \<Rightarrow> int \<Rightarrow> (rt_error, routing_table) go" where
  "NewRoutingTable localNode k alpha =
     (if k < 0 then Inl (Panic NegativeMake)
      else Inr (fst (rt_Update
        \<lparr>rt_local = localNode, rt_k = nat k, rt_alpha = alpha, buckets = []\<rparr> localNode)))"

section \<open>The other operations\<close>

definition GetBucket :: "routing_table \<Rightarrow> int \<Rightarrow> (rt_error, cptr list) go" where
  "GetBucket rt i =
     (if i < 0 \<or> int (length (buckets rt)) \<le> i then Inl (Err (BucketIndexRange i))
      else Inr (peers (buckets rt ! nat i)))"

text \<open>Only the upper bound is tested: a negative index reaches the slice expression.\<close>

definition GetBucketSize :: "routing_table \<Rightarrow> int \<Rightarrow> (rt_error, int) go" where
  "GetBucketSize rt i =
     (if int (length (buckets rt)) \<le> i then Inr (-1)
      else if i < 0 then Inl (Panic IndexOutOfRange)
      else Inr (int (length (peers (buckets rt ! nat i)))))"

definition rt_Remove :: "routing_table \<Rightarrow> cptr \<Rightarrow> routing_table \<times> (rt_error, unit) go" where
  "rt_Remove rt c =
     (let other = SliceToNodeID (GetId c);
          bucketIndex = KBucketIndex (localID rt) other;
          n = length (buckets rt);
          bucketIndex = (if n \<le> bucketIndex then n - 1 else bucketIndex)
      in if n \<le> bucketIndex then (rt, Inl (Panic IndexOutOfRange))
         else (rt\<lparr>buckets := (buckets rt)[bucketIndex :=
                 fst (bucket_Remove rt (buckets rt ! bucketIndex) c)]\<rparr>, Inr ()))"

text \<open>The two nested loops of \<open>ClosestK\<close> over all peers, with the map of distances.\<close>

fun gather_loop :: "nodeid \<Rightarrow> nodeid \<Rightarrow> cptr list \<Rightarrow> cptr list \<times> (nodeid \<rightharpoonup> nodeid)
    \<Rightarrow> cptr list \<times> (nodeid \<rightharpoonup> nodeid)" where
  "gather_loop local target [] acc = acc"
| "gather_loop local target (c # cs) (all, distances) =
     (let other = SliceToNodeID (GetId c) in
      if SliceCompare local other then gather_loop local target cs (all, distances)
      else if distances other \<noteq> None then gather_loop local target cs (all, distances)
      else gather_loop local target cs
             (all @ [c], distances(other \<mapsto> XorDistance other target)))"

text \<open>A Go map answers the zero value for a missing key.\<close>

definition map_get :: "(nodeid \<rightharpoonup> nodeid) \<Rightarrow> nodeid \<Rightarrow> nodeid" where
  "map_get m i = (case m i of None \<Rightarrow> zero_id | Some d \<Rightarrow> d)"

definition ClosestK :: "routing_table \<Rightarrow> nodeid \<Rightarrow> (rt_error, cptr list) go" where
  "ClosestK rt target =
     (let (all, distances) =
            gather_loop (localID rt) target (concat (map peers (buckets rt))) ([], Map.empty);
          all = sort_slice (\<lambda>x y. LessDistance
                  (map_get distances (SliceToNodeID (GetId x)))
                  (map_get distances (SliceToNodeID (GetId y)))) all;
          all = (if rt_k rt < length all then take (rt_k rt) all else all)
      in Inr all)"

section \<open>The invariant of the table\<close>

definition table_peers :: "routing_table \<Rightarrow> cptr set" where
  "table_peers rt = (\<Union>b \<in> set (buckets rt). set (peers b))"

text \<open>Where a peer belongs: its prefix length, or the last bucket.\<close>

definition place :: "routing_table \<Rightarrow> cptr \<Rightarrow> nat" where
  "place rt c = min (SharedPrefixLength (localID rt) (nid c)) (length (buckets rt) - 1)"

definition rt_inv :: "routing_table \<Rightarrow> bool" where
  "rt_inv rt \<longleftrightarrow>
     0 < rt_k rt \<and> buckets rt \<noteq> [] \<and> length (buckets rt) \<le> KeyBits
     \<and> (\<forall>i < length (buckets rt).
           bucket_inv rt (buckets rt ! i) \<and> depth (buckets rt ! i) = i
           \<and> (\<forall>c \<in> set (peers (buckets rt ! i)).
                place rt c = i \<and> (nid c = localID rt \<longrightarrow> GetId c = GetId (rt_local rt))))
     \<and> containsContact (last (buckets rt)) (rt_local rt)"

lemma bucket_ops_update [simp]:
  "bucket_Insert (rt\<lparr>buckets := bs\<rparr>) = bucket_Insert rt"
  "bucket_inv (rt\<lparr>buckets := bs\<rparr>) = bucket_inv rt"
  "localID (rt\<lparr>buckets := bs\<rparr>) = localID rt"
  by (auto simp: fun_eq_iff Let_def bucket_Insert_def updateFull_def bucket_inv_def localID_def)

lemma localID_nid: "localID rt = nid (rt_local rt)"
  by (simp add: localID_def nid_def)

section \<open>Shapes of an update\<close>

text \<open>On a non-empty table a pass takes one of four branches.\<close>

lemma rt_Update_local:
  "buckets rt \<noteq> [] \<Longrightarrow> nid c = localID rt \<Longrightarrow> rt_Update rt c = (rt, Inr ())"
  by (simp add: rt_Update.simps [of rt c] Let_def nid_def)

definition splits_on :: "routing_table \<Rightarrow> cptr \<Rightarrow> bool" where
  "splits_on rt c \<longleftrightarrow> place rt c = length (buckets rt) - 1
     \<and> depth (last (buckets rt)) < KeyBits - 1 \<and> isFull (last (buckets rt))"

lemma rt_Update_pass:
  assumes "buckets rt \<noteq> []" and "nid c \<noteq> localID rt"
  shows "rt_Update rt c =
     (if splits_on rt c then
        (case bucket_Split rt (last (buckets rt)) of
           (left, None) \<Rightarrow> (rt, Inl (Err NoSplit))
         | (left, Some right) \<Rightarrow>
             rt_Update (rt\<lparr>buckets := butlast (buckets rt) @ [left, right]\<rparr>) c)
      else (rt\<lparr>buckets := (buckets rt)[place rt c :=
              fst (bucket_Insert rt (buckets rt ! place rt c) c)]\<rparr>, Inr ()))"
proof -
  let ?p = "SharedPrefixLength (localID rt) (nid c)"
  let ?n = "length (buckets rt)"
  have n: "0 < ?n" using assms(1) by simp
  have tl: "take (?n - 1) (buckets rt) = butlast (buckets rt)" by (simp add: butlast_conv_take)
  have nth: "buckets rt ! (?n - 1) = last (buckets rt)" using assms(1) by (simp add: last_conv_nth)
  have ne: "\<not> (?n \<noteq> 0 \<and> localID rt = nid c)" "\<not> (?n = 0 \<and> GetId c = GetId (rt_local rt))"
    using assms by auto
  have idx: "(if ?n \<le> ?p then ?n - 1 else ?p) = place rt c"
    using n by (auto simp: place_def)
  have lt: "\<not> ?n \<le> place rt c" using n by (simp add: place_def not_le min_less_iff_disj)
  have "rt_Update rt c =
      (if place rt c = ?n - 1 \<and> depth (buckets rt ! place rt c) < KeyBits - 1
            \<and> isFull (buckets rt ! place rt c)
       then (case bucket_Split rt (buckets rt ! place rt c) of
               (left, None) \<Rightarrow> (rt, Inl (Err NoSplit))
             | (left, Some right) \<Rightarrow>
                 rt_Update (rt\<lparr>buckets := take (place rt c) (buckets rt) @ [left, right]\<rparr>) c)
       else (rt\<lparr>buckets := (buckets rt)[place rt c :=
               fst (bucket_Insert rt (buckets rt ! place rt c) c)]\<rparr>, Inr ()))"
    unfolding rt_Update.simps [of rt c] Let_def nid_def [symmetric] idx
      if_not_P [OF ne(1)] if_not_P [OF ne(2)] if_not_P [OF lt] ..
  then show ?thesis
    unfolding splits_on_def by (cases "place rt c = ?n - 1") (simp_all only: nth tl simp_thms if_True if_False)
qed

lemma place_less: "buckets rt \<noteq> [] \<Longrightarrow> place rt c < length (buckets rt)"
  by (simp add: place_def min_less_iff_disj)

section \<open>Splitting keeps the invariant\<close>

lemma rt_inv_nth:
  assumes "rt_inv rt" and "i < length (buckets rt)"
  shows "bucket_inv rt (buckets rt ! i)" and "depth (buckets rt ! i) = i"
    and "c \<in> set (peers (buckets rt ! i)) \<Longrightarrow> place rt c = i"
    and "c \<in> set (peers (buckets rt ! i)) \<Longrightarrow> nid c = localID rt \<Longrightarrow> GetId c = GetId (rt_local rt)"
  using assms unfolding rt_inv_def by blast+

lemma rt_inv_basic:
  assumes "rt_inv rt"
  shows "0 < rt_k rt" and "buckets rt \<noteq> []" and "length (buckets rt) \<le> 160"
    and "containsContact (last (buckets rt)) (rt_local rt)"
  using assms unfolding rt_inv_def by simp_all

definition split_table :: "routing_table \<Rightarrow> kbucket \<Rightarrow> kbucket \<Rightarrow> routing_table" where
  "split_table rt left right = rt\<lparr>buckets := butlast (buckets rt) @ [left, right]\<rparr>"

lemma rt_inv_last:
  assumes "rt_inv rt"
  shows "bucket_inv rt (last (buckets rt))"
    and "depth (last (buckets rt)) = length (buckets rt) - 1"
    and "c \<in> set (peers (last (buckets rt))) \<Longrightarrow>
           length (buckets rt) - 1 \<le> SharedPrefixLength (localID rt) (nid c)"
    and "c \<in> set (peers (last (buckets rt))) \<Longrightarrow> nid c = localID rt \<Longrightarrow> GetId c = GetId (rt_local rt)"
proof -
  let ?n = "length (buckets rt) - 1"
  have ne: "buckets rt \<noteq> []" using assms by (rule rt_inv_basic)
  then have n: "?n < length (buckets rt)" and l: "last (buckets rt) = buckets rt ! ?n"
    by (simp_all add: last_conv_nth)
  show "bucket_inv rt (last (buckets rt))" and "depth (last (buckets rt)) = ?n"
    using rt_inv_nth [OF assms n] l by simp_all
  show "?n \<le> SharedPrefixLength (localID rt) (nid c)" if "c \<in> set (peers (last (buckets rt)))"
    using rt_inv_nth(3) [OF assms n] that l by (fastforce simp: place_def)
  show "GetId c = GetId (rt_local rt)"
    if "c \<in> set (peers (last (buckets rt)))" "nid c = localID rt"
    using rt_inv_nth(4) [OF assms n] that l by simp
qed

lemma place_split:
  "place (split_table rt left right) c
     = min (SharedPrefixLength (localID rt) (nid c)) (length (buckets rt))"
  if "buckets rt \<noteq> []"
  using that by (cases "buckets rt") (simp_all add: place_def split_table_def)

lemma nth_split_table:
  assumes "buckets rt \<noteq> []"
  shows "buckets (split_table rt left right) ! i =
     (if i < length (buckets rt) - 1 then buckets rt ! i
      else ([left, right] ! (i - (length (buckets rt) - 1))))"
  by (simp add: split_table_def nth_append nth_butlast)

lemma length_split_table:
  "buckets rt \<noteq> [] \<Longrightarrow> length (buckets (split_table rt left right)) = Suc (length (buckets rt))"
  by (cases "buckets rt") (simp_all add: split_table_def)

lemma split_table_frame [simp]:
  "rt_k (split_table rt left right) = rt_k rt" "rt_local (split_table rt left right) = rt_local rt"
  "localID (split_table rt left right) = localID rt"
  "bucket_inv (split_table rt left right) = bucket_inv rt"
  by (simp_all add: split_table_def)

lemma Split_some_table:
  assumes inv: "rt_inv rt"
  obtains left right where "bucket_Split rt (last (buckets rt)) = (left, Some right)"
    and "depth left = length (buckets rt) - 1" and "depth right = length (buckets rt)"
    and "peers left = filter (\<lambda>c. SharedPrefixLength (localID rt) (nid c)
           = length (buckets rt) - 1) (peers (last (buckets rt)))"
    and "peers right = filter (\<lambda>c. SharedPrefixLength (localID rt) (nid c)
           \<noteq> length (buckets rt) - 1) (peers (last (buckets rt)))"
    and "isFull left = (rt_k rt \<le> length (peers left))"
    and "isFull right = (rt_k rt \<le> length (peers right))"
proof -
  have "0 < length (buckets rt)" using rt_inv_basic(2) [OF inv] by simp
  then show thesis
    using that rt_inv_last(2) [OF inv] Split_Some [OF rt_inv_basic(4) [OF inv]]
    by (simp add: localID_nid) (metis Suc_pred)
qed

text \<open>The halves of the last bucket, as a split leaves them.\<close>

definition halves :: "routing_table \<Rightarrow> kbucket \<Rightarrow> kbucket \<Rightarrow> bool" where
  "halves rt left right \<longleftrightarrow> bucket_inv rt left \<and> bucket_inv rt right
     \<and> depth left = length (buckets rt) - 1 \<and> depth right = length (buckets rt)
     \<and> peers left = filter (\<lambda>c. SharedPrefixLength (localID rt) (nid c) = length (buckets rt) - 1) (peers (last (buckets rt)))
     \<and> peers right = filter (\<lambda>c. SharedPrefixLength (localID rt) (nid c) \<noteq> length (buckets rt) - 1) (peers (last (buckets rt)))"

lemma split_halves:
  assumes inv: "rt_inv rt"
  obtains left right where "bucket_Split rt (last (buckets rt)) = (left, Some right)" and "halves rt left right"
proof -
  obtain left right where "bucket_Split rt (last (buckets rt)) = (left, Some right)"
    and d: "depth left = length (buckets rt) - 1" "depth right = length (buckets rt)"
    and pl: "peers left = filter (\<lambda>c. SharedPrefixLength (localID rt) (nid c) = length (buckets rt) - 1) (peers (last (buckets rt)))"
    and pr: "peers right = filter (\<lambda>c. SharedPrefixLength (localID rt) (nid c) \<noteq> length (buckets rt) - 1) (peers (last (buckets rt)))"
    and full: "isFull left = (rt_k rt \<le> length (peers left))" "isFull right = (rt_k rt \<le> length (peers right))"
    by (rule Split_some_table [OF inv])
  moreover have "bucket_inv rt left" "bucket_inv rt right"
    using bucket_inv_filter [OF rt_inv_last(1) [OF inv]] pl pr full by blast+
  ultimately show thesis using that by (simp add: halves_def)
qed

lemma split_table_buckets:
  assumes inv: "rt_inv rt" and h: "halves rt left right" and i: "i < Suc (length (buckets rt))"
  shows "bucket_inv rt (buckets (split_table rt left right) ! i) \<and> depth (buckets (split_table rt left right) ! i) = i
    \<and> (\<forall>c \<in> set (peers (buckets (split_table rt left right) ! i)).
          place (split_table rt left right) c = i \<and> (nid c = localID rt \<longrightarrow> GetId c = GetId (rt_local rt)))"
proof -
  let ?n = "length (buckets rt)" and ?b = "last (buckets rt)" and ?rt' = "split_table rt left right"
  let ?spl = "\<lambda>c. SharedPrefixLength (localID rt) (nid c)"
  note [simp] = rt_inv_basic(2) [OF inv]
  have n: "0 < ?n" by simp
  have bl: "bucket_inv rt left" "depth left = ?n - 1" and br: "bucket_inv rt right" "depth right = ?n"
    and pl: "peers left = filter (\<lambda>c. ?spl c = ?n - 1) (peers ?b)" and pr: "peers right = filter (\<lambda>c. ?spl c \<noteq> ?n - 1) (peers ?b)"
    using h by (simp_all add: halves_def)
  consider "i < ?n - 1" | "i = ?n - 1" | "i = ?n" using i n by linarith
  then show ?thesis
  proof cases
    case 1
    then have ii: "i < ?n" by simp
    have "place ?rt' c = i" if "place rt c = i" for c
      using that 1 by (auto simp: place_split) (auto simp: place_def)
    then show ?thesis
      using 1 rt_inv_nth [OF inv ii] by (simp add: nth_split_table)
  next
    case 2
    then show ?thesis
      using bl pl rt_inv_last(4) [OF inv] n by (auto simp: nth_split_table place_split)
  next
    case 3
    then have b: "buckets ?rt' ! i = right" using n by (simp add: nth_split_table)
    have "place ?rt' c = i \<and> (nid c = localID rt \<longrightarrow> GetId c = GetId (rt_local rt))"
      if "c \<in> set (peers right)" for c
    proof -
      have c: "c \<in> set (peers ?b)" "?spl c \<noteq> ?n - 1" using that pr by simp_all
      then have "?n \<le> ?spl c" using rt_inv_last(3) [OF inv c(1)] n by linarith
      then show ?thesis using 3 rt_inv_last(4) [OF inv c(1)] by (simp add: place_split)
    qed
    then show ?thesis using b br 3 by simp
  qed
qed

lemma split_step:
  assumes inv: "rt_inv rt" and room: "length (buckets rt) < KeyBits"
  obtains left right where "bucket_Split rt (last (buckets rt)) = (left, Some right)"
    and "rt_inv (split_table rt left right)"
    and "table_peers (split_table rt left right) = table_peers rt"
proof -
  let ?n = "length (buckets rt)" and ?b = "last (buckets rt)"
  obtain left right where sp: "bucket_Split rt ?b = (left, Some right)" and h: "halves rt left right"
    using split_halves [OF inv] .
  let ?rt' = "split_table rt left right"
  have pl: "peers left = filter (\<lambda>c. SharedPrefixLength (localID rt) (nid c) = ?n - 1) (peers ?b)"
    and pr: "peers right = filter (\<lambda>c. SharedPrefixLength (localID rt) (nid c) \<noteq> ?n - 1) (peers ?b)"
    using h by (simp_all add: halves_def)
  have "containsContact right (rt_local rt)"
  proof -
    obtain x where x: "x \<in> set (peers ?b)" "GetId (rt_local rt) = GetId x"
      using rt_inv_basic(4) [OF inv] by (auto simp: containsContact_iff)
    then have "SharedPrefixLength (localID rt) (nid x) = 160" by (simp add: localID_def nid_def)
    then have "x \<in> set (peers right)" using x(1) pr room by auto
    then show ?thesis using x(2) by (simp add: containsContact_iff)
  qed
  then have "rt_inv ?rt'"
    unfolding rt_inv_def using split_table_buckets [OF inv h] rt_inv_basic(1,2) [OF inv] room
    by (simp add: length_split_table) (simp add: split_table_def)
  moreover have "table_peers ?rt' = table_peers rt"
  proof -
    obtain bs b where bs: "buckets rt = bs @ [b]"
      using rev_exhaust [of "buckets rt"] rt_inv_basic(2) [OF inv] by blast
    then have "set (peers left) \<union> set (peers right) = set (peers b)" using pl pr by auto
    then show ?thesis by (auto simp: table_peers_def split_table_def bs)
  qed
  ultimately show thesis using that sp by blast
qed

section \<open>Inserting keeps the invariant\<close>

definition insert_table :: "routing_table \<Rightarrow> cptr \<Rightarrow> routing_table" where
  "insert_table rt c = rt\<lparr>buckets := (buckets rt)[place rt c :=
     fst (bucket_Insert rt (buckets rt ! place rt c) c)]\<rparr>"

lemma insert_table_frame [simp]:
  "rt_k (insert_table rt c) = rt_k rt" "rt_local (insert_table rt c) = rt_local rt"
  "localID (insert_table rt c) = localID rt"
  "bucket_inv (insert_table rt c) = bucket_inv rt"
  "length (buckets (insert_table rt c)) = length (buckets rt)"
  "place (insert_table rt c) = place rt"
  by (simp_all add: insert_table_def fun_eq_iff place_def)

lemma nth_insert_table:
  "i < length (buckets rt) \<Longrightarrow> buckets (insert_table rt c) ! i =
     (if i = place rt c then fst (bucket_Insert rt (buckets rt ! i) c) else buckets rt ! i)"
  by (simp add: insert_table_def nth_list_update)

lemma insert_keeps_local:
  assumes inv: "rt_inv rt" and c: "nid c \<noteq> localID rt"
  shows "containsContact (fst (bucket_Insert rt (last (buckets rt)) c)) (rt_local rt)"
proof -
  let ?b = "last (buckets rt)" and ?b' = "fst (bucket_Insert rt (last (buckets rt)) c)"
  have dist: "distinct (map GetId (peers ?b))"
    using rt_inv_last(1) [OF inv] by (simp add: bucket_inv_def)
  obtain x where x: "x \<in> set (peers ?b)" "GetId x = GetId (rt_local rt)"
    using rt_inv_basic(4) [OF inv] by (auto simp: containsContact_iff)
  have nx: "nid x = localID rt" using x(2) by (simp add: nid_def localID_def)
  show ?thesis
  proof (cases "x \<in> set (peers ?b')")
    case True
    then show ?thesis using x(2) by (metis containsContact_iff imageI)
  next
    case False
    have "GetId x \<noteq> GetId c" using nx c by (auto simp: nid_def)
    then have y: "x \<in> insert c {y \<in> set (peers ?b). GetId y \<noteq> GetId c}" using x(1) by simp
    have "length (peers ?b') = rt_k rt" by (rule Insert_dropped(1) [OF dist y False])
    then obtain z where z: "z \<in> set (peers ?b')"
      using rt_inv_basic(1) [OF inv] by (metis length_greater_0_conv list.set_sel(1))
    have "dist (localID rt) z \<le> dist (localID rt) x"
      using Insert_dropped(2) [OF dist y False z] by (simp add: localID_nid)
    also have "dist (localID rt) x = 0" using nx by (simp add: dist_self_zero localID_nid)
    finally have nz: "nid z = localID rt" by (simp add: dist_self_zero localID_nid)
    then have "z \<in> set (peers ?b)" using Insert_subset [OF dist] z c by blast
    then have "GetId z = GetId (rt_local rt)" using rt_inv_last(4) [OF inv] nz by blast
    then show ?thesis using z by (metis containsContact_iff imageI)
  qed
qed

lemma insert_step:
  assumes inv: "rt_inv rt" and c: "nid c \<noteq> localID rt"
  shows "rt_inv (insert_table rt c)"
proof -
  let ?n = "length (buckets rt)" and ?rt' = "insert_table rt c"
  have ne: "buckets rt \<noteq> []" by (rule rt_inv_basic(2) [OF inv])
  have each: "bucket_inv rt (buckets ?rt' ! i) \<and> depth (buckets ?rt' ! i) = i
      \<and> (\<forall>x \<in> set (peers (buckets ?rt' ! i)).
            place rt x = i \<and> (nid x = localID rt \<longrightarrow> GetId x = GetId (rt_local rt)))"
    if i: "i < ?n" for i
  proof (cases "i = place rt c")
    case True
    have "distinct (map GetId (peers (buckets rt ! i)))"
      using rt_inv_nth(1) [OF inv i] by (simp add: bucket_inv_def)
    then have sub: "set (peers (buckets ?rt' ! i)) \<subseteq> insert c (set (peers (buckets rt ! i)))"
      using Insert_subset True i by (simp add: nth_insert_table)
    have "place rt x = i \<and> (nid x = localID rt \<longrightarrow> GetId x = GetId (rt_local rt))"
      if "x \<in> set (peers (buckets ?rt' ! i))" for x
    proof (cases "x = c")
      case False
      then have "x \<in> set (peers (buckets rt ! i))" using sub that by blast
      then show ?thesis using rt_inv_nth(3,4) [OF inv i] by blast
    qed (use True c in simp)
    then show ?thesis
      using True i rt_inv_nth(1,2) [OF inv i] by (simp add: nth_insert_table Insert_inv)
  next
    case False
    then have "buckets ?rt' ! i = buckets rt ! i" using i by (simp add: nth_insert_table)
    then show ?thesis using rt_inv_nth [OF inv i] by simp
  qed
  have "last (buckets ?rt') = buckets ?rt' ! (?n - 1)"
    using ne by (simp add: last_conv_nth insert_table_def)
  then have "containsContact (last (buckets ?rt')) (rt_local rt)"
    using ne insert_keeps_local [OF inv c] rt_inv_basic(4) [OF inv]
    by (simp add: nth_insert_table last_conv_nth split: if_splits)
  moreover have "buckets ?rt' \<noteq> []" using ne by (simp add: insert_table_def)
  ultimately show ?thesis
    unfolding rt_inv_def using each rt_inv_basic(1,3) [OF inv] by simp
qed

text \<open>What happens to the peers: \<open>c\<close> replaces every entry of its identifier, and a peer that
  does not survive was pushed out of \<open>c\<close>'s bucket by \<open>k\<close> peers at most as far.\<close>

definition updated_with :: "routing_table \<Rightarrow> routing_table \<Rightarrow> cptr \<Rightarrow> bool" where
  "updated_with rt rt' c \<longleftrightarrow>
     table_peers rt' \<subseteq> insert c {x \<in> table_peers rt. GetId x \<noteq> GetId c}
     \<and> (\<forall>y \<in> insert c {x \<in> table_peers rt. GetId x \<noteq> GetId c}. y \<notin> table_peers rt' \<longrightarrow>
           place rt' y = place rt' c
           \<and> length (peers (buckets rt' ! place rt' c)) = rt_k rt
           \<and> (\<forall>x \<in> set (peers (buckets rt' ! place rt' c)).
                 dist (localID rt) x \<le> dist (localID rt) y))"

lemma table_peers_nth: "x \<in> table_peers rt \<longleftrightarrow> (\<exists>i < length (buckets rt). x \<in> set (peers (buckets rt ! i)))"
proof
  assume "x \<in> table_peers rt"
  then obtain b where "b \<in> set (buckets rt)" "x \<in> set (peers b)" by (auto simp: table_peers_def)
  then show "\<exists>i < length (buckets rt). x \<in> set (peers (buckets rt ! i))"
    by (metis in_set_conv_nth)
qed (auto simp: table_peers_def)

lemma place_GetId: "GetId x = GetId c \<Longrightarrow> place rt x = place rt c"
  by (simp add: place_def nid_def)

lemma insert_table_effect:
  assumes inv: "rt_inv rt" and c: "nid c \<noteq> localID rt"
  shows "updated_with rt (insert_table rt c) c"
proof -
  let ?n = "length (buckets rt)" and ?rt' = "insert_table rt c" and ?p = "place rt c"
  let ?b = "buckets rt ! ?p" and ?b' = "fst (bucket_Insert rt (buckets rt ! ?p) c)"
  have p: "?p < ?n" using rt_inv_basic(2) [OF inv] by (rule place_less)
  have b': "buckets ?rt' ! ?p = ?b'" using p by (simp add: nth_insert_table)
  have dist: "distinct (map GetId (peers ?b))"
    using rt_inv_nth(1) [OF inv p] by (simp add: bucket_inv_def)
  have other: "x \<in> table_peers ?rt'" if "x \<in> set (peers (buckets rt ! i))" "i < ?n" "i \<noteq> ?p" for x i
    using that by (auto simp: table_peers_nth nth_insert_table intro!: exI [of _ i])
  have "x \<in> insert c {x \<in> table_peers rt. GetId x \<noteq> GetId c}"
    if xin: "x \<in> table_peers ?rt'" for x
  proof -
    obtain i where i: "i < ?n" "x \<in> set (peers (buckets ?rt' ! i))"
      using xin unfolding table_peers_nth insert_table_frame by blast
    show ?thesis
    proof (cases "i = ?p")
      case True
      then have "x \<in> set (insert_pool ?b c)"
        using i(2) b' peers_Insert [of rt ?b c] go_sort.top_subset by fastforce
      then show ?thesis using p by (auto simp: set_insert_pool [OF dist] table_peers_nth)
    next
      case False
      then have x: "x \<in> set (peers (buckets rt ! i))" using i by (simp add: nth_insert_table)
      then have "place rt x = i" using rt_inv_nth(3) [OF inv i(1)] by blast
      then have "GetId x \<noteq> GetId c" using False place_GetId by blast
      then show ?thesis using x i(1) by (auto simp: table_peers_nth)
    qed
  qed
  moreover have "place rt y = ?p \<and> length (peers ?b') = rt_k rt
      \<and> (\<forall>x \<in> set (peers ?b'). dist (localID rt) x \<le> dist (localID rt) y)"
    if y: "y \<in> insert c {x \<in> table_peers rt. GetId x \<noteq> GetId c}" and gone: "y \<notin> table_peers ?rt'" for y
  proof -
    have "y = c \<or> y \<in> set (peers ?b)"
      using y gone other by (auto simp: table_peers_nth)
    then have pool: "y \<in> insert c {x \<in> set (peers ?b). GetId x \<noteq> GetId c}" using y by auto
    have "y \<notin> set (peers ?b')" using gone p b' by (auto simp: table_peers_nth)
    then show ?thesis
      using Insert_dropped [OF dist pool] pool rt_inv_nth(3) [OF inv p]
      by (auto simp: localID_nid)
  qed
  ultimately show ?thesis unfolding updated_with_def using b' by auto
qed

section \<open>Update is total on well-formed tables\<close>

lemma rt_Update_step:
  assumes inv: "rt_inv rt" and c: "nid c \<noteq> localID rt"
  shows "rt_Update rt c = (insert_table rt c, Inr ())
    \<or> (\<exists>left right. rt_Update rt c = rt_Update (split_table rt left right) c
         \<and> rt_inv (split_table rt left right)
         \<and> table_peers (split_table rt left right) = table_peers rt
         \<and> length (buckets rt) < KeyBits)"
proof (cases "splits_on rt c")
  case True
  have ne: "buckets rt \<noteq> []" by (rule rt_inv_basic(2) [OF inv])
  have room: "length (buckets rt) < KeyBits"
    using True rt_inv_last(2) [OF inv] by (simp add: splits_on_def) linarith
  obtain left right where "bucket_Split rt (last (buckets rt)) = (left, Some right)"
    and "rt_inv (split_table rt left right)"
    and "table_peers (split_table rt left right) = table_peers rt"
    using split_step [OF inv room] by blast
  then show ?thesis
    using rt_Update_pass [OF ne c] True room by (auto simp: split_table_def)
next
  case False
  then show ?thesis
    using rt_Update_pass [OF rt_inv_basic(2) [OF inv] c] by (simp add: insert_table_def)
qed

lemma updated_with_cong:
  "table_peers rt = table_peers rt1 \<Longrightarrow> rt_k rt = rt_k rt1 \<Longrightarrow> localID rt = localID rt1
     \<Longrightarrow> updated_with rt1 rt' c \<Longrightarrow> updated_with rt rt' c"
  by (simp add: updated_with_def)

lemma rt_Update_total:
  assumes "rt_inv rt" and "nid c \<noteq> localID rt"
  shows "\<exists>rt'. rt_Update rt c = (rt', Inr ()) \<and> rt_inv rt' \<and> rt_local rt' = rt_local rt
     \<and> rt_k rt' = rt_k rt \<and> updated_with rt rt' c"
  using assms
proof (induction "KeyBits - length (buckets rt)" arbitrary: rt rule: less_induct)
  case less
  note inv = less.prems(1) and c = less.prems(2)
  from rt_Update_step [OF inv c] show ?case
  proof (elim disjE exE conjE)
    assume "rt_Update rt c = (insert_table rt c, Inr ())"
    then show ?thesis using insert_step [OF inv c] insert_table_effect [OF inv c] by auto
  next
    fix left right
    let ?rt1 = "split_table rt left right"
    assume eq: "rt_Update rt c = rt_Update ?rt1 c" and inv1: "rt_inv ?rt1"
      and tp: "table_peers ?rt1 = table_peers rt" and room: "length (buckets rt) < KeyBits"
    have "KeyBits - length (buckets ?rt1) < KeyBits - length (buckets rt)"
      using length_split_table [OF rt_inv_basic(2) [OF inv]] room by simp
    then obtain rt' where rt': "rt_Update ?rt1 c = (rt', Inr ())" "rt_inv rt'"
      "rt_local rt' = rt_local ?rt1" "rt_k rt' = rt_k ?rt1" "updated_with ?rt1 rt' c"
      using less.hyps inv1 c by (metis split_table_frame(3))
    then have "updated_with rt rt' c"
      using tp updated_with_cong [of rt ?rt1 rt' c] by simp
    then show ?thesis using eq rt' by auto
  qed
qed

section \<open>The constructor\<close>

definition empty_table :: "cptr \<Rightarrow> nat \<Rightarrow> int \<Rightarrow> routing_table" where
  "empty_table l k alpha = \<lparr>rt_local = l, rt_k = k, rt_alpha = alpha, buckets = []\<rparr>"

lemma rt_Update_first:
  "rt_Update (empty_table l k alpha) l =
     (empty_table l k alpha\<lparr>buckets := [updateFull (empty_table l k alpha)
        \<lparr>depth = 0, isFull = False, peers = take k [l]\<rparr>]\<rparr>, Inr ())"
  by (subst rt_Update.simps)
     (simp add: empty_table_def Let_def bucket_Insert_def newBucket_def sort_slice_def updateFull_def)

lemma NewRoutingTable_eq:
  "0 \<le> k \<Longrightarrow> NewRoutingTable l k alpha = Inr (fst (rt_Update (empty_table l (nat k) alpha) l))"
  by (simp add: NewRoutingTable_def empty_table_def)

lemma NewRoutingTable_inv:
  assumes "0 < k"
  obtains rt where "NewRoutingTable l k alpha = Inr rt" and "rt_inv rt"
    and "rt_local rt = l" and "rt_k rt = nat k" and "table_peers rt = {l}"
    and "length (buckets rt) = 1"
proof -
  obtain n where n: "nat k = Suc n" using assms by (metis gr0_implies_Suc zero_less_nat_eq)
  let ?rt = "fst (rt_Update (empty_table l (nat k) alpha) l)"
  have "rt_inv ?rt"
    unfolding rt_Update_first n
    by (simp add: rt_inv_def bucket_inv_def empty_table_def containsContact_iff place_def)
  moreover have "table_peers ?rt = {l}" and "rt_local ?rt = l" and "rt_k ?rt = nat k"
    and "length (buckets ?rt) = 1"
    unfolding rt_Update_first n by (simp_all add: table_peers_def empty_table_def)
  ultimately show thesis using that NewRoutingTable_eq [of k l alpha] assms by simp
qed

text \<open>With \<open>k = 0\<close> the local contact does not survive its own insertion, and no peer can be added.\<close>

lemma NewRoutingTable_k0:
  assumes "NewRoutingTable l 0 alpha = Inr rt" and "nid c \<noteq> nid l"
  shows "rt_Update rt c = (rt, Inl (Err NoSplit))"
proof -
  have rt: "rt = empty_table l 0 alpha\<lparr>buckets :=
      [updateFull (empty_table l 0 alpha) \<lparr>depth = 0, isFull = False, peers = []\<rparr>]\<rparr>"
    using assms(1) by (simp add: NewRoutingTable_eq rt_Update_first)
  have "nid c \<noteq> localID rt" using assms(2) by (simp add: rt empty_table_def localID_nid)
  then have pass: "rt_Update rt c = (if splits_on rt c then
        (case bucket_Split rt (last (buckets rt)) of
           (left, None) \<Rightarrow> (rt, Inl (Err NoSplit))
         | (left, Some right) \<Rightarrow>
             rt_Update (rt\<lparr>buckets := butlast (buckets rt) @ [left, right]\<rparr>) c)
      else (rt\<lparr>buckets := (buckets rt)[place rt c :=
              fst (bucket_Insert rt (buckets rt ! place rt c) c)]\<rparr>, Inr ()))"
    by (intro rt_Update_pass) (simp_all add: rt)
  have "splits_on rt c" by (simp add: rt splits_on_def place_def empty_table_def)
  moreover have "bucket_Split rt (last (buckets rt)) = (last (buckets rt), None)"
    by (rule Split_None) (simp add: rt containsContact_iff)
  ultimately show ?thesis using pass by simp
qed

section \<open>Removal\<close>

definition remove_table :: "routing_table \<Rightarrow> cptr \<Rightarrow> routing_table" where
  "remove_table rt c = rt\<lparr>buckets := (buckets rt)[place rt c :=
     fst (bucket_Remove rt (buckets rt ! place rt c) c)]\<rparr>"

lemma rt_Remove_eq:
  assumes "rt_inv rt"
  shows "rt_Remove rt c = (remove_table rt c, Inr ())"
proof -
  let ?n = "length (buckets rt)" and ?p = "SharedPrefixLength (localID rt) (nid c)"
  have n: "0 < ?n" "?n \<le> 160" using rt_inv_basic [OF assms] by simp_all
  have idx: "(if ?n \<le> min ?p 159 then ?n - 1 else min ?p 159) = place rt c"
    using n SharedPrefixLength_le [of "localID rt" "nid c"] by (auto simp: place_def)
  have lt: "\<not> ?n \<le> place rt c" using n by (simp add: place_def not_le min_less_iff_disj)
  show ?thesis
    unfolding rt_Remove_def Let_def nid_def [symmetric] KBucketIndex_eq idx if_not_P [OF lt]
      remove_table_def ..
qed

lemma remove_step:
  assumes inv: "rt_inv rt" and c: "nid c \<noteq> localID rt"
  shows "rt_inv (remove_table rt c)"
    and "table_peers (remove_table rt c) = {x \<in> table_peers rt. GetId x \<noteq> GetId c}"
proof -
  let ?n = "length (buckets rt)" and ?rt' = "remove_table rt c" and ?p = "place rt c"
  have ne: "buckets rt \<noteq> []" by (rule rt_inv_basic(2) [OF inv])
  then have p: "?p < ?n" by (rule place_less)
  have frame [simp]: "rt_k ?rt' = rt_k rt" "rt_local ?rt' = rt_local rt" "localID ?rt' = localID rt"
    "bucket_inv ?rt' = bucket_inv rt" "length (buckets ?rt') = ?n" "place ?rt' = place rt"
    by (simp_all add: remove_table_def fun_eq_iff place_def)
  have nth: "buckets ?rt' ! i =
      (if i = ?p then fst (bucket_Remove rt (buckets rt ! i) c) else buckets rt ! i)"
    if "i < ?n" for i using that by (simp add: remove_table_def nth_list_update)
  have dist: "distinct (map GetId (peers (buckets rt ! i)))" if "i < ?n" for i
    using rt_inv_nth(1) [OF inv that] by (simp add: bucket_inv_def)
  have set_nth: "set (peers (buckets ?rt' ! i)) = {x \<in> set (peers (buckets rt ! i)). GetId x \<noteq> GetId c}"
    if i: "i < ?n" for i
  proof (cases "i = ?p")
    case True
    then show ?thesis using i by (simp add: nth set_Remove [OF dist])
  next
    case False
    have "GetId x \<noteq> GetId c" if "x \<in> set (peers (buckets rt ! i))" for x
      using rt_inv_nth(3) [OF inv i that] False place_GetId by blast
    then show ?thesis using False i by (auto simp: nth)
  qed
  show "table_peers ?rt' = {x \<in> table_peers rt. GetId x \<noteq> GetId c}"
  proof (rule set_eqI)
    fix x
    have "x \<in> table_peers ?rt' \<longleftrightarrow> (\<exists>i<?n. x \<in> set (peers (buckets ?rt' ! i)))"
      by (simp add: table_peers_nth)
    also have "\<dots> \<longleftrightarrow> (\<exists>i<?n. x \<in> set (peers (buckets rt ! i)) \<and> GetId x \<noteq> GetId c)"
      using set_nth by blast
    finally show "x \<in> table_peers ?rt' \<longleftrightarrow> x \<in> {x \<in> table_peers rt. GetId x \<noteq> GetId c}"
      by (auto simp: table_peers_nth)
  qed
  have each: "bucket_inv rt (buckets ?rt' ! i) \<and> depth (buckets ?rt' ! i) = i
      \<and> (\<forall>x \<in> set (peers (buckets ?rt' ! i)).
            place rt x = i \<and> (nid x = localID rt \<longrightarrow> GetId x = GetId (rt_local rt)))"
    if i: "i < ?n" for i
  proof -
    have "set (peers (buckets ?rt' ! i)) \<subseteq> set (peers (buckets rt ! i))" using set_nth [OF i] by blast
    moreover have "bucket_inv rt (buckets ?rt' ! i) \<and> depth (buckets ?rt' ! i) = i"
      using rt_inv_nth(1,2) [OF inv i] by (auto simp: nth [OF i] Remove_inv)
    ultimately show ?thesis using rt_inv_nth(3,4) [OF inv i] by blast
  qed
  have "containsContact (last (buckets ?rt')) (rt_local rt)"
  proof -
    obtain x where x: "x \<in> set (peers (last (buckets rt)))" "GetId (rt_local rt) = GetId x"
      using rt_inv_basic(4) [OF inv] by (auto simp: containsContact_iff)
    have "GetId x \<noteq> GetId c" using x(2) c by (auto simp: nid_def localID_def)
    moreover have "?n - 1 < ?n" using ne by simp
    ultimately have "x \<in> set (peers (buckets ?rt' ! (?n - 1)))"
      using x(1) ne by (simp add: set_nth last_conv_nth)
    moreover have "buckets ?rt' ! (?n - 1) = last (buckets ?rt')"
      using ne by (simp add: last_conv_nth remove_table_def)
    ultimately show ?thesis using x(2) by (simp add: containsContact_iff)
  qed
  moreover have "buckets ?rt' \<noteq> []" using ne by (simp add: remove_table_def)
  ultimately show "rt_inv ?rt'"
    unfolding rt_inv_def using each rt_inv_basic(1,3) [OF inv] by simp
qed

section \<open>The closest peers\<close>

definition gathered :: "nodeid \<Rightarrow> nodeid \<Rightarrow> cptr list \<times> (nodeid \<rightharpoonup> nodeid) \<Rightarrow> bool" where
  "gathered local target acc \<longleftrightarrow>
     (\<forall>c \<in> set (fst acc). nid c \<noteq> local \<and> snd acc (nid c) = Some (XorDistance (nid c) target))
     \<and> dom (snd acc) = nid ` set (fst acc) \<and> distinct (map nid (fst acc))"

lemma gather_loop_correct:
  assumes "gathered local target acc"
  shows "gathered local target (gather_loop local target cs acc)
    \<and> set (fst (gather_loop local target cs acc)) \<subseteq> set (fst acc) \<union> set cs
    \<and> nid ` set (fst (gather_loop local target cs acc)) =
           nid ` set (fst acc) \<union> {n \<in> nid ` set cs. n \<noteq> local}"
  using assms
proof (induction local target cs acc rule: gather_loop.induct)
  case (2 local target c cs all distances)
  have known: "distances (nid c) \<noteq> None \<longleftrightarrow> nid c \<in> nid ` set all"
    using "2.prems" by (auto simp: gathered_def dom_def)
  let ?Q = "\<lambda>acc. gathered local target (gather_loop local target cs acc)
      \<and> set (fst (gather_loop local target cs acc)) \<subseteq> set (fst acc) \<union> set cs
      \<and> nid ` set (fst (gather_loop local target cs acc)) =
           nid ` set (fst acc) \<union> {n \<in> nid ` set cs. n \<noteq> local}"
  consider (self) "nid c = local" | (seen) "nid c \<noteq> local" "nid c \<in> nid ` set all"
    | (new) "nid c \<noteq> local" "nid c \<notin> nid ` set all" by blast
  then show ?case
  proof cases
    case self
    have "?Q (all, distances)"
      by (rule "2.IH"(1) [OF refl]) (use self "2.prems" in \<open>simp_all add: nid_def\<close>)
    moreover have "gather_loop local target (c # cs) (all, distances)
        = gather_loop local target cs (all, distances)"
      using self by (simp add: nid_def)
    ultimately show ?thesis using self by auto
  next
    case seen
    have "?Q (all, distances)"
      by (rule "2.IH"(2) [OF refl])
        (use seen known "2.prems" in \<open>simp_all add: nid_def\<close>)
    moreover have "gather_loop local target (c # cs) (all, distances)
        = gather_loop local target cs (all, distances)"
      using seen known by (auto simp: Let_def nid_def)
    ultimately show ?thesis using seen by auto
  next
    case new
    let ?acc = "(all @ [c], distances(nid c \<mapsto> XorDistance (nid c) target))"
    have "gathered local target ?acc"
      using new "2.prems" by (auto simp: gathered_def image_iff)
    then have "?Q ?acc"
      using "2.IH"(3) [OF refl] new known by (simp add: nid_def)
    moreover have "gather_loop local target (c # cs) (all, distances) = gather_loop local target cs ?acc"
      using new known by (auto simp: Let_def nid_def)
    ultimately show ?thesis using new by auto
  qed
qed auto

lemma ClosestK_correct:
  obtains res where "ClosestK rt t = Inr res"
    and "length res \<le> rt_k rt" and "set res \<subseteq> table_peers rt"
    and "distinct (map nid res)" and "sorted (map (dist t) res)"
    and "\<And>c. c \<in> set res \<Longrightarrow> nid c \<noteq> localID rt"
    and "\<And>x y. y \<in> table_peers rt \<Longrightarrow> nid y \<noteq> localID rt \<Longrightarrow> nid y \<notin> nid ` set res
           \<Longrightarrow> length res = rt_k rt \<and> (x \<in> set res \<longrightarrow> dist t x \<le> dist t y)"
proof -
  let ?cs = "concat (map peers (buckets rt))"
  obtain all m where g: "gather_loop (localID rt) t ?cs ([], Map.empty) = (all, m)"
    by fastforce
  have cs: "set ?cs = table_peers rt" by (auto simp: table_peers_def)
  have start: "gathered (localID rt) t ([], Map.empty)" by (simp add: gathered_def)
  have inv: "gathered (localID rt) t (all, m)" and sub: "set all \<subseteq> table_peers rt"
    and ids: "nid ` set all = {n \<in> nid ` table_peers rt. n \<noteq> localID rt}"
    using gather_loop_correct [OF start, of ?cs] by (simp_all only: g cs fst_conv) auto
  let ?lt = "\<lambda>x y. LessDistance (map_get m (SliceToNodeID (GetId x))) (map_get m (SliceToNodeID (GetId y)))"
  have lt: "?lt x y \<longleftrightarrow> dist t x < dist t y" if "x \<in> set all" "y \<in> set all" for x y
  proof -
    have "m (nid x) = Some (XorDistance (nid x) t)" "m (nid y) = Some (XorDistance (nid y) t)"
      using inv that by (auto simp: gathered_def)
    then show ?thesis
      by (simp add: map_get_def nid_def [symmetric] dist_def LessDistance_id_val)
  qed
  let ?res = "take (rt_k rt) (sort_slice ?lt all)"
  have eq: "ClosestK rt t = Inr ?res" by (simp add: ClosestK_def g Let_def)
  have res_sub: "set ?res \<subseteq> set all" by (rule shortlist_rules)
  show thesis
  proof (rule that [OF eq])
    show "length ?res \<le> rt_k rt" by simp
    show "set ?res \<subseteq> table_peers rt" using res_sub sub by blast
    have "distinct (map nid all)" using inv by (simp add: gathered_def)
    then show "distinct (map nid ?res)" by (intro distinct_map_take) (simp add: shortlist_rules)
    show "sorted (map (dist t) ?res)"
      by (intro sorted_map_take go_sort.srt_sorted) (rule lt)
    show "nid c \<noteq> localID rt" if "c \<in> set ?res" for c
      using that res_sub inv by (auto simp: gathered_def)
    show "length ?res = rt_k rt \<and> (x \<in> set ?res \<longrightarrow> dist t x \<le> dist t y)"
      if y: "y \<in> table_peers rt" "nid y \<noteq> localID rt" "nid y \<notin> nid ` set ?res" for x y
    proof -
      obtain z where z: "z \<in> set all" "nid z = nid y" using ids y(1,2) by (metis (mono_tags, lifting) image_iff mem_Collect_eq imageI)
      then have zr: "z \<notin> set ?res" using y(3) by (metis imageI)
      have "dist t z = dist t y" using z(2) by (simp add: dist_def)
      then show ?thesis
        using go_sort.top_dropped_full [OF z(1) zr] go_sort.top_closest [OF lt z(1) zr] by metis
    qed
  qed
qed

section \<open>Reachable tables\<close>

text \<open>
  The tables a node can hold: built with a positive \<open>k\<close>, then changed by \<open>Update\<close> for any
  contact and by \<open>Remove\<close> for any contact that is not the local one.
\<close>

inductive rt_reach :: "cptr \<Rightarrow> int \<Rightarrow> routing_table \<Rightarrow> bool" for l k where
  new: "0 < k \<Longrightarrow> NewRoutingTable l k alpha = Inr rt \<Longrightarrow> rt_reach l k rt"
| update: "rt_reach l k rt \<Longrightarrow> rt_reach l k (fst (rt_Update rt c))"
| remove: "rt_reach l k rt \<Longrightarrow> nid c \<noteq> nid l \<Longrightarrow> rt_reach l k (fst (rt_Remove rt c))"

lemma rt_Update_ok:
  assumes "rt_inv rt"
  obtains rt' where "rt_Update rt c = (rt', Inr ())" and "rt_inv rt'"
    and "rt_local rt' = rt_local rt" and "rt_k rt' = rt_k rt"
proof (cases "nid c = localID rt")
  case True
  then show thesis using that assms rt_Update_local rt_inv_basic(2) [OF assms] by blast
next
  case False
  then show thesis using that rt_Update_total [OF assms] by blast
qed

lemma remove_table_frame [simp]:
  "rt_local (remove_table rt c) = rt_local rt" "rt_k (remove_table rt c) = rt_k rt"
  by (simp_all add: remove_table_def)

lemma rt_reach_frame: "rt_reach l k rt \<Longrightarrow> rt_inv rt \<and> rt_local rt = l \<and> rt_k rt = nat k"
proof (induction rule: rt_reach.induct)
  case (new alpha rt)
  then show ?case by (metis NewRoutingTable_inv Inr_inject)
next
  case (update rt c)
  then show ?case by (metis rt_Update_ok fst_conv)
next
  case (remove rt c)
  then show ?case by (simp add: rt_Remove_eq remove_step(1) localID_nid)
qed

section \<open>Properties\<close>

text \<open>
  C4. Every reachable table is well formed: bucket \<open>i\<close> has depth \<open>i\<close> and holds at most \<open>k\<close>
  distinct peers, ordered by distance, each sharing exactly \<open>i\<close> bits with the local node (at
  least \<open>i\<close> in the last bucket); the full flag is exact; there are at most 160 buckets; and
  the local node is in the last one.
\<close>

theorem reachable_table_wf:
  assumes "rt_reach l k rt"
  shows "rt_inv rt"
  using rt_reach_frame [OF assms] by blast

theorem reachable_table_wf_witness:
  "\<exists>rt. NewRoutingTable (low_peer 0) 2 3 = Inr rt
     \<and> rt_inv (fst (rt_Update rt (low_peer 7)))"
proof -
  obtain rt where rt: "NewRoutingTable (low_peer 0) 2 3 = Inr rt"
    using NewRoutingTable_inv [of 2 "low_peer 0" 3] by auto
  have "rt_reach (low_peer 0) 2 (fst (rt_Update rt (low_peer 7)))"
    by (intro rt_reach.update rt_reach.new [OF _ rt]) simp
  then have "rt_inv (fst (rt_Update rt (low_peer 7)))" by (rule reachable_table_wf)
  then show ?thesis using rt by blast
qed

text \<open>
  C5. \<open>Update\<close> is total: on a well-formed table it terminates without error or panic, whatever
  the contact (a nil pointer and an identifier of the wrong length included), and the table it
  leaves is well formed and belongs to the same local node.
\<close>

theorem update_never_fails:
  assumes "rt_inv rt"
  shows "\<exists>rt'. rt_Update rt c = (rt', Inr ()) \<and> rt_inv rt' \<and> rt_local rt' = rt_local rt"
  using rt_Update_ok [OF assms] by metis

theorem update_never_fails_witness:
  "\<exists>rt rt'. NewRoutingTable (low_peer 0) 1 3 = Inr rt \<and> rt_Update rt None = (rt', Inr ())"
proof -
  obtain rt where rt: "NewRoutingTable (low_peer 0) 1 3 = Inr rt" "rt_inv rt"
    using NewRoutingTable_inv [of 1 "low_peer 0" 3] by auto
  then show ?thesis using update_never_fails [OF rt(2), of None] by blast
qed

text \<open>
  C6. What \<open>Update\<close> does to the peers: the contact replaces every entry that has its
  identifier, no other peer appears, and any peer missing afterwards (the contact itself
  included) was in the contact's bucket, which now holds \<open>k\<close> peers, all at most as far from
  the local node.
\<close>

theorem update_keeps_closest:
  assumes "rt_inv rt" and "nid c \<noteq> localID rt"
  shows "\<exists>rt'. rt_Update rt c = (rt', Inr ()) \<and> updated_with rt rt' c"
  using rt_Update_total [OF assms] by blast

theorem update_keeps_closest_witness:
  "\<exists>rt rt'. NewRoutingTable (low_peer 0) 2 3 = Inr rt
     \<and> rt_Update rt (low_peer 7) = (rt', Inr ()) \<and> updated_with rt rt' (low_peer 7)"
proof -
  obtain rt where rt: "NewRoutingTable (low_peer 0) 2 3 = Inr rt" "rt_inv rt" "rt_local rt = low_peer 0"
    using NewRoutingTable_inv [of 2 "low_peer 0" 3] by auto
  have "nid (low_peer 7) \<noteq> localID rt" using rt(3) by (simp add: localID_nid)
  then show ?thesis using update_keeps_closest [OF rt(2)] rt(1) by blast
qed

text \<open>
  \<open>Update\<close> of the local node's own identifier changes nothing once the table exists; this
  includes every contact whose identifier has the wrong length when the local identifier is zero.
\<close>

lemma update_local_noop:
  assumes "rt_inv rt" and "nid c = localID rt"
  shows "rt_Update rt c = (rt, Inr ())"
  using rt_Update_local [OF rt_inv_basic(2) [OF assms(1)] assms(2)] .

text \<open>
  C8. \<open>Remove\<close> of any contact but the local node succeeds, leaves a well-formed table, and
  removes exactly the peers that have the contact's identifier.
\<close>

theorem remove_exact:
  assumes "rt_inv rt" and "nid c \<noteq> localID rt"
  shows "\<exists>rt'. rt_Remove rt c = (rt', Inr ()) \<and> rt_inv rt'
     \<and> table_peers rt' = {x \<in> table_peers rt. GetId x \<noteq> GetId c}"
  using rt_Remove_eq [OF assms(1)] remove_step [OF assms] by blast

theorem remove_exact_witness:
  "\<exists>rt rt'. NewRoutingTable (low_peer 0) 2 3 = Inr rt \<and> rt_Remove rt (low_peer 7) = (rt', Inr ())
     \<and> table_peers rt' = {low_peer 0}"
proof -
  obtain rt where rt: "NewRoutingTable (low_peer 0) 2 3 = Inr rt" "rt_inv rt" "rt_local rt = low_peer 0"
    "table_peers rt = {low_peer 0}"
    using NewRoutingTable_inv [of 2 "low_peer 0" 3] by auto
  have "nid (low_peer 7) \<noteq> localID rt" using rt(3) by (simp add: localID_nid)
  then obtain rt' where "rt_Remove rt (low_peer 7) = (rt', Inr ())"
    "table_peers rt' = {x \<in> table_peers rt. GetId x \<noteq> GetId (low_peer 7)}"
    using remove_exact [OF rt(2)] by blast
  moreover have "{x \<in> {low_peer 0}. GetId x \<noteq> GetId (low_peer 7)} = {low_peer 0}" by auto
  ultimately show ?thesis using rt by auto
qed

text \<open>
  C7. \<open>ClosestK\<close> answers the \<open>k\<close> closest peers: never an error; at most \<open>k\<close> peers of the table,
  with pairwise different identifiers, none of them the local node, in strictly increasing
  distance to the target; and if a peer with a further identifier is left out, the answer has
  exactly \<open>k\<close> peers, all strictly closer to the target.
\<close>

theorem ClosestK_closest:
  assumes "is_nodeid t"
  shows "\<exists>res. ClosestK rt t = Inr res \<and> length res \<le> rt_k rt \<and> set res \<subseteq> table_peers rt
     \<and> sorted_wrt (<) (map (dist t) res)
     \<and> (\<forall>c \<in> set res. nid c \<noteq> localID rt)
     \<and> (\<forall>y \<in> table_peers rt. nid y \<noteq> localID rt \<longrightarrow> nid y \<notin> nid ` set res \<longrightarrow>
           length res = rt_k rt \<and> (\<forall>x \<in> set res. dist t x < dist t y))"
proof -
  have t: "length t = 20" using assms by (simp add: is_nodeid_def)
  obtain res where res: "ClosestK rt t = Inr res" "length res \<le> rt_k rt" "set res \<subseteq> table_peers rt"
    "distinct (map nid res)" "sorted (map (dist t) res)"
    and nl: "\<And>c. c \<in> set res \<Longrightarrow> nid c \<noteq> localID rt"
    and best: "\<And>x y. y \<in> table_peers rt \<Longrightarrow> nid y \<noteq> localID rt \<Longrightarrow> nid y \<notin> nid ` set res
        \<Longrightarrow> length res = rt_k rt \<and> (x \<in> set res \<longrightarrow> dist t x \<le> dist t y)"
    using ClosestK_correct [of rt t] by blast
  have "distinct (map (dist t) res)"
    using res(4) t by (auto simp: distinct_map inj_on_def dist_inj)
  then have "sorted_wrt (<) (map (dist t) res)" using res(5) by (simp add: strict_sorted_iff)
  moreover have "dist t x < dist t y"
    if "y \<in> table_peers rt" "nid y \<noteq> localID rt" "nid y \<notin> nid ` set res" "x \<in> set res" for x y
  proof -
    have "nid x \<noteq> nid y" using that(3,4) by (metis imageI)
    then have "dist t x \<noteq> dist t y" using t by (simp add: dist_inj)
    then show ?thesis using best [OF that(1-3), of x] that(4) by simp
  qed
  ultimately show ?thesis using res nl best by blast
qed

theorem ClosestK_closest_witness:
  "\<exists>rt res. NewRoutingTable (low_peer 0) 2 3 = Inr rt \<and> ClosestK rt zero_id = Inr res \<and> res = []"
proof -
  obtain rt where rt: "NewRoutingTable (low_peer 0) 2 3 = Inr rt" "rt_local rt = low_peer 0"
    "table_peers rt = {low_peer 0}"
    using NewRoutingTable_inv [of 2 "low_peer 0" 3] by auto
  obtain res where res: "ClosestK rt zero_id = Inr res" "set res \<subseteq> table_peers rt"
    "\<forall>c \<in> set res. nid c \<noteq> localID rt"
    using ClosestK_closest [of zero_id rt] by (auto simp: is_nodeid_def)
  have "nid (low_peer 0) = localID rt" using rt(2) by (simp only: localID_nid)
  then have "x \<notin> set res" for x using res(2,3) rt(3) by (metis singletonD subsetD)
  then have "set res = {}" by (intro equals0I) blast
  then show ?thesis using rt res by auto
qed

text \<open>
  Deeper buckets are closer: in a well-formed table every peer of bucket \<open>j\<close> is strictly
  closer to the local node than every peer of a bucket \<open>i < j\<close>, so the bucket list is ordered
  by distance as a whole.
\<close>

lemma deeper_buckets_closer:
  assumes "rt_inv rt" and "i < j" and "j < length (buckets rt)"
    and "x \<in> set (peers (buckets rt ! i))" and "y \<in> set (peers (buckets rt ! j))"
  shows "dist (localID rt) y < dist (localID rt) x"
proof -
  have "place rt x = i" and "place rt y = j"
    using rt_inv_nth(3) [OF assms(1)] assms(2-5) by auto
  then have "SharedPrefixLength (localID rt) (nid x) < SharedPrefixLength (localID rt) (nid y)"
    using assms(2,3) by (auto simp: place_def)
  then show ?thesis
    using longer_prefix_closer [of "localID rt" "nid x" "nid y"]
    by (simp add: dist_def XorDistance_commute [of _ "localID rt"])
qed

text \<open>A table of two buckets, as two updates leave it.\<close>

definition high_peer :: cptr where
  "high_peer = Some (NewContact 0 (0x80 # replicate 19 0) ''localhost'' ''6667'' ''6670'')"

definition two_buckets :: routing_table where
  "two_buckets = \<lparr>rt_local = low_peer 0, rt_k = 2, rt_alpha = 3,
     buckets = [\<lparr>depth = 0, isFull = False, peers = [high_peer]\<rparr>,
                \<lparr>depth = 1, isFull = False, peers = [low_peer 0]\<rparr>]\<rparr>"

lemma two_buckets_inv: "rt_inv two_buckets"
proof -
  have id: "GetId high_peer = 0x80 # replicate 19 0" "nid high_peer = 0x80 # replicate 19 0"
    by (simp_all add: high_peer_def NewContact_def nid_def SliceToNodeID_def)
  have spl: "SharedPrefixLength (0 # replicate 19 0) (0x80 # replicate 19 0) = 0" by code_simp
  show ?thesis
    by (simp add: rt_inv_def two_buckets_def bucket_inv_def place_def localID_nid id spl
        containsContact_iff less_Suc_eq numeral_2_eq_2 replicate_app_Cons_same)
qed

end
