(* ===== verification/RouterService.thy ===== *)
theory RouterService
  imports RoutingTable
begin

text \<open>
  The RPC methods of the routing service, \<open>network/routing/kademlia.go\<close>. The messages are
  those of \<open>api/services/router/router.proto\<close>; every method first notes the sender in the
  table and ignores the error \<open>Update\<close> may return (a panic it cannot ignore).
\<close>

record ping = ping_From :: cptr
  ping_Value :: bytes
record ack = ack_From :: cptr
  ack_Value :: bytes
record store_msg = store_From :: cptr
  store_Key :: bytes
  store_Value :: bytes
record delete_msg = delete_From :: cptr
  delete_Key :: bytes
record find_node = fn_From :: cptr
  fn_TargetId :: bytes
record find_value = fv_From :: cptr
  fv_Key :: bytes
record nodes = nodes_From :: cptr
  nodes_Nodes :: "cptr list"
record value_msg = value_From :: cptr
  value_Key :: bytes
  value_Value :: bytes
  value_Nodes :: "cptr list"
record refresh_msg = refresh_From :: cptr
  refresh_Key :: bytes

text \<open>\<open>s.Update(ctx, req.From)\<close> as a statement, followed by the rest of the method.\<close>

definition noting :: "routing_table \<Rightarrow> cptr
    \<Rightarrow> (routing_table \<Rightarrow> routing_table \<times> (rt_error, 'a) go) \<Rightarrow> routing_table \<times> (rt_error, 'a) go" where
  "noting rt from rest =
     (case rt_Update rt from of
        (rt', Inl (Panic p)) \<Rightarrow> (rt', Inl (Panic p))
      | (rt', Inl Blocked) \<Rightarrow> (rt', Inl Blocked)
      | (rt', _) \<Rightarrow> rest rt')"

definition rs_Ping :: "routing_table \<Rightarrow> ping \<Rightarrow> routing_table \<times> (rt_error, ack) go" where
  "rs_Ping s req = noting s (ping_From req)
     (\<lambda>s. (s, Inr \<lparr>ack_From = rt_local s, ack_Value = ping_Value req\<rparr>))"

definition rs_Store :: "routing_table \<Rightarrow> store_msg \<Rightarrow> routing_table \<times> (rt_error, ack) go" where
  "rs_Store s req = noting s (store_From req)
     (\<lambda>s. (s, Inr \<lparr>ack_From = rt_local s, ack_Value = store_Value req\<rparr>))"

definition rs_Delete :: "routing_table \<Rightarrow> delete_msg \<Rightarrow> routing_table \<times> (rt_error, ack) go" where
  "rs_Delete s req = noting s (delete_From req)
     (\<lambda>s. (s, Inr \<lparr>ack_From = rt_local s, ack_Value = []\<rparr>))"

definition rs_FindNode :: "routing_table \<Rightarrow> find_node \<Rightarrow> routing_table \<times> (rt_error, nodes) go" where
  "rs_FindNode s req = noting s (fn_From req)
     (\<lambda>s. case ClosestK s (SliceToNodeID (fn_TargetId req)) of
            Inl e \<Rightarrow> (s, Inl e)
          | Inr ns \<Rightarrow> (s, Inr \<lparr>nodes_From = rt_local s, nodes_Nodes = ns\<rparr>))"

definition rs_FindValue :: "routing_table \<Rightarrow> find_value \<Rightarrow> routing_table \<times> (rt_error, value_msg) go" where
  "rs_FindValue s req = noting s (fv_From req)
     (\<lambda>s. case ClosestK s (SliceToNodeID (fv_Key req)) of
            Inl e \<Rightarrow> (s, Inl e)
          | Inr ns \<Rightarrow> (s, Inr \<lparr>value_From = rt_local s, value_Key = fv_Key req,
                               value_Value = [], value_Nodes = ns\<rparr>))"

definition rs_Refresh :: "routing_table \<Rightarrow> refresh_msg \<Rightarrow> routing_table \<times> (rt_error, ack) go" where
  "rs_Refresh s req = noting s (refresh_From req)
     (\<lambda>s. (s, Inr \<lparr>ack_From = rt_local s, ack_Value = []\<rparr>))"

section \<open>The service as one machine\<close>

datatype request =
    ReqPing ping | ReqStore store_msg | ReqDelete delete_msg | ReqFindNode find_node
  | ReqFindValue find_value | ReqRefresh refresh_msg

datatype reply = RepAck ack | RepNodes nodes | RepValue value_msg

fun serve_request :: "routing_table \<Rightarrow> request \<Rightarrow> routing_table \<times> (rt_error, reply) go" where
  "serve_request s (ReqPing m) = apsnd (map_sum id RepAck) (rs_Ping s m)"
| "serve_request s (ReqStore m) = apsnd (map_sum id RepAck) (rs_Store s m)"
| "serve_request s (ReqDelete m) = apsnd (map_sum id RepAck) (rs_Delete s m)"
| "serve_request s (ReqFindNode m) = apsnd (map_sum id RepNodes) (rs_FindNode s m)"
| "serve_request s (ReqFindValue m) = apsnd (map_sum id RepValue) (rs_FindValue s m)"
| "serve_request s (ReqRefresh m) = apsnd (map_sum id RepAck) (rs_Refresh s m)"

fun request_from :: "request \<Rightarrow> cptr" where
  "request_from (ReqPing m) = ping_From m"
| "request_from (ReqStore m) = store_From m"
| "request_from (ReqDelete m) = delete_From m"
| "request_from (ReqFindNode m) = fn_From m"
| "request_from (ReqFindValue m) = fv_From m"
| "request_from (ReqRefresh m) = refresh_From m"

fun reply_from :: "reply \<Rightarrow> cptr" where
  "reply_from (RepAck m) = ack_From m"
| "reply_from (RepNodes m) = nodes_From m"
| "reply_from (RepValue m) = value_From m"

definition serve_all :: "routing_table \<Rightarrow> request list \<Rightarrow> routing_table" where
  "serve_all s reqs = fold (\<lambda>r s. fst (serve_request s r)) reqs s"

lemma noting_ok:
  "rt_Update rt c = (rt', Inr ()) \<Longrightarrow> noting rt c rest = rest rt'"
  by (simp add: noting_def)

lemma ClosestK_Inr: "\<exists>res. ClosestK rt t = Inr res"
  using ClosestK_correct [of rt t] by metis

lemma serve_request_ok:
  assumes "rt_Update s (request_from r) = (s', Inr ())"
  shows "\<exists>rep. serve_request s r = (s', Inr rep) \<and> reply_from rep = rt_local s'"
  using assms ClosestK_Inr [of s'] 
  by (cases r) (auto simp: rs_Ping_def rs_Store_def rs_Delete_def rs_Refresh_def rs_FindNode_def
      rs_FindValue_def noting_ok split: sum.splits; metis Inl_Inr_False)+

section \<open>Properties\<close>

text \<open>
  No request can break a node: whatever the requests and their senders (missing or with
  malformed identifiers included), after any sequence of them the table is well formed, and the
  next request gets a reply that carries the local contact.
\<close>

lemma service_robust:
  assumes "rt_inv s"
  shows "rt_inv (serve_all s reqs) \<and> rt_local (serve_all s reqs) = rt_local s
    \<and> (\<exists>s' rep. serve_request (serve_all s reqs) r = (s', Inr rep) \<and> rt_inv s'
          \<and> reply_from rep = rt_local s)"
proof -
  have run: "rt_inv (serve_all s reqs) \<and> rt_local (serve_all s reqs) = rt_local s"
    using assms
  proof (induction reqs arbitrary: s)
    case (Cons q qs)
    obtain s' where s': "rt_Update s (request_from q) = (s', Inr ())" "rt_inv s'" "rt_local s' = rt_local s"
      using rt_Update_ok [OF Cons.prems] by metis
    then have "fst (serve_request s q) = s'" using serve_request_ok by fastforce
    then show ?case using Cons.IH [OF s'(2)] s'(3) by (simp add: serve_all_def)
  qed (simp add: serve_all_def)
  then obtain s' where s': "rt_Update (serve_all s reqs) (request_from r) = (s', Inr ())" "rt_inv s'"
    "rt_local s' = rt_local (serve_all s reqs)"
    using rt_Update_ok by metis
  then obtain rep where "serve_request (serve_all s reqs) r = (s', Inr rep)" "reply_from rep = rt_local s'"
    using serve_request_ok by blast
  then show ?thesis using run s' by simp
qed

text \<open>
  \<open>FindNode\<close> answers with the \<open>k\<close> closest peers of the table that already includes the
  sender, and \<open>Ping\<close> echoes the value it was sent, both under the local contact.
\<close>

lemma FindNode_Ping_reply:
  assumes "rt_inv s"
  shows "(\<exists>s' ns. rs_FindNode s fm = (s', Inr \<lparr>nodes_From = rt_local s, nodes_Nodes = ns\<rparr>)
      \<and> rt_Update s (fn_From fm) = (s', Inr ())
      \<and> ClosestK s' (SliceToNodeID (fn_TargetId fm)) = Inr ns)
    \<and> (\<exists>s'. rs_Ping s pm = (s', Inr \<lparr>ack_From = rt_local s, ack_Value = ping_Value pm\<rparr>))"
proof (rule conjI)
  obtain s' where s': "rt_Update s (fn_From fm) = (s', Inr ())" "rt_local s' = rt_local s"
    using rt_Update_ok [OF assms] by metis
  then show "\<exists>s' ns. rs_FindNode s fm = (s', Inr \<lparr>nodes_From = rt_local s, nodes_Nodes = ns\<rparr>)
      \<and> rt_Update s (fn_From fm) = (s', Inr ())
      \<and> ClosestK s' (SliceToNodeID (fn_TargetId fm)) = Inr ns"
    using ClosestK_Inr [of s' "SliceToNodeID (fn_TargetId fm)"] by (auto simp: rs_FindNode_def noting_ok)
  obtain p' where "rt_Update s (ping_From pm) = (p', Inr ())" "rt_local p' = rt_local s"
    using rt_Update_ok [OF assms] by metis
  then show "\<exists>s'. rs_Ping s pm = (s', Inr \<lparr>ack_From = rt_local s, ack_Value = ping_Value pm\<rparr>)"
    by (simp add: rs_Ping_def noting_ok)
qed

end
