(* ===== verification/Transport.thy ===== *)
theory Transport
  imports Contact
begin

text \<open>
  \<open>network/transport\<close>: the RPC envelope (\<open>api.RPC\<close>), packets and the UDP server. The protobuf
  codec is third-party code: the record \<open>codec\<close> is a parameter, \<open>None\<close> standing for its errors.
  Address resolution, \<open>ListenUDP\<close> and \<open>WriteToUDP\<close> are parameters as well. The receive loop is a
  function of the sequence of results its reads get.
\<close>

record rpc =
  rpc_Service :: string
  rpc_Method :: string
  rpc_Sender :: cptr
  rpc_Payload :: bytes

record codec =
  pb_marshal_RPC :: "rpc \<Rightarrow> bytes option"
  pb_unmarshal_RPC :: "bytes \<Rightarrow> rpc option"

datatype transport_error =
    ResolveFailed string
  | ListenFailed string
  | MarshalFailed
  | WriteFailed

text \<open>A packet's \<open>Reply\<close> answers with the datagram it wrote: the peer's address and the bytes.\<close>

record packet =
  p_RPC :: rpc
  p_Sender :: cptr
  p_Network :: string
  p_Reply :: "rpc \<Rightarrow> (transport_error, string \<times> bytes) go"

record udp_server =
  us_address :: string
  us_open :: bool
  us_cancel :: "bool option" \<comment> \<open>\<open>None\<close>: not started; otherwise whether \<open>ctx\<close> was cancelled\<close>

definition NewUDPServer :: "(string \<Rightarrow> string option) \<Rightarrow> (string \<Rightarrow> bool) \<Rightarrow> string \<Rightarrow> string
    \<Rightarrow> (transport_error, udp_server) go" where
  "NewUDPServer resolve listens addr port =
     (case resolve (addr @ '':'' @ port) of
        None \<Rightarrow> Inl (Err (ResolveFailed (addr @ '':'' @ port)))
      | Some a \<Rightarrow>
          if listens a then Inr \<lparr>us_address = a, us_open = True, us_cancel = None\<rparr>
          else Inl (Err (ListenFailed a)))"

definition udp_Start :: "udp_server \<Rightarrow> udp_server" where
  "udp_Start u = u\<lparr>us_cancel := Some False\<rparr>"

text \<open>\<open>Stop\<close> calls the cancel function, which is nil before \<open>Start\<close>.\<close>

definition udp_Stop :: "udp_server \<Rightarrow> (transport_error, udp_server) go" where
  "udp_Stop u =
     (case us_cancel u of
        None \<Rightarrow> Inl (Panic NilDereference)
      | Some _ \<Rightarrow> Inr (u\<lparr>us_cancel := Some True, us_open := False\<rparr>))"

section \<open>The receive loop\<close>

text \<open>
  What a turn of the loop can meet: the context cancelled at its head, a failed read (with
  whether the context is cancelled by then), or a datagram from a peer.
\<close>

datatype udp_event = Cancelled | ReadError bool | Datagram string bytes

datatype udp_turn = Exit | Continue | Push packet | Crash go_panic

definition recv_buffer :: nat where "recv_buffer = 64 * 1024"

definition replyFn :: "'z codec_scheme \<Rightarrow> (string \<Rightarrow> bytes \<Rightarrow> bool) \<Rightarrow> string \<Rightarrow> rpc
    \<Rightarrow> (transport_error, string \<times> bytes) go" where
  "replyFn cd writes peer res =
     (case pb_marshal_RPC cd res of
        None \<Rightarrow> Inl (Err MarshalFailed)
      | Some out \<Rightarrow>
          (case rpc_Sender res of
             None \<Rightarrow> Inl (Panic NilDereference)
           | Some _ \<Rightarrow> if writes peer out then Inr (peer, out) else Inl (Err WriteFailed)))"

definition udp_turn :: "'z codec_scheme \<Rightarrow> (string \<Rightarrow> bytes \<Rightarrow> bool) \<Rightarrow> udp_event \<Rightarrow> udp_turn" where
  "udp_turn cd writes ev =
     (case ev of
        Cancelled \<Rightarrow> Exit
      | ReadError done \<Rightarrow> if done then Exit else Continue
      | Datagram peer raw \<Rightarrow>
          (case pb_unmarshal_RPC cd (take recv_buffer raw) of
             None \<Rightarrow> Continue
           | Some r \<Rightarrow>
               (case (GetUDPAddress (rpc_Sender r) :: (transport_error, string) go) of
                  Inl (Panic p) \<Rightarrow> Crash p
                | Inl _ \<Rightarrow> Continue
                | Inr _ \<Rightarrow> Push \<lparr>p_RPC = r, p_Sender = rpc_Sender r, p_Network = ''udp'',
                                p_Reply = replyFn cd writes peer\<rparr>)))"

text \<open>
  The loop: the packets it pushes on the channel, and how it ended (\<open>None\<close>: still reading). A push on
  a channel that \<open>Shutdown\<close> has closed panics.
\<close>

datatype udp_end = Returned | Crashed go_panic

fun udp_loop :: "'z codec_scheme \<Rightarrow> (string \<Rightarrow> bytes \<Rightarrow> bool) \<Rightarrow> udp_event list
    \<Rightarrow> packet list \<times> udp_end option" where
  "udp_loop cd writes [] = ([], None)"
| "udp_loop cd writes (ev # evs) =
     (case udp_turn cd writes ev of
        Exit \<Rightarrow> ([], Some Returned)
      | Crash p \<Rightarrow> ([], Some (Crashed p))
      | Continue \<Rightarrow> udp_loop cd writes evs
      | Push pkt \<Rightarrow> apfst (Cons pkt) (udp_loop cd writes evs))"

section \<open>Lemmas\<close>

text \<open>The envelope a datagram carries, and the events that neither end nor break the loop.\<close>

definition envelope :: "'z codec_scheme \<Rightarrow> udp_event \<Rightarrow> rpc option" where
  "envelope cd ev =
     (case ev of Datagram peer raw \<Rightarrow> pb_unmarshal_RPC cd (take recv_buffer raw) | _ \<Rightarrow> None)"

definition harmless :: "'z codec_scheme \<Rightarrow> udp_event \<Rightarrow> bool" where
  "harmless cd ev \<longleftrightarrow>
     (case ev of Cancelled \<Rightarrow> False | ReadError done \<Rightarrow> \<not> done
      | Datagram peer raw \<Rightarrow>
          (case envelope cd ev of None \<Rightarrow> True | Some r \<Rightarrow> rpc_Sender r \<noteq> None))"

lemma udp_turn_harmless:
  assumes "harmless cd ev"
  shows "(envelope cd ev = None \<and> udp_turn cd writes ev = Continue)
    \<or> (\<exists>r pkt. envelope cd ev = Some r \<and> udp_turn cd writes ev = Push pkt
          \<and> p_RPC pkt = r \<and> p_Sender pkt = rpc_Sender r \<and> p_Sender pkt \<noteq> None)"
  using assms
  by (auto simp: harmless_def envelope_def udp_turn_def GetUDPAddress_def
      split: udp_event.splits option.splits)

lemma udp_turn_no_sender:
  assumes "envelope cd ev = Some r" and "rpc_Sender r = None"
  shows "udp_turn cd writes ev = Crash NilDereference"
  using assms by (auto simp: envelope_def udp_turn_def GetUDPAddress_def split: udp_event.splits)

lemma udp_loop_harmless:
  "\<forall>ev\<in>set evs. harmless cd ev \<Longrightarrow>
     map p_RPC (fst (udp_loop cd writes evs)) = List.map_filter (envelope cd) evs
     \<and> (\<forall>pkt\<in>set (fst (udp_loop cd writes evs)). p_Sender pkt = rpc_Sender (p_RPC pkt))
     \<and> snd (udp_loop cd writes evs) = None"
proof (induction evs)
  case (Cons ev evs)
  then have "harmless cd ev" by simp
  then show ?case
    using udp_turn_harmless [of cd ev writes] Cons by (auto simp: List.map_filter_def)
qed (simp add: List.map_filter_def)

lemma udp_loop_append:
  "\<forall>ev\<in>set evs. harmless cd ev \<Longrightarrow>
     udp_loop cd writes (evs @ evs') = apfst (append (fst (udp_loop cd writes evs))) (udp_loop cd writes evs')"
proof (induction evs)
  case (Cons ev evs)
  then show ?case using udp_turn_harmless [of cd ev writes] by (auto simp: apfst_def map_prod_def split_beta)
qed (simp add: apfst_def map_prod_def)

section \<open>Properties\<close>

text \<open>
  C17. The receive loop delivers exactly the envelopes it can decode, in the order of arrival, each
  with the sender its envelope names, as long as every decoded envelope has a sender; the first one
  that has none (an empty datagram decodes to such an envelope in protobuf) ends the process by a
  nil dereference, whatever follows it.
\<close>

theorem udp_loop_delivers:
  assumes "\<forall>ev\<in>set evs. harmless cd ev"
    and "envelope cd bad = Some r" and "rpc_Sender r = None"
  shows "map p_RPC (fst (udp_loop cd writes (evs @ bad # rest))) = List.map_filter (envelope cd) evs
    \<and> (\<forall>pkt\<in>set (fst (udp_loop cd writes evs)). p_Sender pkt = rpc_Sender (p_RPC pkt))
    \<and> snd (udp_loop cd writes evs) = None
    \<and> snd (udp_loop cd writes (evs @ bad # rest)) = Some (Crashed NilDereference)"
  using udp_loop_harmless [OF assms(1), of writes] udp_loop_append [OF assms(1), of writes "bad # rest"]
    udp_turn_no_sender [OF assms(2,3), of writes]
  by (simp add: apfst_def map_prod_def)

text \<open>A codec for the concrete instances: byte 0 decides whether there is a sender.\<close>

definition toy_codec :: codec where
  "toy_codec = \<lparr>pb_marshal_RPC = (\<lambda>r. Some (rpc_Payload r)),
     pb_unmarshal_RPC = (\<lambda>b. Some \<lparr>rpc_Service = ''s'', rpc_Method = ''m'',
        rpc_Sender = (if b = [] then None else Some (NewContact 0 b ''a'' ''1'' ''2'')), rpc_Payload = b\<rparr>)\<rparr>"

theorem udp_loop_delivers_witness:
  "snd (udp_loop toy_codec (\<lambda>_ _. True) [Datagram ''p'' [1], Datagram ''p'' []]) = Some (Crashed NilDereference)"
  using udp_loop_delivers [of "[Datagram ''p'' [1]]" toy_codec "Datagram ''p'' []" _ "\<lambda>_ _. True" "[]"]
  by (simp add: harmless_def envelope_def toy_codec_def recv_buffer_def)

end
