(* ===== verification/Config.thy ===== *)
theory Config
  imports Keyspace
begin

text \<open>
  \<open>config/config.go\<close>: the settings of a node, their defaults, and \<open>Load\<close>. The file system and
  the environment are arguments of \<open>Load\<close>; the third-party TOML decoder is the argument
  \<open>decode\<close>, which overwrites the fields its file sets and answers \<open>None\<close> for its errors;
  \<open>time.ParseDuration\<close> is the argument \<open>parse_duration\<close> (nanoseconds, \<open>None\<close> for an error).
\<close>

record config =
  cf_NodeID :: string
  cf_Username :: string
  cf_Address :: string
  cf_K :: int
  cf_Alpha :: int
  cf_TCPPort :: int
  cf_UDPPort :: int
  cf_BootstrapPeers :: "string list"
  cf_Timeout :: int
  cf_Refresh :: int
  cf_AppLocks :: "(string \<times> string) list"
  cf_Storage :: string

datatype config_error = ParseConfig string

text \<open>\<open>strconv.Atoi\<close>: an optional sign and decimal digits, within 64 bits.\<close>

definition digit_value :: "char \<Rightarrow> int option" where
  "digit_value c = (let n = of_char c :: int in if 48 \<le> n \<and> n \<le> 57 then Some (n - 48) else None)"

fun digits_value :: "int \<Rightarrow> string \<Rightarrow> int option" where
  "digits_value acc [] = Some acc"
| "digits_value acc (c # cs) =
     (case digit_value c of None \<Rightarrow> None | Some d \<Rightarrow> digits_value (10 * acc + d) cs)"

definition Atoi :: "string \<Rightarrow> int option" where
  "Atoi s =
     (let (sign, ds) = (case s of
            [] \<Rightarrow> (1, [])
          | c # cs \<Rightarrow> if c = CHR ''-'' then (-1, cs) else if c = CHR ''+'' then (1, cs) else (1, s))
      in if ds = [] then None
         else case digits_value 0 ds of
           None \<Rightarrow> None
         | Some v \<Rightarrow>
             let r = sign * v in if - (2 ^ 63) \<le> r \<and> r < 2 ^ 63 then Some r else None)"

text \<open>\<open>strings.Split (s, ",")\<close>: never empty, one piece more than there are separators.\<close>

fun split_on :: "char \<Rightarrow> string \<Rightarrow> string list" where
  "split_on c [] = [[]]"
| "split_on c (x # xs) =
     (case split_on c xs of
        [] \<Rightarrow> [[x]]
      | p # ps \<Rightarrow> if x = c then [] # p # ps else (x # p) # ps)"

text \<open>\<open>GetOutboundIP\<close>: the local address of a UDP socket connected to a public server, if it can be opened.\<close>

definition GetOutboundIP :: "string option \<Rightarrow> string" where
  "GetOutboundIP dialled = (case dialled of None \<Rightarrow> ''127.0.0.1'' | Some localAddr \<Rightarrow> localAddr)"

definition default_config :: "nodeid \<Rightarrow> string \<Rightarrow> config" where
  "default_config ident outbound =
     \<lparr>cf_NodeID = NodeID_String ident, cf_Username = ''dirtpig'', cf_Address = outbound,
      cf_K = 10, cf_Alpha = 3, cf_TCPPort = 0, cf_UDPPort = 6669, cf_BootstrapPeers = [],
      cf_Timeout = 5 * 10 ^ 9, cf_Refresh = 30 * 10 ^ 9, cf_AppLocks = [],
      cf_Storage = ''storage/''\<rparr>"

text \<open>The overrides, each applied when its variable is set, not empty and (for numbers) valid.\<close>

definition override_string :: "string \<Rightarrow> (string \<Rightarrow> config \<Rightarrow> config) \<Rightarrow> config \<Rightarrow> config" where
  "override_string v upd cfg = (if v \<noteq> '''' then upd v cfg else cfg)"

definition override_parsed :: "(string \<Rightarrow> int option) \<Rightarrow> string \<Rightarrow> (int \<Rightarrow> config \<Rightarrow> config) \<Rightarrow> config \<Rightarrow> config" where
  "override_parsed parse v upd cfg =
     (if v \<noteq> '''' then (case parse v of None \<Rightarrow> cfg | Some p \<Rightarrow> upd p cfg) else cfg)"

definition env_overrides :: "(string \<Rightarrow> int option) \<Rightarrow> (string \<Rightarrow> string) \<Rightarrow> config \<Rightarrow> config" where
  "env_overrides parse_duration env cfg =
     (let cfg = override_string (env ''NODE_ID'') (\<lambda>v. cf_NodeID_update (\<lambda>_. v)) cfg;
          cfg = override_string (env ''ADDRESS'') (\<lambda>v. cf_Address_update (\<lambda>_. v)) cfg;
          cfg = override_string (env ''NODE_USER'') (\<lambda>v. cf_Username_update (\<lambda>_. v)) cfg;
          cfg = override_parsed Atoi (env ''TCP_PORT'') (\<lambda>p. cf_TCPPort_update (\<lambda>_. p)) cfg;
          cfg = override_parsed Atoi (env ''UDP_PORT'') (\<lambda>p. cf_UDPPort_update (\<lambda>_. p)) cfg;
          cfg = override_string (env ''BOOTSTRAP_PEERS'')
                  (\<lambda>v. cf_BootstrapPeers_update (\<lambda>_. split_on (CHR '','') v)) cfg;
          cfg = override_parsed parse_duration (env ''TIMEOUT'') (\<lambda>d. cf_Timeout_update (\<lambda>_. d)) cfg
      in cfg)"

definition config_candidates :: "string list" where
  "config_candidates = [''config.toml'', ''config/config.toml'', ''../config/config.toml'']"

text \<open>
  \<open>is_file\<close> is \<open>os.Stat\<close> answering a non-directory. With an empty path the first candidate that
  is a file is decoded and the function returns before the environment is read.
\<close>

definition Load :: "nodeid \<Rightarrow> string \<Rightarrow> (string \<Rightarrow> bool) \<Rightarrow> (string \<Rightarrow> config \<Rightarrow> config option)
    \<Rightarrow> (string \<Rightarrow> int option) \<Rightarrow> (string \<Rightarrow> string) \<Rightarrow> string \<Rightarrow> (config_error, config) go" where
  "Load ident outbound is_file decode parse_duration env path =
     (let cfg = default_config ident outbound in
      if path = '''' then
        let path = (case find is_file config_candidates of None \<Rightarrow> '''' | Some cand \<Rightarrow> cand) in
        (case decode path cfg of
           None \<Rightarrow> Inl (Err (ParseConfig path))
         | Some cfg' \<Rightarrow> Inr cfg')
      else
        (case decode path cfg of
           None \<Rightarrow> Inl (Err (ParseConfig path))
         | Some cfg' \<Rightarrow> Inr (env_overrides parse_duration env cfg')))"

section \<open>Lemmas\<close>

lemma split_on_ne: "split_on c s \<noteq> []"
  by (induction s) (auto split: list.splits)

lemma split_on_join: "concat (map (\<lambda>p. p @ [c]) (split_on c s)) = s @ [c]"
proof (induction s)
  case (Cons x xs)
  then show ?case using split_on_ne [of c xs] by (auto split: list.splits)
qed simp

lemma split_on_pieces: "p \<in> set (split_on c s) \<Longrightarrow> c \<notin> set p"
proof (induction s arbitrary: p)
  case (Cons x xs)
  then show ?case using split_on_ne [of c xs] by (fastforce split: list.splits if_splits)
qed simp

lemma override_string_fields:
  "override_string v (\<lambda>v. cf_NodeID_update (\<lambda>_. v)) cfg = cf_NodeID_update (\<lambda>x. if v = '''' then x else v) cfg"
  "override_string v (\<lambda>v. cf_Address_update (\<lambda>_. v)) cfg = cf_Address_update (\<lambda>x. if v = '''' then x else v) cfg"
  "override_string v (\<lambda>v. cf_Username_update (\<lambda>_. v)) cfg = cf_Username_update (\<lambda>x. if v = '''' then x else v) cfg"
  "override_string v (\<lambda>v. cf_BootstrapPeers_update (\<lambda>_. split_on c v)) cfg
     = cf_BootstrapPeers_update (\<lambda>x. if v = '''' then x else split_on c v) cfg"
  by (simp_all add: override_string_def)

definition parsed_or :: "(string \<Rightarrow> int option) \<Rightarrow> string \<Rightarrow> int \<Rightarrow> int" where
  "parsed_or parse v x = (if v = '''' then x else case parse v of None \<Rightarrow> x | Some p \<Rightarrow> p)"

lemma override_parsed_fields:
  "override_parsed parse v (\<lambda>p. cf_TCPPort_update (\<lambda>_. p)) cfg = cf_TCPPort_update (parsed_or parse v) cfg"
  "override_parsed parse v (\<lambda>p. cf_UDPPort_update (\<lambda>_. p)) cfg = cf_UDPPort_update (parsed_or parse v) cfg"
  "override_parsed parse v (\<lambda>p. cf_Timeout_update (\<lambda>_. p)) cfg = cf_Timeout_update (parsed_or parse v) cfg"
  by (cases "parse v"; simp add: override_parsed_def parsed_or_def)+

lemma env_overrides_fields:
  "env_overrides pd env cfg =
     \<lparr>cf_NodeID = (if env ''NODE_ID'' = '''' then cf_NodeID cfg else env ''NODE_ID''),
      cf_Username = (if env ''NODE_USER'' = '''' then cf_Username cfg else env ''NODE_USER''),
      cf_Address = (if env ''ADDRESS'' = '''' then cf_Address cfg else env ''ADDRESS''),
      cf_K = cf_K cfg, cf_Alpha = cf_Alpha cfg,
      cf_TCPPort = parsed_or Atoi (env ''TCP_PORT'') (cf_TCPPort cfg),
      cf_UDPPort = parsed_or Atoi (env ''UDP_PORT'') (cf_UDPPort cfg),
      cf_BootstrapPeers = (if env ''BOOTSTRAP_PEERS'' = '''' then cf_BootstrapPeers cfg
                           else split_on (CHR '','') (env ''BOOTSTRAP_PEERS'')),
      cf_Timeout = parsed_or pd (env ''TIMEOUT'') (cf_Timeout cfg),
      cf_Refresh = cf_Refresh cfg, cf_AppLocks = cf_AppLocks cfg, cf_Storage = cf_Storage cfg\<rparr>"
  by (simp add: env_overrides_def Let_def override_string_fields override_parsed_fields)

section \<open>Properties\<close>

text \<open>
  Precedence of the settings: with a path given, a variable of the environment that is set
  (and parses, for the ports and the timeout) decides its field and an unset one leaves the
  file's value, the remaining fields being the file's; the bootstrap list is the comma-separated
  pieces of its variable, none of which contains a comma. Without a path the environment has no
  influence at all on the result.
\<close>

lemma Load_precedence:
  assumes "decode p (default_config ident outbound) = Some cfg" and "p \<noteq> ''''"
  shows "\<exists>c. Load ident outbound is_file decode pd env p = Inr c
      \<and> cf_NodeID c = (if env ''NODE_ID'' = '''' then cf_NodeID cfg else env ''NODE_ID'')
      \<and> cf_UDPPort c = parsed_or Atoi (env ''UDP_PORT'') (cf_UDPPort cfg)
      \<and> cf_Timeout c = parsed_or pd (env ''TIMEOUT'') (cf_Timeout cfg)
      \<and> (env ''BOOTSTRAP_PEERS'' = '''' \<or> (\<forall>b\<in>set (cf_BootstrapPeers c). CHR '','' \<notin> set b))
      \<and> cf_K c = cf_K cfg \<and> cf_AppLocks c = cf_AppLocks cfg \<and> cf_Storage c = cf_Storage cfg
      \<and> Load ident outbound is_file decode pd env '''' = Load ident outbound is_file decode pd env' ''''"
  using assms by (simp add: Load_def env_overrides_fields split_on_pieces)

end
