(* ===== verification/Manager.thy ===== *)
theory Manager
  imports RouterService Transport Config
begin

text \<open>
  The network manager, \<open>network/manager.go\<close> (all but \<open>Lookup\<close>) and \<open>network/dispatch.go\<close>: the
  counters, the app locks, the registry of handlers and how a service is entered into it, the
  dispatch of a request, and what serving one packet does. A handler acts on the part of the
  manager its closure captures, the record \<open>shared\<close>: the routing table and the counters. What a
  goroutine of \<open>serve\<close> does with its packet when no other interferes is one function here; \<open>Serving\<close> lets them interleave.
\<close>

section \<open>State\<close>

record netlog =
  nl_Packets :: "64 word"
  nl_Connections :: "64 word"
  nl_Peers :: "64 word"
  nl_Services :: "64 word"
  nl_Errs :: "64 word"
  nl_logging :: bool

definition NewNetLog :: "bool \<Rightarrow> netlog" where
  "NewNetLog logging = \<lparr>nl_Packets = 0, nl_Connections = 0, nl_Peers = 0, nl_Services = 0,
     nl_Errs = 0, nl_logging = logging\<rparr>"

record shared =
  nm_router :: routing_table
  nm_log :: netlog

definition count_packet :: "'z shared_scheme \<Rightarrow> 'z shared_scheme" where
  "count_packet s = s\<lparr>nm_log := (nm_log s)\<lparr>nl_Packets := nl_Packets (nm_log s) + 1\<rparr>\<rparr>"

definition count_service :: "'z shared_scheme \<Rightarrow> 'z shared_scheme" where
  "count_service s = s\<lparr>nm_log := (nm_log s)\<lparr>nl_Services := nl_Services (nm_log s) + 1\<rparr>\<rparr>"

definition count_error :: "'z shared_scheme \<Rightarrow> 'z shared_scheme" where
  "count_error s = s\<lparr>nm_log := (nm_log s)\<lparr>nl_Errs := nl_Errs (nm_log s) + 1\<rparr>\<rparr>"

datatype net_error =
    InvalidAppLock string
  | AppLockLength string nat
  | MissingHash string
  | NoTrustedHash string
  | UnmarshalRequest string string
  | MarshalResponse string string
  | ServiceFailed rt_error
  | UnknownService applock
  | UnknownMethod string applock
  | UdpUnavailable transport_error

type_synonym rpc_handler = "shared \<Rightarrow> bytes \<Rightarrow> shared \<times> (net_error, bytes) go"

datatype chan_state = ChanOpen | ChanClosed

text \<open>
  \<open>active\<close> is keyed by pointers; every message is decoded into fresh objects, so it is the list
  of the contacts marked, a nil pointer at most once. \<open>tcpServ\<close> is never set.
\<close>

record network_manager = shared +
  nm_nodeID :: nodeid
  nm_localAddr :: string
  nm_info :: cptr
  nm_receiver :: "chan_state option"
  nm_udpServ :: "udp_server option"
  nm_peers :: "string \<Rightarrow> cptr option"
  nm_active :: "cptr list"
  nm_appLocks :: "string \<Rightarrow> applock option"
  nm_registry :: "applock \<Rightarrow> (string \<Rightarrow> rpc_handler option) option"
  nm_cfg :: config

definition mark_active :: "cptr \<Rightarrow> cptr list \<Rightarrow> cptr list" where
  "mark_active p ps = (if p = None \<and> None \<in> set ps then ps else ps @ [p])"

definition lookup_lock :: "network_manager \<Rightarrow> string \<Rightarrow> applock" where
  "lookup_lock nm svc = (case nm_appLocks nm svc of None \<Rightarrow> zero_lock | Some l \<Rightarrow> l)"

section \<open>Services\<close>

text \<open>
  A service descriptor, and a service's methods as reflection finds them by name: the decoder of
  the request type, the method, and the encoder of its response.
\<close>

datatype metadata = MetaNil | MetaBytes bytes | MetaOther

record service_desc =
  sd_ServiceName :: string
  sd_HandlerType :: string
  sd_Methods :: "string list"
  sd_Streams :: "string list"
  sd_Metadata :: metadata

record ('req, 'rep) rpc_method =
  md_unmarshal :: "bytes \<Rightarrow> 'req option"
  md_call :: "shared \<Rightarrow> 'req \<Rightarrow> shared \<times> (net_error, 'rep) go"
  md_marshal :: "'rep \<Rightarrow> bytes option"

definition make_handler :: "string \<Rightarrow> string \<Rightarrow> ('req, 'rep) rpc_method \<Rightarrow> rpc_handler" where
  "make_handler svc name m sh payload =
     (case md_unmarshal m payload of
        None \<Rightarrow> (count_error sh, Inl (Err (UnmarshalRequest svc name)))
      | Some req \<Rightarrow>
          (case md_call m sh req of
             (sh, Inl e) \<Rightarrow> (sh, Inl e)
           | (sh, Inr res) \<Rightarrow>
               (case md_marshal m res of
                  None \<Rightarrow> (count_error sh, Inl (Err (MarshalResponse svc name)))
                | Some resBytes \<Rightarrow> (sh, Inr resBytes))))"

fun register_methods :: "string \<Rightarrow> (string \<Rightarrow> ('req, 'rep) rpc_method option) \<Rightarrow> string list
    \<Rightarrow> (string \<Rightarrow> rpc_handler option) \<Rightarrow> (string \<Rightarrow> rpc_handler option)" where
  "register_methods svc methods [] reg = reg"
| "register_methods svc methods (md # mds) reg =
     (case methods md of
        None \<Rightarrow> register_methods svc methods mds reg
      | Some m \<Rightarrow> register_methods svc methods mds (reg(md \<mapsto> make_handler svc md m)))"

definition RegisterService :: "network_manager \<Rightarrow> service_desc \<Rightarrow> (string \<Rightarrow> ('req, 'rep) rpc_method option)
    \<Rightarrow> network_manager \<times> (net_error, unit) go" where
  "RegisterService nm d methods =
     (case sd_Metadata d of
        MetaBytes appLock \<Rightarrow>
          if length appLock \<noteq> ApplicationIDBytes
          then (count_error nm, Inl (Err (MissingHash (sd_ServiceName d))))
          else (case nm_appLocks nm (sd_ServiceName d) of
              None \<Rightarrow> (count_error nm, Inl (Err (NoTrustedHash (sd_ServiceName d))))
            | Some expected \<Rightarrow>
                if appLock \<noteq> expected
                then (count_error nm, Inl (Err (NoTrustedHash (sd_ServiceName d))))
                else (count_service (nm\<lparr>nm_registry := (nm_registry nm)(appLock \<mapsto>
                        register_methods (sd_ServiceName d) methods (sd_Methods d) Map.empty)\<rparr>), Inr ()))
      | _ \<Rightarrow> (count_error nm, Inl (Err (MissingHash (sd_ServiceName d)))))"

definition addAppLock :: "network_manager \<Rightarrow> service_desc \<Rightarrow> service_desc" where
  "addAppLock nm d = d\<lparr>sd_Metadata := MetaBytes (AppLockToSlice (lookup_lock nm (sd_ServiceName d)))\<rparr>"

text \<open>The routing service, the only one the node registers.\<close>

definition RoutingService_ServiceDesc :: service_desc where
  "RoutingService_ServiceDesc =
     \<lparr>sd_ServiceName = ''router.RoutingService'', sd_HandlerType = ''RoutingServiceServer'',
      sd_Methods = [''Ping'', ''Store'', ''Delete'', ''FindNode'', ''FindValue'', ''Refresh''],
      sd_Streams = [], sd_Metadata = MetaOther\<rparr>"

record router_codec = codec +
  pb_PING :: "bytes \<Rightarrow> ping option"
  pb_STORE :: "bytes \<Rightarrow> store_msg option"
  pb_DELETE :: "bytes \<Rightarrow> delete_msg option"
  pb_FIND_NODE :: "bytes \<Rightarrow> find_node option"
  pb_FIND_VALUE :: "bytes \<Rightarrow> find_value option"
  pb_REFRESH :: "bytes \<Rightarrow> refresh_msg option"
  pb_marshal_request :: "request \<Rightarrow> bytes option"
  pb_marshal_reply :: "reply \<Rightarrow> bytes option"
  pb_ACK :: "bytes \<Rightarrow> ack option"
  pb_NODES :: "bytes \<Rightarrow> nodes option"

definition call_router :: "shared \<Rightarrow> request \<Rightarrow> shared \<times> (net_error, reply) go" where
  "call_router sh req =
     (case serve_request (nm_router sh) req of
        (rt, res) \<Rightarrow> (sh\<lparr>nm_router := rt\<rparr>, map_sum (map_failure ServiceFailed) id res))"

definition request_decoder :: "'z router_codec_scheme \<Rightarrow> string \<Rightarrow> (bytes \<Rightarrow> request option) option" where
  "request_decoder cd = [
     ''Ping'' \<mapsto> map_option ReqPing \<circ> pb_PING cd,
     ''Store'' \<mapsto> map_option ReqStore \<circ> pb_STORE cd,
     ''Delete'' \<mapsto> map_option ReqDelete \<circ> pb_DELETE cd,
     ''FindNode'' \<mapsto> map_option ReqFindNode \<circ> pb_FIND_NODE cd,
     ''FindValue'' \<mapsto> map_option ReqFindValue \<circ> pb_FIND_VALUE cd,
     ''Refresh'' \<mapsto> map_option ReqRefresh \<circ> pb_REFRESH cd]"

definition routing_methods :: "'z router_codec_scheme \<Rightarrow> string \<Rightarrow> (request, reply) rpc_method option" where
  "routing_methods cd name =
     map_option (\<lambda>dec. \<lparr>md_unmarshal = dec, md_call = call_router, md_marshal = pb_marshal_reply cd\<rparr>)
       (request_decoder cd name)"

section \<open>Construction\<close>

text \<open>
  The loop over the configured locks, in the order in which the map is iterated (the list order of
  \<open>cf_AppLocks\<close>). A failing constructor returns no manager.
\<close>

fun load_locks :: "(string \<times> string) list \<Rightarrow> (string \<Rightarrow> applock option)
    \<Rightarrow> (net_error, string \<Rightarrow> applock option) go" where
  "load_locks [] locks = Inr locks"
| "load_locks ((svc, str) # rest) locks =
     (case hex_decode str of
        None \<Rightarrow> Inl (Err (InvalidAppLock svc))
      | Some b \<Rightarrow>
          if length b \<noteq> ApplicationIDBytes then Inl (Err (AppLockLength svc (length b)))
          else load_locks rest (locks(svc \<mapsto> b)))"

definition NewNetworkManager :: "'z router_codec_scheme \<Rightarrow> cptr \<Rightarrow> config
    \<Rightarrow> (net_error, network_manager) go" where
  "NewNetworkManager cd local cfg =
     (case contact_ID local of
        Inl e \<Rightarrow> Inl e
      | Inr ident \<Rightarrow>
     (case NewRoutingTable local (cf_K cfg) (cf_Alpha cfg) of
        Inl e \<Rightarrow> Inl (map_failure ServiceFailed e)
      | Inr rt \<Rightarrow>
     (case load_locks (cf_AppLocks cfg) Map.empty of
        Inl e \<Rightarrow> Inl e
      | Inr locks \<Rightarrow>
          let nm = \<lparr>nm_router = rt, nm_log = NewNetLog False, nm_nodeID = ident,
                    nm_localAddr = GetAddress local, nm_info = local, nm_receiver = None,
                    nm_udpServ = None, nm_peers = Map.empty, nm_active = [], nm_appLocks = locks,
                    nm_registry = Map.empty, nm_cfg = cfg\<rparr>
          in (case RegisterService nm (addAppLock nm RoutingService_ServiceDesc) (routing_methods cd) of
                (_, Inl e) \<Rightarrow> Inl e
              | (nm, Inr _) \<Rightarrow> Inr nm))))"

section \<open>Serving\<close>

definition DispatchRPC :: "network_manager \<Rightarrow> applock \<Rightarrow> string \<Rightarrow> bytes
    \<Rightarrow> network_manager \<times> (net_error, bytes) go" where
  "DispatchRPC nm service meth payload =
     (case nm_info nm of
        None \<Rightarrow> (nm, Inl (Panic NilDereference))
      | Some _ \<Rightarrow>
     (case nm_registry nm service of
        None \<Rightarrow> (nm, Inl (Err (UnknownService service)))
      | Some svcMap \<Rightarrow>
     (case svcMap meth of
        None \<Rightarrow> (nm, Inl (Err (UnknownMethod meth service)))
      | Some handler \<Rightarrow>
          (case handler (shared.truncate nm) payload of
             (sh, r) \<Rightarrow> (nm\<lparr>nm_router := nm_router sh, nm_log := nm_log sh\<rparr>, r)))))"

text \<open>
  One packet, if no other is served meanwhile: the manager after it, and the datagram written in reply, if any. A handler's error
  is counted and logged; only a served request marks its sender and counts as a packet.
\<close>

definition process_packet :: "network_manager \<Rightarrow> packet
    \<Rightarrow> network_manager \<times> (net_error, (string \<times> bytes) option) go" where
  "process_packet nm pkt =
     (let r = p_RPC pkt; appLock = lookup_lock nm (rpc_Service r) in
      case DispatchRPC nm appLock (rpc_Method r) (rpc_Payload r) of
        (nm, Inl (Panic p)) \<Rightarrow> (nm, Inl (Panic p))
      | (nm, Inl Blocked) \<Rightarrow> (nm, Inl Blocked)
      | (nm, Inl (Err e)) \<Rightarrow> (count_error nm, Inr None)
      | (nm, Inr respPayload) \<Rightarrow>
          let env = \<lparr>rpc_Service = rpc_Service r, rpc_Method = rpc_Method r,
                     rpc_Sender = nm_info nm, rpc_Payload = respPayload\<rparr> in
          (case p_Sender pkt of
             None \<Rightarrow> (nm, Inl (Panic NilDereference))
           | Some sender \<Rightarrow>
               let nm = nm\<lparr>nm_peers := (nm_peers nm)(c_Username sender \<mapsto> p_Sender pkt),
                           nm_active := mark_active (p_Sender pkt) (nm_active nm)\<rparr> in
               (case rt_Update (nm_router nm) (p_Sender pkt) of
                  (rt, Inl (Panic p)) \<Rightarrow> (nm\<lparr>nm_router := rt\<rparr>, Inl (Panic p))
                | (rt, Inl Blocked) \<Rightarrow> (nm\<lparr>nm_router := rt\<rparr>, Inl Blocked)
                | (rt, _) \<Rightarrow>
                    let nm = nm\<lparr>nm_router := rt\<rparr> in
                    (case p_Reply pkt env of
                       Inl (Panic p) \<Rightarrow> (nm, Inl (Panic p))
                     | Inl Blocked \<Rightarrow> (nm, Inl Blocked)
                     | Inl (Err e) \<Rightarrow> (count_packet (count_error nm), Inr None)
                     | Inr out \<Rightarrow> (count_packet nm, Inr (Some out))))))"

section \<open>Life cycle\<close>

definition nm_Start :: "(string \<Rightarrow> string option) \<Rightarrow> (string \<Rightarrow> bool) \<Rightarrow> network_manager
    \<Rightarrow> network_manager \<times> (net_error, unit) go" where
  "nm_Start resolve listens nm =
     (let nm = nm\<lparr>nm_receiver := Some ChanOpen\<rparr> in
      case nm_info nm of
        None \<Rightarrow> (nm, Inl (Panic NilDereference))
      | Some info \<Rightarrow>
     (case NewUDPServer resolve listens (nm_localAddr nm) (c_UdpPort info) of
        Inl e \<Rightarrow> (nm, Inl (map_failure UdpUnavailable e))
      | Inr usrv \<Rightarrow> (nm\<lparr>nm_udpServ := Some (udp_Start usrv)\<rparr>, Inr ())))"

definition nm_Shutdown :: "network_manager \<Rightarrow> network_manager \<times> (net_error, unit) go" where
  "nm_Shutdown nm =
     (case (case nm_udpServ nm of
              None \<Rightarrow> Inr None
            | Some u \<Rightarrow> map_sum id Some (udp_Stop u)) of
        Inl e \<Rightarrow> (nm, Inl (map_failure UdpUnavailable e))
      | Inr u \<Rightarrow>
          let nm = nm\<lparr>nm_udpServ := u\<rparr> in
          (case nm_receiver nm of
             None \<Rightarrow> (nm, Inr ())
           | Some ChanOpen \<Rightarrow> (nm\<lparr>nm_receiver := Some ChanClosed\<rparr>, Inr ())
           | Some ChanClosed \<Rightarrow> (nm, Inl (Panic ClosedChannel))))"

section \<open>Lemmas\<close>

lemma failure_cases:
  obtains e where "f = Err e" | p where "f = Panic p" | "f = Blocked"
  by (cases f) auto

lemma shared_of_update [simp]:
  "shared.truncate (nm\<lparr>nm_router := nm_router sh, nm_log := nm_log sh\<rparr>) = (sh :: shared)"
  by (simp add: shared.truncate_def)

lemma truncate_sel [simp]:
  "nm_router (shared.truncate nm) = nm_router nm" "nm_log (shared.truncate nm) = nm_log nm"
  by (simp_all add: shared.truncate_def)

lemma count_router [simp]:
  "nm_router (count_error s) = nm_router s" "nm_router (count_packet s) = nm_router s"
  "nm_router (count_service s) = nm_router s"
  by (simp_all add: count_error_def count_packet_def count_service_def)

lemma count_nm [simp]:
  "nm_info (count_error nm) = nm_info nm" "nm_registry (count_error nm) = nm_registry nm"
  "nm_peers (count_error nm) = nm_peers nm" "nm_active (count_error nm) = nm_active nm"
  "nm_appLocks (count_error nm) = nm_appLocks nm"
  "nm_info (count_packet nm) = nm_info nm" "nm_registry (count_packet nm) = nm_registry nm"
  "nm_peers (count_packet nm) = nm_peers nm" "nm_active (count_packet nm) = nm_active nm"
  "nm_appLocks (count_packet nm) = nm_appLocks nm"
  "nm_info (count_service nm) = nm_info nm" "nm_registry (count_service nm) = nm_registry nm"
  "nm_peers (count_service nm) = nm_peers nm" "nm_active (count_service nm) = nm_active nm"
  "nm_appLocks (count_service nm) = nm_appLocks nm"
  "nm_cfg (count_error nm) = nm_cfg nm" "nm_cfg (count_packet nm) = nm_cfg nm"
  "nm_cfg (count_service nm) = nm_cfg nm"
  by (simp_all add: count_error_def count_packet_def count_service_def)

lemma count_values [simp]:
  "nl_Packets (nm_log (count_packet s)) = nl_Packets (nm_log s) + 1"
  "nl_Packets (nm_log (count_error s)) = nl_Packets (nm_log s)"
  "nl_Errs (nm_log (count_error s)) = nl_Errs (nm_log s) + 1"
  "nl_Services (nm_log (count_service s)) = nl_Services (nm_log s) + 1"
  by (simp_all add: count_error_def count_packet_def count_service_def)

lemma length_AppLockToSlice [simp]: "length l = 64 \<Longrightarrow> AppLockToSlice l = l"
  by (simp add: AppLockToSlice_def)

text \<open>The handlers a registration leaves: one per listed method the service has.\<close>

lemma register_methods_eq:
  "register_methods svc methods mds reg =
     (\<lambda>name. if name \<in> set mds \<and> methods name \<noteq> None
             then map_option (make_handler svc name) (methods name) else reg name)"
proof (induction mds arbitrary: reg)
  case (Cons md mds)
  then show ?case by (cases "methods md") (auto simp: fun_eq_iff)
qed simp

definition good_lock :: "string \<Rightarrow> bool" where
  "good_lock str \<longleftrightarrow> (case hex_decode str of None \<Rightarrow> False | Some b \<Rightarrow> length b = ApplicationIDBytes)"

lemma load_locks_ok:
  "\<forall>(svc, str) \<in> set kvs. good_lock str \<Longrightarrow>
     load_locks kvs locks = Inr (locks ++ map_of (rev (map (apsnd (the \<circ> hex_decode)) kvs)))"
proof (induction kvs arbitrary: locks)
  case (Cons kv kvs)
  obtain svc str where kv: "kv = (svc, str)" by (cases kv)
  with Cons.prems obtain b where "hex_decode str = Some b" "length b = ApplicationIDBytes"
    by (auto simp: good_lock_def split: option.splits)
  then show ?case using Cons kv by (simp add: map_of_append)
qed simp

lemma load_locks_bad:
  "\<exists>(svc, str) \<in> set kvs. \<not> good_lock str \<Longrightarrow> \<exists>e. load_locks kvs locks = Inl (Err e)"
proof (induction kvs arbitrary: locks)
  case (Cons kv kvs)
  obtain svc str where kv: "kv = (svc, str)" by (cases kv)
  show ?case
  proof (cases "good_lock str")
    case True
    then have "\<exists>(svc, str) \<in> set kvs. \<not> good_lock str" using Cons.prems kv by auto
    from Cons.IH [OF this] show ?thesis by (auto simp: kv split: option.splits)
  qed (auto simp: kv good_lock_def split: option.splits)
qed simp

section \<open>The contract of a registered service\<close>

text \<open>
  What dispatching relies on: the handlers of a service never panic or block on a state that
  satisfies \<open>inv\<close>, and keep it.
\<close>

locale guarded_handlers =
  fixes inv :: "shared \<Rightarrow> bool" and hs :: "string \<Rightarrow> rpc_handler option"
  assumes safe: "hs name = Some h \<Longrightarrow> inv sh \<Longrightarrow> h sh payload = (sh', r)
    \<Longrightarrow> inv sh' \<and> (\<forall>p. r \<noteq> Inl (Panic p)) \<and> r \<noteq> Inl Blocked"
begin

lemma dispatch_safe:
  assumes "nm_registry nm lock = Some hs" and "nm_info nm \<noteq> None" and "inv (shared.truncate nm)"
    and "DispatchRPC nm lock meth payload = (nm', r)"
  shows "inv (shared.truncate nm') \<and> (\<forall>p. r \<noteq> Inl (Panic p)) \<and> r \<noteq> Inl Blocked"
proof (cases "hs meth")
  case None
  then show ?thesis using assms by (auto simp: DispatchRPC_def)
next
  case (Some h)
  obtain sh r' where h: "h (shared.truncate nm) payload = (sh, r')" by fastforce
  then have "nm' = nm\<lparr>nm_router := nm_router sh, nm_log := nm_log sh\<rparr> \<and> r = r'"
    using assms Some by (auto simp: DispatchRPC_def)
  then show ?thesis using safe [OF Some assms(3) h] by simp
qed

end

definition table_ok :: "cptr \<Rightarrow> shared \<Rightarrow> bool" where
  "table_ok l sh \<longleftrightarrow> rt_inv (nm_router sh) \<and> rt_local (nm_router sh) = l"

lemma table_ok_frame [simp]:
  "table_ok l (count_error sh) \<longleftrightarrow> table_ok l sh" "table_ok l (count_packet sh) \<longleftrightarrow> table_ok l sh"
  by (simp_all add: table_ok_def)

lemma call_router_safe:
  assumes "table_ok l sh"
  shows "\<exists>sh' rep. call_router sh req = (sh', Inr rep) \<and> table_ok l sh' \<and> reply_from rep = l
     \<and> nm_log sh' = nm_log sh \<and> rt_Update (nm_router sh) (request_from req) = (nm_router sh', Inr ())"
proof -
  obtain rt' where rt': "rt_Update (nm_router sh) (request_from req) = (rt', Inr ())" "rt_inv rt'" "rt_local rt' = l"
    using assms rt_Update_ok [of "nm_router sh"] unfolding table_ok_def by metis
  then obtain rep where "serve_request (nm_router sh) req = (rt', Inr rep)" "reply_from rep = l"
    using serve_request_ok by blast
  then show ?thesis using rt' by (auto simp: call_router_def table_ok_def)
qed

interpretation routing_handlers:
  guarded_handlers "table_ok l" "register_methods svc (routing_methods cd) mds Map.empty"
  for l svc mds and cd :: "'z router_codec_scheme"
proof
  fix name h sh payload sh' r
  assume "register_methods svc (routing_methods cd) mds Map.empty name = Some h" and inv: "table_ok l sh"
    and run: "h sh payload = (sh', r)"
  then obtain dec where h: "h = make_handler svc name
      \<lparr>md_unmarshal = dec, md_call = call_router, md_marshal = pb_marshal_reply cd\<rparr>"
    by (auto simp: register_methods_eq routing_methods_def split: if_splits)
  show "table_ok l sh' \<and> (\<forall>p. r \<noteq> Inl (Panic p)) \<and> r \<noteq> Inl Blocked"
  proof (cases "dec payload")
    case None
    then show ?thesis using run inv by (auto simp: h make_handler_def)
  next
    case (Some req)
    obtain sh1 rep where "call_router sh req = (sh1, Inr rep)" "table_ok l sh1"
      using call_router_safe [OF inv, of req] by blast
    then show ?thesis using run Some by (auto simp: h make_handler_def split: option.splits)
  qed
qed

text \<open>The invariant of a running manager.\<close>

definition nm_inv :: "network_manager \<Rightarrow> bool" where
  "nm_inv nm \<longleftrightarrow> nm_info nm \<noteq> None \<and> table_ok (nm_info nm) (shared.truncate nm)
     \<and> (\<forall>lock hs. nm_registry nm lock = Some hs \<longrightarrow> guarded_handlers (table_ok (nm_info nm)) hs)"

lemma DispatchRPC_frame:
  "DispatchRPC nm lock meth payload = (nm', r) \<Longrightarrow>
     nm_info nm' = nm_info nm \<and> nm_registry nm' = nm_registry nm \<and> nm_peers nm' = nm_peers nm
     \<and> nm_active nm' = nm_active nm \<and> nm_appLocks nm' = nm_appLocks nm"
  by (auto simp: DispatchRPC_def split: option.splits prod.splits)

lemma DispatchRPC_inv:
  assumes "nm_inv nm" and "DispatchRPC nm lock meth payload = (nm', r)"
  shows "nm_inv nm' \<and> (\<forall>p. r \<noteq> Inl (Panic p)) \<and> r \<noteq> Inl Blocked"
proof (cases "nm_registry nm lock")
  case None
  then show ?thesis using assms by (auto simp: DispatchRPC_def nm_inv_def)
next
  case (Some hs)
  then have "guarded_handlers (table_ok (nm_info nm)) hs" using assms(1) by (simp add: nm_inv_def)
  from guarded_handlers.dispatch_safe [OF this Some _ _ assms(2)] assms(1) DispatchRPC_frame [OF assms(2)]
  show ?thesis by (simp add: nm_inv_def)
qed

lemma nm_inv_count [simp]: "nm_inv (count_error nm) \<longleftrightarrow> nm_inv nm" "nm_inv (count_packet nm) \<longleftrightarrow> nm_inv nm"
  by (simp_all add: nm_inv_def table_ok_def)

lemma nm_inv_peers [simp]: "nm_inv (nm\<lparr>nm_peers := ps, nm_active := act\<rparr>) \<longleftrightarrow> nm_inv nm"
  by (simp add: nm_inv_def table_ok_def)

lemma nm_inv_update:
  assumes "nm_inv nm"
  obtains rt where "rt_Update (nm_router nm) c = (rt, Inr ())" and "nm_inv (nm\<lparr>nm_router := rt\<rparr>)"
    and "rt_inv rt"
proof -
  obtain rt where "rt_Update (nm_router nm) c = (rt, Inr ())" "rt_inv rt" "rt_local rt = rt_local (nm_router nm)"
    using rt_Update_ok [of "nm_router nm"] assms unfolding nm_inv_def table_ok_def truncate_sel by metis
  then show thesis using that assms by (simp add: nm_inv_def table_ok_def)
qed

definition routing_service :: string where "routing_service = ''router.RoutingService''"

definition routing_registry :: "'z router_codec_scheme \<Rightarrow> string \<Rightarrow> rpc_handler option" where
  "routing_registry cd =
     register_methods routing_service (routing_methods cd) (sd_Methods RoutingService_ServiceDesc) Map.empty"

text \<open>A manager that serves the routing service over the codec \<open>cd\<close>.\<close>

definition nm_serving :: "'z router_codec_scheme \<Rightarrow> network_manager \<Rightarrow> bool" where
  "nm_serving cd nm \<longleftrightarrow> nm_inv nm
     \<and> nm_registry nm (lookup_lock nm routing_service) = Some (routing_registry cd)"

lemma lookup_lock_frame: "nm_appLocks nm' = nm_appLocks nm \<Longrightarrow> lookup_lock nm' s = lookup_lock nm s"
  by (simp add: lookup_lock_def)

lemma replyFn_no_panic:
  "rpc_Sender env \<noteq> None \<Longrightarrow> replyFn cd writes peer env = Inl f \<Longrightarrow> \<exists>e. f = Err e"
  by (auto simp: replyFn_def split: option.splits if_splits)

lemma replyFn_peer: "replyFn cd writes peer env = Inr out \<Longrightarrow> fst out = peer"
  by (auto simp: replyFn_def split: option.splits if_splits)

lemma udp_turn_Push:
  "udp_turn cd writes ev = Push pkt \<Longrightarrow> p_Sender pkt \<noteq> None
     \<and> (\<exists>peer. p_Reply pkt = replyFn cd writes peer)"
  by (auto simp: udp_turn_def GetUDPAddress_def split: udp_event.splits option.splits if_splits)

lemma process_packet_served:
  assumes "nm_inv nm" and "p_Sender pkt = Some s"
    and "DispatchRPC nm (lookup_lock nm (rpc_Service (p_RPC pkt))) (rpc_Method (p_RPC pkt))
           (rpc_Payload (p_RPC pkt)) = (nm1, Inr resp)"
    and "p_Reply pkt \<lparr>rpc_Service = rpc_Service (p_RPC pkt), rpc_Method = rpc_Method (p_RPC pkt),
           rpc_Sender = nm_info nm, rpc_Payload = resp\<rparr> = rep" and "\<forall>f. rep = Inl f \<longrightarrow> (\<exists>e. f = Err e)"
  shows "\<exists>nm'. process_packet nm pkt = (nm', Inr (case rep of Inl _ \<Rightarrow> None | Inr out \<Rightarrow> Some out))
     \<and> nm_inv nm' \<and> nm_info nm' = nm_info nm
     \<and> nm_registry nm' = nm_registry nm \<and> nm_appLocks nm' = nm_appLocks nm
     \<and> nm_peers nm' = (nm_peers nm)(c_Username s \<mapsto> Some s) \<and> nm_active nm' = nm_active nm @ [Some s]
     \<and> nl_Packets (nm_log nm') = nl_Packets (nm_log nm1) + 1
     \<and> rt_Update (nm_router nm1) (Some s) = (nm_router nm', Inr ())"
proof -
  note frame = DispatchRPC_frame [OF assms(3)]
  have inv1: "nm_inv nm1" using DispatchRPC_inv [OF assms(1,3)] by simp
  obtain rt where rt: "rt_Update (nm_router nm1) (Some s) = (rt, Inr ())" "nm_inv (nm1\<lparr>nm_router := rt\<rparr>)"
    using nm_inv_update [OF inv1] by metis
  define nm2 where "nm2 = (nm1\<lparr>nm_peers := (nm_peers nm)(c_Username s \<mapsto> Some s),
    nm_active := nm_active nm @ [Some s]\<rparr>)\<lparr>nm_router := rt\<rparr>"
  have "nm2 = (nm1\<lparr>nm_router := rt\<rparr>)\<lparr>nm_peers := (nm_peers nm)(c_Username s \<mapsto> Some s),
    nm_active := nm_active nm @ [Some s]\<rparr>" by (simp add: nm2_def)
  then have inv2: "nm_inv nm2" using rt(2) by (simp only: nm_inv_peers)
  have run: "process_packet nm pkt = (case rep of
        Inl (Panic p) \<Rightarrow> (nm2, Inl (Panic p)) | Inl Blocked \<Rightarrow> (nm2, Inl Blocked)
      | Inl (Err e) \<Rightarrow> (count_packet (count_error nm2), Inr None)
      | Inr out \<Rightarrow> (count_packet nm2, Inr (Some out)))"
    using assms(2-4) frame rt(1)
    by (cases rep) (simp_all add: process_packet_def Let_def mark_active_def nm2_def split: failure.splits)
  have fields: "nm_info nm2 = nm_info nm" "nm_registry nm2 = nm_registry nm" "nm_appLocks nm2 = nm_appLocks nm"
    "nm_peers nm2 = (nm_peers nm)(c_Username s \<mapsto> Some s)" "nm_active nm2 = nm_active nm @ [Some s]"
    "nm_log nm2 = nm_log nm1" "nm_router nm2 = rt"
    using frame by (simp_all add: nm2_def)
  show ?thesis
  proof (cases rep)
    case (Inl f)
    then obtain e where "rep = Inl (Err e)" using assms(5) by blast
    then show ?thesis using run inv2 rt(1) fields by simp
  next
    case (Inr out)
    then show ?thesis using run inv2 rt(1) fields by simp
  qed
qed

lemma process_packet_keeps:
  assumes "nm_inv nm" and "udp_turn cd writes ev = Push pkt"
  obtains nm' out where "process_packet nm pkt = (nm', Inr out)" and "nm_inv nm'"
    and "nm_info nm' = nm_info nm" and "nm_registry nm' = nm_registry nm" and "nm_appLocks nm' = nm_appLocks nm"
proof -
  obtain s peer where s: "p_Sender pkt = Some s" and rep: "p_Reply pkt = replyFn cd writes peer"
    using udp_turn_Push [OF assms(2)] by blast
  have info: "nm_info nm \<noteq> None" using assms(1) by (simp add: nm_inv_def)
  obtain nm1 r where d: "DispatchRPC nm (lookup_lock nm (rpc_Service (p_RPC pkt))) (rpc_Method (p_RPC pkt))
      (rpc_Payload (p_RPC pkt)) = (nm1, r)" by fastforce
  note inv1 = DispatchRPC_inv [OF assms(1) d] and frame = DispatchRPC_frame [OF d]
  show thesis
  proof (cases r)
    case (Inr resp)
    let ?env = "\<lparr>rpc_Service = rpc_Service (p_RPC pkt), rpc_Method = rpc_Method (p_RPC pkt),
       rpc_Sender = nm_info nm, rpc_Payload = resp\<rparr>"
    have "\<forall>f. p_Reply pkt ?env = Inl f \<longrightarrow> (\<exists>e. f = Err e)"
      using replyFn_no_panic [of ?env cd writes peer] info by (simp add: rep)
    from process_packet_served [OF assms(1) s d [unfolded Inr] refl this] that show thesis by blast
  next
    case (Inl f)
    then obtain e where "r = Inl (Err e)" using inv1 by (cases f) auto
    then have "process_packet nm pkt = (count_error nm1, Inr None)"
      using d by (simp add: process_packet_def Let_def)
    then show thesis using that inv1 frame by simp
  qed
qed

section \<open>Properties\<close>

text \<open>
  Registration: a service is accepted exactly when its metadata is the 64-byte lock that the
  configuration trusts for its name. An accepted service gets, under its lock, one handler for every
  listed method it implements and nothing else (a service registered earlier under the same lock
  is replaced), and a rejected one changes only the error counter.
\<close>

lemma RegisterService_contract:
  assumes "RegisterService nm d methods = (nm', r)"
  shows "(r = Inr () \<longleftrightarrow> (\<exists>l. sd_Metadata d = MetaBytes l \<and> length l = ApplicationIDBytes
        \<and> nm_appLocks nm (sd_ServiceName d) = Some l))
    \<and> (r = Inr () \<longrightarrow> (\<exists>l hs. sd_Metadata d = MetaBytes l \<and> nm_registry nm' = (nm_registry nm)(l \<mapsto> hs)
        \<and> (\<forall>name. hs name = (if name \<in> set (sd_Methods d)
              then map_option (make_handler (sd_ServiceName d) name) (methods name) else None)))
        \<and> nl_Services (nm_log nm') = nl_Services (nm_log nm) + 1)
    \<and> (r \<noteq> Inr () \<longrightarrow> nm' = count_error nm \<and> (\<exists>e. r = Inl (Err e)))"
proof (cases "\<exists>l. sd_Metadata d = MetaBytes l \<and> length l = ApplicationIDBytes
        \<and> nm_appLocks nm (sd_ServiceName d) = Some l")
  case True
  then obtain l where l: "sd_Metadata d = MetaBytes l" "length l = ApplicationIDBytes"
    "nm_appLocks nm (sd_ServiceName d) = Some l" by blast
  then have "r = Inr ()" and nm': "nm' = count_service (nm\<lparr>nm_registry := (nm_registry nm)(l \<mapsto>
      register_methods (sd_ServiceName d) methods (sd_Methods d) Map.empty)\<rparr>)"
    using assms by (auto simp: RegisterService_def)
  then show ?thesis using l by (auto simp: register_methods_eq intro!: exI)
next
  case False
  then have "nm' = count_error nm \<and> (\<exists>e. r = Inl (Err e))"
    using assms by (auto simp: RegisterService_def split: metadata.splits if_splits option.splits)
  then show ?thesis using False by auto
qed

text \<open>A configuration, a codec and a local contact for the concrete instances.\<close>

definition demo_lock :: string where "demo_lock = replicate 128 (CHR ''0'')"

definition demo_config :: "string \<Rightarrow> config" where
  "demo_config svc = (default_config zero_id ''localhost'')\<lparr>cf_AppLocks := [(svc, demo_lock)]\<rparr>"

definition demo_codec :: router_codec where
  "demo_codec = \<lparr>pb_marshal_RPC = (\<lambda>r. Some (rpc_Payload r)),
     pb_unmarshal_RPC = (\<lambda>b. Some \<lparr>rpc_Service = routing_service, rpc_Method = ''Ping'',
        rpc_Sender = low_peer 7, rpc_Payload = b\<rparr>),
     pb_PING = (\<lambda>b. Some \<lparr>ping_From = low_peer 7, ping_Value = b\<rparr>),
     pb_STORE = Map.empty, pb_DELETE = Map.empty, pb_FIND_NODE = Map.empty, pb_FIND_VALUE = Map.empty,
     pb_REFRESH = Map.empty, pb_marshal_request = Map.empty,
     pb_marshal_reply = (\<lambda>r. case r of RepAck a \<Rightarrow> Some (ack_Value a) | _ \<Rightarrow> None),
     pb_ACK = (\<lambda>b. Some \<lparr>ack_From = low_peer 7, ack_Value = b\<rparr>), pb_NODES = Map.empty\<rparr>"

lemma hex_decode_demo_lock: "hex_decode demo_lock = Some (replicate 64 0)"
  by code_simp

lemma low_peer_Some: "low_peer v \<noteq> None"
  by (simp add: low_peer_def)

lemma good_demo_lock: "good_lock demo_lock"
  by (simp add: good_lock_def hex_decode_demo_lock)

lemma NewNetworkManager_result:
  assumes "length (GetId local) \<ge> 20" and "0 \<le> cf_K cfg" and "distinct (map fst (cf_AppLocks cfg))"
  shows "((\<exists>nm. NewNetworkManager cd local cfg = Inr nm) \<longleftrightarrow>
        (\<forall>(svc, str) \<in> set (cf_AppLocks cfg). good_lock str) \<and> routing_service \<in> fst ` set (cf_AppLocks cfg))
    \<and> ((\<exists>nm. NewNetworkManager cd local cfg = Inr nm) \<or> (\<exists>e. NewNetworkManager cd local cfg = Inl (Err e)))
    \<and> (\<forall>nm. NewNetworkManager cd local cfg = Inr nm \<longrightarrow> 0 < cf_K cfg \<longrightarrow> local \<noteq> None
          \<longrightarrow> nm_serving cd nm \<and> nm_info nm = local \<and> nm_peers nm = Map.empty \<and> nm_cfg nm = cfg
              \<and> table_peers (nm_router nm) = {local}
              \<and> nm_registry nm = [lookup_lock nm routing_service \<mapsto> routing_registry cd]
              \<and> nm_appLocks nm = map_of (rev (map (apsnd (the \<circ> hex_decode)) (cf_AppLocks cfg)))
              \<and> NewRoutingTable local (cf_K cfg) (cf_Alpha cfg) = Inr (nm_router nm))"
proof -
  define nm0 where "nm0 rt locks = \<lparr>nm_router = rt, nm_log = NewNetLog False, nm_nodeID = take 20 (GetId local),
                    nm_localAddr = GetAddress local, nm_info = local, nm_receiver = None,
                    nm_udpServ = None, nm_peers = Map.empty, nm_active = [], nm_appLocks = locks,
                    nm_registry = Map.empty, nm_cfg = cfg\<rparr>" for rt locks
  obtain rt where rt: "NewRoutingTable local (cf_K cfg) (cf_Alpha cfg) = Inr rt"
    and rt_inv: "0 < cf_K cfg \<longrightarrow> rt_inv rt \<and> rt_local rt = local \<and> table_peers rt = {local}"
    using assms(2) NewRoutingTable_inv [of "cf_K cfg" local "cf_Alpha cfg"]
    by (cases "0 < cf_K cfg") (auto simp: NewRoutingTable_def)
  have new: "NewNetworkManager cd local cfg = (case load_locks (cf_AppLocks cfg) Map.empty of
      Inl e \<Rightarrow> Inl e
    | Inr locks \<Rightarrow> (case RegisterService (nm0 rt locks) (addAppLock (nm0 rt locks) RoutingService_ServiceDesc)
          (routing_methods cd) of (_, Inl e) \<Rightarrow> Inl e | (nm, Inr _) \<Rightarrow> Inr nm))"
    using assms(1) by (simp add: NewNetworkManager_def contact_ID_def NodeID_conv_def rt nm0_def Let_def split: sum.split)
  show ?thesis
  proof (cases "\<forall>(svc, str) \<in> set (cf_AppLocks cfg). good_lock str")
    case False
    then have "\<exists>(svc, str) \<in> set (cf_AppLocks cfg). \<not> good_lock str" by auto
    from load_locks_bad [OF this] obtain e where "load_locks (cf_AppLocks cfg) Map.empty = Inl (Err e)" by blast
    then have "NewNetworkManager cd local cfg = Inl (Err e)" by (simp add: new)
    then show ?thesis using False by simp
  next
    case good: True
    define locks where "locks = map_of (rev (map (apsnd (the \<circ> hex_decode)) (cf_AppLocks cfg)))"
    have ll: "load_locks (cf_AppLocks cfg) Map.empty = Inr locks"
      using load_locks_ok [OF good] by (simp add: locks_def)
    show ?thesis
    proof (cases "routing_service \<in> fst ` set (cf_AppLocks cfg)")
      case False
      then have "locks routing_service = None"
        by (auto simp: locks_def map_of_eq_None_iff image_iff)
      then have "NewNetworkManager cd local cfg = Inl (Err (NoTrustedHash routing_service))"
        by (simp add: new ll RegisterService_def addAppLock_def RoutingService_ServiceDesc_def
            routing_service_def nm0_def lookup_lock_def AppLockToSlice_def zero_lock_def)
      then show ?thesis using False by simp
    next
      case True
      then obtain str where str: "(routing_service, str) \<in> set (cf_AppLocks cfg)" by auto
      then obtain b where b: "hex_decode str = Some b" "length b = 64"
        using good by (auto simp: good_lock_def split: option.splits)
      have "locks routing_service = Some b"
        using str b assms(3) unfolding locks_def
        by (intro map_of_is_SomeI) (force simp: rev_map [symmetric] comp_def)+
      then have reg: "RegisterService (nm0 rt locks) (addAppLock (nm0 rt locks) RoutingService_ServiceDesc)
          (routing_methods cd) = (count_service ((nm0 rt locks)\<lparr>nm_registry := [b \<mapsto> routing_registry cd]\<rparr>), Inr ())"
        and lock: "lookup_lock (count_service ((nm0 rt locks)\<lparr>nm_registry := [b \<mapsto> routing_registry cd]\<rparr>)) routing_service = b"
        using b by (simp_all add: RegisterService_def addAppLock_def RoutingService_ServiceDesc_def
            routing_service_def nm0_def lookup_lock_def routing_registry_def)
      define nm where "nm = count_service ((nm0 rt locks)\<lparr>nm_registry := [b \<mapsto> routing_registry cd]\<rparr>)"
      have "NewNetworkManager cd local cfg = Inr nm" by (simp add: new ll reg nm_def)
      moreover have "nm_serving cd nm" if "0 < cf_K cfg" "local \<noteq> None"
        using that rt_inv lock routing_handlers.guarded_handlers_axioms
        by (auto simp: nm_serving_def nm_inv_def table_ok_def nm_def nm0_def routing_registry_def)
      moreover have "nm_registry nm = [lookup_lock nm routing_service \<mapsto> routing_registry cd]"
        using lock by (simp add: nm_def)
      ultimately show ?thesis using good True rt_inv by (simp add: nm_def nm0_def locks_def rt)
    qed
  qed
qed

lemma demo_manager_full:
  obtains nm where "nm_serving demo_codec nm" and "nm_info nm = low_peer 0" and "nm_peers nm = Map.empty"
    and "nm_cfg nm = demo_config routing_service" and "table_peers (nm_router nm) = {low_peer 0}"
  using NewNetworkManager_result [of "low_peer 0" "demo_config routing_service" demo_codec]
  by (auto simp: demo_config_def default_config_def good_demo_lock low_peer_Some)

lemma demo_manager:
  obtains nm where "nm_serving demo_codec nm" and "nm_info nm = low_peer 0" and "nm_peers nm = Map.empty"
  by (rule demo_manager_full)

text \<open>
  C15. A node starts exactly when every configured lock is 128 hexadecimal digits and one of them
  belongs to the name \<open>router.RoutingService\<close>; otherwise the constructor answers an error. The
  manager it returns (with \<open>k\<close> positive) is well formed, trusts the configured locks and serves the
  six routing methods under the configured lock.
\<close>

theorem NewNetworkManager_iff:
  assumes "length (GetId local) \<ge> 20" and "0 \<le> cf_K cfg" and "distinct (map fst (cf_AppLocks cfg))"
  shows "((\<exists>nm. NewNetworkManager cd local cfg = Inr nm) \<longleftrightarrow>
        (\<forall>(svc, str) \<in> set (cf_AppLocks cfg). good_lock str) \<and> routing_service \<in> fst ` set (cf_AppLocks cfg))
    \<and> ((\<exists>nm. NewNetworkManager cd local cfg = Inr nm) \<or> (\<exists>e. NewNetworkManager cd local cfg = Inl (Err e)))
    \<and> (\<forall>nm. NewNetworkManager cd local cfg = Inr nm \<longrightarrow> 0 < cf_K cfg \<longrightarrow> local \<noteq> None
          \<longrightarrow> nm_serving cd nm \<and> nm_info nm = local \<and> nm_peers nm = Map.empty)"
  using NewNetworkManager_result [OF assms] by blast

theorem NewNetworkManager_iff_witness:
  "(\<exists>nm. NewNetworkManager demo_codec (low_peer 0) (demo_config ''router.RoutingService'') = Inr nm
      \<and> nm_serving demo_codec nm)
   \<and> (\<nexists>nm. NewNetworkManager demo_codec (low_peer 0) (demo_config ''routing.KademliaService'') = Inr nm)"
  using NewNetworkManager_iff [of "low_peer 0" "demo_config ''router.RoutingService''" demo_codec]
    NewNetworkManager_iff [of "low_peer 0" "demo_config ''routing.KademliaService''" demo_codec]
  by (auto simp: demo_config_def default_config_def good_demo_lock routing_service_def low_peer_Some)

text \<open>A request under any service name whose lock the routing service is registered with.\<close>

lemma DispatchRPC_request:
  assumes "nm_info nm \<noteq> None" and reg: "nm_registry nm (lookup_lock nm svc) = Some (routing_registry cd)"
    and dec: "request_decoder cd meth = Some dec" "dec payload = Some req"
    and "serve_request (nm_router nm) req = (rt1, Inr rep)" and "pb_marshal_reply cd rep = Some body"
  shows "DispatchRPC nm (lookup_lock nm svc) meth payload = (nm\<lparr>nm_router := rt1, nm_log := nm_log nm\<rparr>, Inr body)"
proof -
  have meth: "meth \<in> set (sd_Methods RoutingService_ServiceDesc)"
    using dec(1) by (auto simp: request_decoder_def RoutingService_ServiceDesc_def split: if_splits)
  have "make_handler routing_service meth
      \<lparr>md_unmarshal = dec, md_call = call_router, md_marshal = pb_marshal_reply cd\<rparr> (shared.truncate nm) payload
      = ((shared.truncate nm)\<lparr>nm_router := rt1\<rparr>, Inr body)"
    using assms(4-6) by (simp add: make_handler_def call_router_def)
  then show ?thesis
    using assms(1) reg meth dec(1)
    by (auto simp: DispatchRPC_def routing_registry_def register_methods_eq routing_methods_def)
qed

lemma served_request:
  assumes "nm_inv nm" and reg: "nm_registry nm (lookup_lock nm svc) = Some (routing_registry cd)"
    and "udp_turn cd writes (Datagram peer raw) = Push pkt"
    and "p_RPC pkt = \<lparr>rpc_Service = svc, rpc_Method = meth, rpc_Sender = Some s, rpc_Payload = payload\<rparr>"
    and "request_decoder cd meth = Some dec" and "dec payload = Some req"
    and "serve_request (nm_router nm) req = (rt1, Inr rep)" and "pb_marshal_reply cd rep = Some body"
    and "pb_marshal_RPC cd \<lparr>rpc_Service = svc, rpc_Method = meth, rpc_Sender = nm_info nm,
           rpc_Payload = body\<rparr> = Some out" and "writes peer out"
  shows "\<exists>nm'. process_packet nm pkt = (nm', Inr (Some (peer, out))) \<and> nm_inv nm'
    \<and> nm_info nm' = nm_info nm \<and> nm_registry nm' = nm_registry nm \<and> nm_appLocks nm' = nm_appLocks nm
    \<and> nm_peers nm' = (nm_peers nm)(c_Username s \<mapsto> Some s) \<and> nm_active nm' = nm_active nm @ [Some s]
    \<and> nl_Packets (nm_log nm') = nl_Packets (nm_log nm) + 1
    \<and> rt_Update rt1 (Some s) = (nm_router nm', Inr ())"
proof -
  have info: "nm_info nm \<noteq> None" using assms(1) by (simp add: nm_inv_def)
  define nm1 where "nm1 = nm\<lparr>nm_router := rt1, nm_log := nm_log nm\<rparr>"
  have d: "DispatchRPC nm (lookup_lock nm svc) meth payload = (nm1, Inr body)"
    unfolding nm1_def by (rule DispatchRPC_request [OF info reg assms(5-8)])
  have snd: "p_Sender pkt = Some s" and rep: "p_Reply pkt = replyFn cd writes peer"
    using assms(3,4) by (auto simp: udp_turn_def GetUDPAddress_def split: option.splits)
  have "p_Reply pkt \<lparr>rpc_Service = rpc_Service (p_RPC pkt), rpc_Method = rpc_Method (p_RPC pkt),
           rpc_Sender = nm_info nm, rpc_Payload = body\<rparr> = Inr (peer, out)"
    using assms(4,9,10) info by (auto simp: rep replyFn_def)
  from process_packet_served [OF assms(1) snd _ this, of nm1] d assms(4)
  obtain nm' where nm': "process_packet nm pkt = (nm', Inr (Some (peer, out)))" "nm_inv nm'"
    "nm_info nm' = nm_info nm" "nm_registry nm' = nm_registry nm" "nm_appLocks nm' = nm_appLocks nm"
    "nm_peers nm' = (nm_peers nm)(c_Username s \<mapsto> Some s)" "nm_active nm' = nm_active nm @ [Some s]"
    "nl_Packets (nm_log nm') = nl_Packets (nm_log nm1) + 1"
    "rt_Update (nm_router nm1) (Some s) = (nm_router nm', Inr ())"
    by auto
  then show ?thesis by (auto simp: nm1_def)
qed

text \<open>
  A request on the wire: a datagram whose envelope names the routing service, one of its methods
  and a payload that decodes to a request is served by that method, and the encoded reply goes
  back to the peer it came from under the local contact; the sender is recorded as a known
  and active peer and entered into the routing table.
\<close>

lemma request_round_trip:
  assumes "nm_serving cd nm" and "udp_turn cd writes (Datagram peer raw) = Push pkt"
    and "p_RPC pkt = \<lparr>rpc_Service = routing_service, rpc_Method = meth, rpc_Sender = Some s, rpc_Payload = payload\<rparr>"
    and "request_decoder cd meth = Some dec" and "dec payload = Some req"
    and "serve_request (nm_router nm) req = (rt1, Inr rep)" and "pb_marshal_reply cd rep = Some body"
    and "pb_marshal_RPC cd \<lparr>rpc_Service = routing_service, rpc_Method = meth, rpc_Sender = nm_info nm,
           rpc_Payload = body\<rparr> = Some out" and "writes peer out"
  shows "\<exists>nm'. process_packet nm pkt = (nm', Inr (Some (peer, out))) \<and> nm_serving cd nm'
    \<and> nm_peers nm' = (nm_peers nm)(c_Username s \<mapsto> Some s) \<and> nm_active nm' = nm_active nm @ [Some s]
    \<and> nl_Packets (nm_log nm') = nl_Packets (nm_log nm) + 1
    \<and> rt_Update rt1 (Some s) = (nm_router nm', Inr ()) \<and> rt_inv (nm_router nm')"
proof -
  have inv: "nm_inv nm" and reg: "nm_registry nm (lookup_lock nm routing_service) = Some (routing_registry cd)"
    using assms(1) by (simp_all add: nm_serving_def)
  obtain nm' where nm': "process_packet nm pkt = (nm', Inr (Some (peer, out)))" "nm_inv nm'"
    "nm_registry nm' = nm_registry nm" "nm_appLocks nm' = nm_appLocks nm"
    "nm_peers nm' = (nm_peers nm)(c_Username s \<mapsto> Some s)" "nm_active nm' = nm_active nm @ [Some s]"
    "nl_Packets (nm_log nm') = nl_Packets (nm_log nm) + 1" "rt_Update rt1 (Some s) = (nm_router nm', Inr ())"
    using served_request [OF inv reg assms(2-9)] by blast
  moreover have "nm_serving cd nm'"
    using nm'(2-4) assms(1) lookup_lock_frame [OF nm'(4)] by (simp add: nm_serving_def)
  ultimately show ?thesis by (auto simp: nm_inv_def table_ok_def)
qed

text \<open>
  Life cycle: stopping a started manager closes its socket and its channel and keeps the rest
  of its state; stopping it again panics on the closed channel.
\<close>

lemma shutdown_once:
  assumes "nm_Start resolve listens nm = (nm1, Inr ())"
  shows "\<exists>nm2 u. nm_Shutdown nm1 = (nm2, Inr ())
    \<and> nm_udpServ nm2 = Some u \<and> \<not> us_open u \<and> us_cancel u = Some True \<and> nm_receiver nm2 = Some ChanClosed
    \<and> shared.truncate nm2 = shared.truncate nm \<and> nm_peers nm2 = nm_peers nm \<and> nm_registry nm2 = nm_registry nm
    \<and> snd (nm_Shutdown nm2) = Inl (Panic ClosedChannel)"
proof -
  obtain usrv where "nm1 = nm\<lparr>nm_receiver := Some ChanOpen, nm_udpServ := Some (udp_Start usrv)\<rparr>"
    using assms by (auto simp: nm_Start_def Let_def split: option.splits sum.splits)
  then show ?thesis
    by (simp add: nm_Shutdown_def udp_Stop_def udp_Start_def shared.truncate_def)
qed

end
