(* ===== verification/Invoke.thy ===== *)
theory Invoke
  imports Manager
begin

text \<open>
  The calling side, \<open>network/invoke.go\<close>: one RPC over UDP, and what a node learns from
  the reply. The network is the record \<open>client_net\<close>: whether an address resolves, whether it can be
  dialled, and what writing a datagram to it brings back.
\<close>

datatype exchange = SendFailed | ReadFailed | Received bytes

record client_net =
  cn_resolves :: "string \<Rightarrow> bool"
  cn_dials :: "string \<Rightarrow> bool"
  cn_exchange :: "string \<Rightarrow> bytes \<Rightarrow> exchange"

datatype invoke_error =
    MarshalPayload string string
  | MarshalEnvelope
  | ResolveAddr string
  | DialUDP string
  | SendTo string
  | ReadFrom string
  | UnmarshalEnvelope
  | UnmarshalResponse string string
  | UnexpectedResponse

text \<open>
  The typed request, the holder the caller passes for the response (\<open>WantNilAck\<close> is the nil
  \<open>*router.ACK\<close> of \<open>Node.Put\<close>), and the response in it.
\<close>

datatype client_request = SendRouter request | SendRPC rpc

datatype holder = WantAck | WantNodes | WantRPC | WantNilAck

datatype response = GotAck ack | GotNodes nodes | GotRPC rpc

definition marshal_request :: "'z router_codec_scheme \<Rightarrow> client_request \<Rightarrow> bytes option" where
  "marshal_request cd req =
     (case req of SendRouter r \<Rightarrow> pb_marshal_request cd r | SendRPC r \<Rightarrow> pb_marshal_RPC cd r)"

text \<open>
  \<open>proto.Unmarshal\<close> first calls the generated \<open>Reset\<close>, which writes through the pointer.
\<close>

definition unmarshal_response :: "'z router_codec_scheme \<Rightarrow> holder \<Rightarrow> bytes
    \<Rightarrow> (invoke_error, response option) go" where
  "unmarshal_response cd h b =
     (case h of
        WantAck \<Rightarrow> Inr (map_option GotAck (pb_ACK cd b))
      | WantNodes \<Rightarrow> Inr (map_option GotNodes (pb_NODES cd b))
      | WantRPC \<Rightarrow> Inr (map_option GotRPC (pb_unmarshal_RPC cd b))
      | WantNilAck \<Rightarrow> Inl (Panic NilDereference))"

text \<open>The statements both branches run on a contact they learn of, under the lock.\<close>

definition note_peer :: "network_manager \<Rightarrow> string \<Rightarrow> cptr \<Rightarrow> network_manager \<times> (invoke_error, unit) go" where
  "note_peer nm name peer =
     (let nm = nm\<lparr>nm_peers := (nm_peers nm)(name \<mapsto> peer), nm_active := mark_active peer (nm_active nm)\<rparr> in
      case rt_Update (nm_router nm) peer of
        (rt, Inl (Panic p)) \<Rightarrow> (nm\<lparr>nm_router := rt\<rparr>, Inl (Panic p))
      | (rt, Inl Blocked) \<Rightarrow> (nm\<lparr>nm_router := rt\<rparr>, Inl Blocked)
      | (rt, _) \<Rightarrow> (nm\<lparr>nm_router := rt\<rparr>, Inr ()))"

fun note_nodes :: "network_manager \<Rightarrow> cptr list \<Rightarrow> network_manager \<times> (invoke_error, unit) go" where
  "note_nodes nm [] = (nm, Inr ())"
| "note_nodes nm (peer # ps) =
     (case note_peer nm (GetUsername peer) peer of
        (nm, Inl e) \<Rightarrow> (nm, Inl e)
      | (nm, Inr _) \<Rightarrow> note_nodes nm ps)"

text \<open>The helper \<open>updatePeer\<close>, which enters the table first and takes no lock.\<close>

definition updatePeer :: "network_manager \<Rightarrow> cptr \<Rightarrow> network_manager \<times> (invoke_error, unit) go" where
  "updatePeer nm peer =
     (case rt_Update (nm_router nm) peer of
        (rt, Inl (Panic p)) \<Rightarrow> (nm\<lparr>nm_router := rt\<rparr>, Inl (Panic p))
      | (rt, Inl Blocked) \<Rightarrow> (nm\<lparr>nm_router := rt\<rparr>, Inl Blocked)
      | (rt, _) \<Rightarrow>
          (case peer of
             None \<Rightarrow> (nm\<lparr>nm_router := rt\<rparr>, Inl (Panic NilDereference))
           | Some c \<Rightarrow> (nm\<lparr>nm_router := rt, nm_peers := (nm_peers nm)(c_Username c \<mapsto> peer),
                           nm_active := mark_active peer (nm_active nm)\<rparr>, Inr ())))"

definition kademlia_service :: string where "kademlia_service = ''routing.KademliaService''"

text \<open>The last part of \<open>InvokeRPC\<close>: what the decoded response does to the manager.\<close>

definition handle_response :: "network_manager \<Rightarrow> string \<Rightarrow> string \<Rightarrow> response
    \<Rightarrow> network_manager \<times> (invoke_error, unit) go" where
  "handle_response nm service meth resp =
     (if service \<noteq> kademlia_service then (nm, Inr ())
      else if meth = ''Ping'' then
        (case resp of
           GotAck a \<Rightarrow>
             (case ack_From a of
                None \<Rightarrow> (nm, Inl (Panic NilDereference))
              | Some peer \<Rightarrow> note_peer nm (c_Username peer) (Some peer))
         | _ \<Rightarrow> (nm, Inl (Err UnexpectedResponse)))
      else if meth = ''FindNode'' then
        (case resp of
           GotNodes ns \<Rightarrow>
             (case nodes_From ns of
                None \<Rightarrow> (nm, Inl (Panic NilDereference))
              | Some _ \<Rightarrow> note_nodes nm (nodes_Nodes ns))
         | _ \<Rightarrow> (nm, Inl (Err UnexpectedResponse)))
      else if meth = ''Store'' then
        (case resp of
           GotAck a \<Rightarrow>
             (case ack_From a of
                None \<Rightarrow> (nm, Inl (Panic NilDereference))
              | Some _ \<Rightarrow> (nm, Inr ()))
         | _ \<Rightarrow> (nm, Inl (Err UnexpectedResponse)))
      else (nm, Inr ()))"

text \<open>The first part: from the request to the decoded response.\<close>

definition exchange_rpc :: "'z router_codec_scheme \<Rightarrow> client_net \<Rightarrow> cptr \<Rightarrow> string \<Rightarrow> string \<Rightarrow> string
    \<Rightarrow> client_request \<Rightarrow> holder \<Rightarrow> (invoke_error, response) go" where
  "exchange_rpc cd net info peerAddr service meth req h =
     (case marshal_request cd req of
        None \<Rightarrow> Inl (Err (MarshalPayload service meth))
      | Some payload \<Rightarrow>
     (case pb_marshal_RPC cd \<lparr>rpc_Service = service, rpc_Method = meth, rpc_Sender = info,
                              rpc_Payload = payload\<rparr> of
        None \<Rightarrow> Inl (Err MarshalEnvelope)
      | Some data \<Rightarrow>
      if \<not> cn_resolves net peerAddr then Inl (Err (ResolveAddr peerAddr))
      else if \<not> cn_dials net peerAddr then Inl (Err (DialUDP peerAddr))
      else (case cn_exchange net peerAddr data of
        SendFailed \<Rightarrow> Inl (Err (SendTo peerAddr))
      | ReadFailed \<Rightarrow> Inl (Err (ReadFrom peerAddr))
      | Received b \<Rightarrow>
     (case pb_unmarshal_RPC cd (take recv_buffer b) of
        None \<Rightarrow> Inl (Err UnmarshalEnvelope)
      | Some replyEnv \<Rightarrow>
     (case unmarshal_response cd h (rpc_Payload replyEnv) of
        Inl e \<Rightarrow> Inl e
      | Inr None \<Rightarrow> Inl (Err (UnmarshalResponse service meth))
      | Inr (Some resp) \<Rightarrow> Inr resp)))))"

text \<open>The response is returned beside the state, for the caller that reads its holder.\<close>

definition InvokeRPC :: "'z router_codec_scheme \<Rightarrow> client_net \<Rightarrow> network_manager \<Rightarrow> string \<Rightarrow> string \<Rightarrow> string
    \<Rightarrow> client_request \<Rightarrow> holder \<Rightarrow> network_manager \<times> (invoke_error, response) go" where
  "InvokeRPC cd net nm peerAddr service meth req h =
     (case nm_info nm of
        None \<Rightarrow> (nm, Inl (Panic NilDereference))
      | Some _ \<Rightarrow>
     (case exchange_rpc cd net (nm_info nm) peerAddr service meth req h of
        Inl e \<Rightarrow> (nm, Inl e)
      | Inr resp \<Rightarrow>
          (case handle_response nm service meth resp of
             (nm, Inl e) \<Rightarrow> (nm, Inl e)
           | (nm, Inr _) \<Rightarrow> (nm, Inr resp))))"

section \<open>Lemmas\<close>

lemma note_peer_ok:
  assumes "nm_inv nm"
  shows "\<exists>nm'. note_peer nm name peer = (nm', Inr ()) \<and> nm_inv nm' \<and> nm_info nm' = nm_info nm
     \<and> nm_registry nm' = nm_registry nm \<and> nm_appLocks nm' = nm_appLocks nm
     \<and> nm_peers nm' = (nm_peers nm)(name \<mapsto> peer)
     \<and> nm_log nm' = nm_log nm \<and> rt_Update (nm_router nm) peer = (nm_router nm', Inr ())"
proof -
  let ?nm = "nm\<lparr>nm_peers := (nm_peers nm)(name \<mapsto> peer), nm_active := mark_active peer (nm_active nm)\<rparr>"
  have "nm_inv ?nm" using assms by simp
  from nm_inv_update [OF this, of peer] obtain rt where
    "rt_Update (nm_router nm) peer = (rt, Inr ())" "nm_inv (?nm\<lparr>nm_router := rt\<rparr>)"
    by auto
  then show ?thesis by (simp add: note_peer_def)
qed

lemma note_nodes_ok:
  assumes "nm_inv nm"
  shows "\<exists>nm'. note_nodes nm ps = (nm', Inr ()) \<and> nm_inv nm' \<and> nm_info nm' = nm_info nm
     \<and> nm_registry nm' = nm_registry nm \<and> nm_appLocks nm' = nm_appLocks nm"
  using assms
proof (induction ps arbitrary: nm)
  case (Cons p ps)
  then obtain nm1 where "note_peer nm (GetUsername p) p = (nm1, Inr ())" "nm_inv nm1"
    "nm_info nm1 = nm_info nm" "nm_registry nm1 = nm_registry nm" "nm_appLocks nm1 = nm_appLocks nm"
    using note_peer_ok by metis
  then show ?case using Cons.IH [of nm1] by simp
qed simp

text \<open>The contact a routing response must carry, and which methods read it.\<close>

fun response_from :: "response \<Rightarrow> cptr" where
  "response_from (GotAck a) = ack_From a"
| "response_from (GotNodes ns) = nodes_From ns"
| "response_from (GotRPC r) = rpc_Sender r"

lemma handle_response_cases:
  assumes "nm_inv nm" and "handle_response nm service meth resp = (nm', r)"
  shows "nm_inv nm' \<and> nm_info nm' = nm_info nm \<and> nm_registry nm' = nm_registry nm
     \<and> nm_appLocks nm' = nm_appLocks nm \<and> r \<noteq> Inl Blocked
     \<and> (service \<noteq> kademlia_service \<or> meth \<notin> {''Ping'', ''FindNode''} \<longrightarrow> nm' = nm)
     \<and> (\<forall>p. r = Inl (Panic p) \<longrightarrow> service = kademlia_service \<and> response_from resp = None)"
proof (cases resp)
  case (GotAck a)
  obtain nm1 where "note_peer nm (GetUsername (ack_From a)) (ack_From a) = (nm1, Inr ())" "nm_inv nm1"
    "nm_info nm1 = nm_info nm" "nm_registry nm1 = nm_registry nm" "nm_appLocks nm1 = nm_appLocks nm"
    using note_peer_ok [OF assms(1)] by metis
  then show ?thesis using assms GotAck
    by (auto simp: handle_response_def GetUsername_def split: if_splits option.splits)
next
  case (GotNodes ns)
  obtain nm1 where "note_nodes nm (nodes_Nodes ns) = (nm1, Inr ())" "nm_inv nm1"
    "nm_info nm1 = nm_info nm" "nm_registry nm1 = nm_registry nm" "nm_appLocks nm1 = nm_appLocks nm"
    using note_nodes_ok [OF assms(1)] by metis
  then show ?thesis using assms GotNodes
    by (auto simp: handle_response_def split: if_splits option.splits)
qed (use assms in \<open>auto simp: handle_response_def split: if_splits\<close>)

lemma exchange_rpc_no_panic:
  "h \<noteq> WantNilAck \<Longrightarrow> exchange_rpc cd net info addr service meth req h = Inl f \<Longrightarrow> \<exists>e. f = Err e"
  by (cases h) (auto simp: exchange_rpc_def unmarshal_response_def
      split: option.splits exchange.splits if_splits)

text \<open>A net on which every peer answers with the bytes \<open>b\<close>.\<close>

definition echo_net :: "bytes \<Rightarrow> client_net" where
  "echo_net b = \<lparr>cn_resolves = (\<lambda>_. True), cn_dials = (\<lambda>_. True), cn_exchange = (\<lambda>_ _. Received b)\<rparr>"

definition client_codec :: router_codec where
  "client_codec = demo_codec\<lparr>pb_marshal_request := (\<lambda>_. Some [])\<rparr>"

section \<open>Properties\<close>

lemma InvokeRPC_cases:
  assumes "nm_inv nm" and "InvokeRPC cd net nm addr service meth req h = (nm', r)"
  shows "nm_inv nm' \<and> nm_info nm' = nm_info nm \<and> nm_registry nm' = nm_registry nm
    \<and> nm_appLocks nm' = nm_appLocks nm \<and> r \<noteq> Inl Blocked
    \<and> (service \<noteq> kademlia_service \<or> meth \<notin> {''Ping'', ''FindNode''} \<longrightarrow> nm' = nm)
    \<and> (\<forall>p. r = Inl (Panic p) \<longrightarrow> h = WantNilAck \<or> (service = kademlia_service
          \<and> (\<exists>resp. exchange_rpc cd net (nm_info nm) addr service meth req h = Inr resp
               \<and> response_from resp = None)))"
proof -
  obtain info where info: "nm_info nm = Some info" using assms(1) by (auto simp: nm_inv_def)
  show ?thesis
  proof (cases "exchange_rpc cd net (nm_info nm) addr service meth req h")
    case (Inl f)
    have "f \<noteq> Blocked"
      using Inl by (cases h) (auto simp: exchange_rpc_def unmarshal_response_def
        split: option.splits exchange.splits if_splits)
    then show ?thesis
      using assms info Inl exchange_rpc_no_panic [of h cd net "nm_info nm" addr service meth req f]
      by (cases "h = WantNilAck") (auto simp: InvokeRPC_def)
  next
    case (Inr resp)
    obtain nm1 r1 where hr: "handle_response nm service meth resp = (nm1, r1)" by fastforce
    show ?thesis
      using handle_response_cases [OF assms(1) hr] assms(2) info Inr hr
      by (cases r1) (auto simp: InvokeRPC_def)
  qed
qed

text \<open>
  C16. Invoking an RPC is safe for the caller: on a well-formed manager it never blocks and leaves a well-formed
  manager with the same services; only a \<open>Ping\<close> or \<open>FindNode\<close> of \<open>routing.KademliaService\<close>
  can change the manager at all; and it panics only when the caller passed a nil holder or the
  peer left out the \<open>From\<close> contact of a reply of that service.
\<close>

theorem InvokeRPC_safe:
  assumes "nm_inv nm" and "InvokeRPC cd net nm addr service meth req h = (nm', r)"
  shows "nm_inv nm' \<and> nm_info nm' = nm_info nm \<and> nm_registry nm' = nm_registry nm
    \<and> nm_appLocks nm' = nm_appLocks nm \<and> r \<noteq> Inl Blocked
    \<and> (service \<noteq> kademlia_service \<or> meth \<notin> {''Ping'', ''FindNode''} \<longrightarrow> nm' = nm)
    \<and> (\<forall>p. r = Inl (Panic p) \<longrightarrow> h = WantNilAck \<or> (service = kademlia_service
          \<and> (\<exists>resp. exchange_rpc cd net (nm_info nm) addr service meth req h = Inr resp
               \<and> response_from resp = None)))"
  by (rule InvokeRPC_cases [OF assms])

theorem InvokeRPC_safe_witness:
  "\<exists>nm nm' r. nm_inv nm \<and> InvokeRPC client_codec (echo_net [5]) nm ''a:1'' routing_service ''FindNode''
      (SendRouter (ReqPing \<lparr>ping_From = None, ping_Value = []\<rparr>)) WantAck = (nm', r) \<and> nm' = nm"
proof -
  obtain nm where nm: "nm_inv nm" using demo_manager by (metis nm_serving_def)
  obtain nm' r where "InvokeRPC client_codec (echo_net [5]) nm ''a:1'' routing_service ''FindNode''
      (SendRouter (ReqPing \<lparr>ping_From = None, ping_Value = []\<rparr>)) WantAck = (nm', r)" by fastforce
  from InvokeRPC_safe [OF nm this] this nm show ?thesis
    by (auto simp: routing_service_def kademlia_service_def)
qed

text \<open>
  A successful ping introduces the peer: the contact in the acknowledgement is recorded under
  its user name and entered into the routing table, where it replaces every entry with its
  identifier; it is in the table afterwards, or its bucket holds \<open>k\<close> peers that are all at
  most as far from the local node.
\<close>

lemma Ping_learns_peer:
  assumes "nm_inv nm" and "exchange_rpc cd net (nm_info nm) addr kademlia_service ''Ping'' req WantAck = Inr (GotAck a)"
    and "ack_From a = Some peer" and "nid (Some peer) \<noteq> localID (nm_router nm)"
  shows "\<exists>nm'. InvokeRPC cd net nm addr kademlia_service ''Ping'' req WantAck = (nm', Inr (GotAck a))
    \<and> nm_inv nm' \<and> nm_peers nm' = (nm_peers nm)(c_Username peer \<mapsto> Some peer)
    \<and> updated_with (nm_router nm) (nm_router nm') (Some peer)"
proof -
  obtain nm' where nm': "note_peer nm (c_Username peer) (Some peer) = (nm', Inr ())" "nm_inv nm'"
    "nm_peers nm' = (nm_peers nm)(c_Username peer \<mapsto> Some peer)"
    "rt_Update (nm_router nm) (Some peer) = (nm_router nm', Inr ())"
    using note_peer_ok [OF assms(1)] by metis
  have "rt_inv (nm_router nm)" using assms(1) by (simp add: nm_inv_def table_ok_def)
  from rt_Update_total [OF this assms(4)] nm'(4)
  have "updated_with (nm_router nm) (nm_router nm') (Some peer)" by auto
  moreover have "nm_info nm \<noteq> None" using assms(1) by (simp add: nm_inv_def)
  ultimately show ?thesis
    using nm' assms(2,3) by (auto simp: InvokeRPC_def handle_response_def)
qed

end
