(* ===== verification/Lookup.thy ===== *)
theory Lookup
  imports Invoke
begin

text \<open>
  The iterative lookup, \<open>Lookup\<close> of \<open>network/manager.go\<close>. The network of round \<open>n\<close> is \<open>nets n\<close>. What the code leaves
  open is a \<open>lookup_env\<close>: \<open>sort.Slice\<close>, of which only its contract is used, and which of the open
  requests are answered, in which order, before a round ends. A request that misses the three-second limit of its round
  stays open; its goroutine can append its answer to the shared shortlist in any later round, also after the
  last one, before the final sort. The loop is written without a termination proof; that it ends on every network, whatever the
  sort does with contacts at the same distance, is a theorem.
\<close>

datatype lookup_error = InitialFindClosestK rt_error

record lookup_env =
  le_sort :: "(cptr \<Rightarrow> cptr \<Rightarrow> bool) \<Rightarrow> cptr list \<Rightarrow> cptr list"
  le_arrives :: "nat \<Rightarrow> (nat \<times> cptr) list \<Rightarrow> (nat \<times> cptr) list"

definition lookup_env_ok :: "lookup_env \<Rightarrow> bool" where
  "lookup_env_ok env \<longleftrightarrow> slice_sorter (le_sort env) \<and> (\<forall>n out. set (le_arrives env n out) \<subseteq> set out)"

definition conv_id :: "cptr \<Rightarrow> nodeid" where
  "conv_id c = take KeyBytes (GetId c)"

definition closer_target :: "nodeid \<Rightarrow> cptr \<Rightarrow> cptr \<Rightarrow> bool" where
  "closer_target target x y = CompareXorDistance (conv_id x) (conv_id y) target"

definition short_id :: "cptr \<Rightarrow> bool" where
  "short_id c \<longleftrightarrow> length (GetId c) < KeyBytes"

text \<open>
  \<open>sort.Slice\<close> with the conversion \<open>api.NodeID\<close> in its comparison, which panics on a short identifier. Every
  element of a slice of two or more is compared.
\<close>

definition sort_contacts :: "lookup_env \<Rightarrow> nodeid \<Rightarrow> cptr list \<Rightarrow> (lookup_error, cptr list) go" where
  "sort_contacts env target ss =
     (if 2 \<le> length ss \<and> list_ex short_id ss then Inl (Panic SliceTooShort)
      else Inr (le_sort env (closer_target target) ss))"

definition trim :: "int \<Rightarrow> cptr list \<Rightarrow> (lookup_error, cptr list) go" where
  "trim k ss =
     (if k < int (length ss) then (if k < 0 then Inl (Panic SliceBounds) else Inr (take (nat k) ss))
      else Inr ss)"

text \<open>The loop that picks up to \<open>alpha\<close> peers whose address was not queried yet.\<close>

fun pick :: "int \<Rightarrow> cptr list \<Rightarrow> string set \<Rightarrow> cptr list \<Rightarrow> (lookup_error, string set \<times> cptr list) go" where
  "pick alpha [] q tq = Inr (q, tq)"
| "pick alpha (c # cs) q tq =
     (case GetUDPAddress c of
        Inl e \<Rightarrow> Inl e
      | Inr addr \<Rightarrow>
          if addr \<notin> q \<and> int (length tq) < alpha then pick alpha cs (insert addr q) (tq @ [c])
          else pick alpha cs q tq)"

text \<open>The answers to a list of requests, each with the round in which it was sent.\<close>

fun query_peers :: "'z router_codec_scheme \<Rightarrow> (nat \<Rightarrow> client_net) \<Rightarrow> network_manager \<Rightarrow> nodeid \<Rightarrow> (nat \<times> cptr) list
    \<Rightarrow> (lookup_error, cptr list) go" where
  "query_peers cd nets nm target [] = Inr []"
| "query_peers cd nets nm target ((n, c) # cs) =
     (case GetUDPAddress c of
        Inl e \<Rightarrow> Inl e
      | Inr addr \<Rightarrow>
          (case snd (InvokeRPC cd (nets n) nm addr routing_service ''FindNode''
                 (SendRouter (ReqFindNode \<lparr>fn_From = nm_info nm, fn_TargetId = target\<rparr>)) WantNodes) of
             Inl (Panic p) \<Rightarrow> Inl (Panic p)
           | Inr (GotNodes ns) \<Rightarrow> map_sum id (append (nodes_Nodes ns)) (query_peers cd nets nm target cs)
           | _ \<Rightarrow> query_peers cd nets nm target cs))"

section \<open>The loop\<close>

text \<open>
  \<open>prev\<close> is \<open>prevFurthest\<close>, whose zero value means no earlier round, and \<open>out\<close> the requests still open. An
  empty shortlist makes the function return nil. \<open>None\<close> is a loop that does not end.
\<close>

definition with_late :: "lookup_env \<Rightarrow> 'z router_codec_scheme \<Rightarrow> (nat \<Rightarrow> client_net) \<Rightarrow> network_manager \<Rightarrow> nodeid
    \<Rightarrow> nat \<Rightarrow> (nat \<times> cptr) list \<Rightarrow> cptr list \<Rightarrow> (lookup_error, cptr list) go" where
  "with_late env cd nets nm target n out short =
     map_sum id (append short) (query_peers cd nets nm target (le_arrives env n out))"

definition open_after :: "lookup_env \<Rightarrow> nat \<Rightarrow> (nat \<times> cptr) list \<Rightarrow> (nat \<times> cptr) list" where
  "open_after env n out = filter (\<lambda>x. x \<notin> set (le_arrives env n out)) out"

partial_function (option) lookup_loop :: "lookup_env \<Rightarrow> 'z router_codec_scheme \<Rightarrow> (nat \<Rightarrow> client_net)
    \<Rightarrow> network_manager \<Rightarrow> nodeid \<Rightarrow> nat \<Rightarrow> cptr list \<Rightarrow> string set \<Rightarrow> nodeid \<Rightarrow> (nat \<times> cptr) list
    \<Rightarrow> (lookup_error, cptr list) go option" where
  "lookup_loop env cd nets nm target n shortlist queried prev out =
     (if shortlist = [] then Some (Inr [])
      else case sort_contacts env target shortlist of
        Inl e \<Rightarrow> Some (Inl e)
      | Inr srtd \<Rightarrow>
     (case trim (cf_K (nm_cfg nm)) srtd of
        Inl e \<Rightarrow> Some (Inl e)
      | Inr short \<Rightarrow>
      if short = [] then Some (Inl (Panic IndexOutOfRange))
      else if short_id (last short) then Some (Inl (Panic SliceTooShort))
      else if prev \<noteq> zero_id \<and> \<not> LessDistance (XorDistance (conv_id (last short)) target) prev
      then Some (with_late env cd nets nm target n out short)
      else if cf_Alpha (nm_cfg nm) < 0 then Some (Inl (Panic NegativeMake))
      else (case pick (cf_Alpha (nm_cfg nm)) short queried [] of
        Inl e \<Rightarrow> Some (Inl e)
      | Inr (queried', toQuery) \<Rightarrow>
      if toQuery = [] then Some (with_late env cd nets nm target n out short)
      else (case query_peers cd nets nm target (le_arrives env n (out @ map (Pair n) toQuery)) of
        Inl e \<Rightarrow> Some (Inl e)
      | Inr new \<Rightarrow> lookup_loop env cd nets nm target (Suc n) (short @ new) queried'
          (XorDistance (conv_id (last short)) target) (open_after env n (out @ map (Pair n) toQuery))))))"

definition Lookup :: "'z router_codec_scheme \<Rightarrow> (nat \<Rightarrow> client_net) \<Rightarrow> lookup_env
    \<Rightarrow> network_manager \<Rightarrow> nodeid \<Rightarrow> (lookup_error, cptr list) go" where
  "Lookup cd nets env nm target =
     (case ClosestK (nm_router nm) target of
        Inl e \<Rightarrow> Inl (map_failure InitialFindClosestK e)
      | Inr shortlist \<Rightarrow>
     (case lookup_loop env cd nets nm target 0 shortlist {} zero_id [] of
        None \<Rightarrow> Inl Blocked
      | Some (Inl e) \<Rightarrow> Inl e
      | Some (Inr shortlist) \<Rightarrow>
     (case sort_contacts env target shortlist of
        Inl e \<Rightarrow> Inl e
      | Inr srtd \<Rightarrow> trim (cf_K (nm_cfg nm)) srtd)))"

section \<open>Sorting and trimming\<close>

definition ldist :: "nodeid \<Rightarrow> cptr \<Rightarrow> nat" where
  "ldist target c = id_val (XorDistance (conv_id c) target)"

lemma closer_target_ldist: "closer_target t x y \<longleftrightarrow> ldist t x < ldist t y"
  by (simp add: closer_target_def CompareXorDistance_def LessDistance_id_val ldist_def)

definition top_k :: "lookup_env \<Rightarrow> nodeid \<Rightarrow> nat \<Rightarrow> cptr list \<Rightarrow> cptr list" where
  "top_k env t k ss = take k (le_sort env (closer_target t) ss)"

lemma lookup_env_okD:
  assumes "lookup_env_ok env"
  shows "slice_sorter (le_sort env)" and "set (le_arrives env n out) \<subseteq> set out"
  using assms by (simp_all add: lookup_env_ok_def)

lemma length_top: "lookup_env_ok env \<Longrightarrow> length (top_k env t k ss) = min k (length ss)"
  unfolding top_k_def by (intro slice_sorter.top_length lookup_env_okD)

lemma set_top_k: "lookup_env_ok env \<Longrightarrow> set (top_k env t k ss) \<subseteq> set ss"
  unfolding top_k_def by (intro slice_sorter.top_subset lookup_env_okD)

lemma top_all: "lookup_env_ok env \<Longrightarrow> length ss \<le> k \<Longrightarrow> set (top_k env t k ss) = set ss"
  by (simp add: top_k_def slice_sorter.srt_set slice_sorter.srt_length lookup_env_okD)

lemma map_top_k: "lookup_env_ok env \<Longrightarrow> map (ldist t) (top_k env t k ss) = take k (sort (map (ldist t) ss))"
  by (simp add: top_k_def slice_sorter.srt_map_sort [OF lookup_env_okD(1)] closer_target_ldist flip: take_map)

definition udp_addr :: "cptr \<Rightarrow> string" where
  "udp_addr p = (case p of None \<Rightarrow> '''' | Some c \<Rightarrow> c_Address c @ '':'' @ c_UdpPort c)"

lemma trim_top: "0 \<le> k \<Longrightarrow> lookup_env_ok env \<Longrightarrow> trim k (le_sort env (closer_target t) ss) = Inr (top_k env t (nat k) ss)"
  by (auto simp: trim_def top_k_def)

section \<open>The distances of a shortlist\<close>

lemma take_sort_Cons:
  fixes d :: nat
  assumes "k \<le> length (filter (\<lambda>x. x \<le> d) xs)"
  shows "take k (sort (d # xs)) = take k (sort xs)"
proof -
  let ?a = "filter (\<lambda>x. x \<le> d) (sort xs)" and ?b = "filter (\<lambda>x. \<not> x \<le> d) (sort xs)"
  have sa: "sorted ?a" "sorted ?b" by (simp_all add: sorted_filter [of "\<lambda>x. x", simplified])
  then have so: "sorted (?a @ ?b)" "sorted (?a @ d # ?b)" by (auto simp: sorted_append)
  have m: "mset ?a + mset ?b = mset xs" by (simp flip: multiset_partition)
  have len: "k \<le> length ?a" using assms by (metis filter_sort length_sort)
  have "sort xs = ?a @ ?b"
    by (rule properties_for_sort [OF _ so(1)]) (simp only: mset_append m)
  moreover have "sort (d # xs) = ?a @ d # ?b"
    by (rule properties_for_sort [OF _ so(2)])
      (simp only: mset_append mset.simps union_mset_add_mset_right m)
  moreover have "take k (?a @ d # ?b) = take k (?a @ ?b)" using len by simp
  ultimately show ?thesis by (simp only:)
qed

lemma take_sort_append:
  fixes ds :: "nat list"
  assumes "\<forall>d\<in>set ds. k \<le> length (filter (\<lambda>x. x \<le> d) xs)"
  shows "take k (sort (ds @ xs)) = take k (sort xs)"
  using assms
proof (induction ds)
  case (Cons d ds)
  then have "k \<le> length (filter (\<lambda>x. x \<le> d) (ds @ xs))" by (simp add: trans_le_add2)
  then show ?case using Cons take_sort_Cons [of k d "ds @ xs"] by (simp del: sort_key_simps)
qed simp

lemma sort_mset_eq: "mset xs = mset ys \<Longrightarrow> sort xs = sort (ys :: nat list)"
  by (rule properties_for_sort) simp_all

text \<open>Trimming before more candidates are added loses nothing.\<close>

lemma take_sort_take:
  fixes xs :: "nat list"
  shows "take k (sort (take k (sort xs) @ ys)) = take k (sort (xs @ ys))"
proof (cases "k \<le> length xs")
  case True
  let ?t = "take k (sort xs)" and ?d = "drop k (sort xs)"
  have "sort (xs @ ys) = sort (?d @ ?t @ ys)"
  proof (rule sort_mset_eq)
    have "mset xs = mset (?t @ ?d)" by (simp only: append_take_drop_id mset_sort)
    then show "mset (xs @ ys) = mset (?d @ ?t @ ys)" by (simp del: append_take_drop_id)
  qed
  moreover have "k \<le> length (filter (\<lambda>x. x \<le> d) (?t @ ys))" if "d \<in> set ?d" for d
  proof -
    have "\<forall>x\<in>set ?t. x \<le> d" using sorted_take_le_drop [of "\<lambda>x. x" "sort xs" _ k d] that by auto
    then have "filter (\<lambda>x. x \<le> d) ?t = ?t" by (simp only: filter_id_conv)
    then show ?thesis using True by simp
  qed
  ultimately show ?thesis using take_sort_append [of ?d k "?t @ ys"] by simp
next
  case False
  then show ?thesis using sort_mset_eq [of "sort xs @ ys" "xs @ ys"] by simp
qed

section \<open>What a lookup returns\<close>

definition whole :: "cptr \<Rightarrow> bool" where
  "whole c \<longleftrightarrow> c \<noteq> None \<and> KeyBytes \<le> length (GetId c)"

text \<open>The contacts some peer answers to \<open>FindNode\<close> for the target in some round.\<close>

definition learned :: "'z router_codec_scheme \<Rightarrow> (nat \<Rightarrow> client_net) \<Rightarrow> network_manager \<Rightarrow> nodeid \<Rightarrow> cptr set" where
  "learned cd nets nm target =
     {c. \<exists>n addr ns. exchange_rpc cd (nets n) (nm_info nm) addr routing_service ''FindNode''
            (SendRouter (ReqFindNode \<lparr>fn_From = nm_info nm, fn_TargetId = target\<rparr>)) WantNodes = Inr (GotNodes ns)
          \<and> c \<in> set (nodes_Nodes ns)}"

text \<open>What all networks together can answer is finite: an answer is decoded from at most 64 KiB.\<close>

lemma exchange_rpc_decoded:
  assumes "exchange_rpc cd net info addr svc meth req h = Inr resp"
  obtains raw e where "length raw \<le> recv_buffer" and "pb_unmarshal_RPC cd raw = Some e"
    and "unmarshal_response cd h (rpc_Payload e) = Inr (Some resp)"
proof -
  obtain b e where "pb_unmarshal_RPC cd (take recv_buffer b) = Some e"
    "unmarshal_response cd h (rpc_Payload e) = Inr (Some resp)"
    using assms by (auto simp: exchange_rpc_def split: option.splits exchange.splits sum.splits if_splits)
  then show ?thesis using that [of "take recv_buffer b" e] by simp
qed

lemma finite_learned: "finite (learned cd nets nm target)"
proof -
  let ?raws = "{raw :: bytes. set raw \<subseteq> UNIV \<and> length raw \<le> recv_buffer}"
  let ?answer = "\<lambda>raw. case pb_unmarshal_RPC cd raw of None \<Rightarrow> [] | Some e \<Rightarrow>
    (case unmarshal_response cd WantNodes (rpc_Payload e) of Inr (Some (GotNodes ns)) \<Rightarrow> nodes_Nodes ns | _ \<Rightarrow> [])"
  have "learned cd nets nm target \<subseteq> (\<Union>raw\<in>?raws. set (?answer raw))"
  proof
    fix c assume "c \<in> learned cd nets nm target"
    then obtain n addr ns where got: "exchange_rpc cd (nets n) (nm_info nm) addr routing_service ''FindNode''
        (SendRouter (ReqFindNode \<lparr>fn_From = nm_info nm, fn_TargetId = target\<rparr>)) WantNodes = Inr (GotNodes ns)"
      and c: "c \<in> set (nodes_Nodes ns)" unfolding learned_def by blast
    obtain raw e where "length raw \<le> recv_buffer" "pb_unmarshal_RPC cd raw = Some e"
      "unmarshal_response cd WantNodes (rpc_Payload e) = Inr (Some (GotNodes ns))"
      using exchange_rpc_decoded [OF got] .
    then show "c \<in> (\<Union>raw\<in>?raws. set (?answer raw))" using c by (intro UN_I [of raw]) simp_all
  qed
  moreover have "finite ?raws" by (rule finite_lists_length_le) simp
  ultimately show ?thesis by (meson finite_UN_I finite_set finite_subset)
qed

lemma InvokeRPC_routing:
  "nm_info nm \<noteq> None \<Longrightarrow> snd (InvokeRPC cd net nm addr routing_service meth req h)
     = exchange_rpc cd net (nm_info nm) addr routing_service meth req h"
  by (auto simp: InvokeRPC_def handle_response_def routing_service_def kademlia_service_def split: sum.splits)

lemma query_peers_ok:
  assumes "nm_info nm \<noteq> None" and "\<forall>(n, c)\<in>set cs. c \<noteq> None"
  shows "\<exists>new. query_peers cd nets nm target cs = Inr new \<and> set new \<subseteq> learned cd nets nm target"
  using assms(2)
proof (induction cs)
  case (Cons nc cs)
  obtain n c where nc: "nc = (n, c)" by fastforce
  obtain a where a: "GetUDPAddress c = (Inr a :: (lookup_error, string) go)"
    using Cons.prems nc by (auto simp: GetUDPAddress_def)
  obtain new where new: "query_peers cd nets nm target cs = Inr new" "set new \<subseteq> learned cd nets nm target"
    using Cons by auto
  let ?r = "exchange_rpc cd (nets n) (nm_info nm) a routing_service ''FindNode''
     (SendRouter (ReqFindNode \<lparr>fn_From = nm_info nm, fn_TargetId = target\<rparr>)) WantNodes"
  have np: "?r \<noteq> Inl (Panic p)" for p using exchange_rpc_no_panic [of WantNodes] by fastforce
  show ?case
  proof (cases "\<exists>ns. ?r = Inr (GotNodes ns)")
    case True
    then obtain ns where ns: "?r = Inr (GotNodes ns)" by blast
    then have "set (nodes_Nodes ns) \<subseteq> learned cd nets nm target" by (auto simp: learned_def)
    then show ?thesis using new a ns nc by (simp add: InvokeRPC_routing assms(1))
  next
    case False
    then show ?thesis using new a np nc
      by (auto simp: InvokeRPC_routing assms(1) split: sum.split failure.split response.split)
  qed
qed simp

lemma sort_contacts_whole:
  "\<forall>c\<in>set ss. whole c \<Longrightarrow> sort_contacts env t ss = Inr (le_sort env (closer_target t) ss)"
  by (auto simp: sort_contacts_def short_id_def whole_def list_ex_iff)

section \<open>Rounds\<close>

text \<open>The contacts whose address is not yet queried, one per address, in order.\<close>

fun fresh :: "string set \<Rightarrow> cptr list \<Rightarrow> cptr list" where
  "fresh q [] = []"
| "fresh q (c # cs) = (if udp_addr c \<in> q then fresh q cs else c # fresh (insert (udp_addr c) q) cs)"

lemma fresh_props:
  "set (fresh q cs) \<subseteq> set cs \<and> distinct (map udp_addr (fresh q cs))
    \<and> udp_addr ` set (fresh q cs) = udp_addr ` set cs - q"
proof (induction cs arbitrary: q)
  case (Cons c cs)
  show ?case using Cons.IH [of q] Cons.IH [of "insert (udp_addr c) q"] by auto
qed simp

lemma pick_full:
  "\<forall>c\<in>set cs. c \<noteq> None \<Longrightarrow> alpha \<le> int (length tq) \<Longrightarrow> pick alpha cs q tq = Inr (q, tq)"
  by (induction cs) (auto simp: GetUDPAddress_def)

lemma pick_fresh:
  assumes "\<forall>c\<in>set cs. c \<noteq> None" and "int (length tq) \<le> alpha"
  shows "pick alpha cs q tq = Inr (q \<union> udp_addr ` set (take (nat alpha - length tq) (fresh q cs)),
    tq @ take (nat alpha - length tq) (fresh q cs))"
  using assms
proof (induction cs arbitrary: q tq)
  case (Cons c cs)
  have a: "GetUDPAddress c = (Inr (udp_addr c) :: (lookup_error, string) go)"
    using Cons.prems(1) by (auto simp: GetUDPAddress_def udp_addr_def)
  show ?case
  proof (cases "udp_addr c \<notin> q \<and> int (length tq) < alpha")
    case True
    then have "nat alpha - length tq = Suc (nat alpha - Suc (length tq))" by linarith
    then show ?thesis using True a Cons.IH [of "tq @ [c]" "insert (udp_addr c) q"] Cons.prems by simp
  next
    case False
    show ?thesis
    proof (cases "udp_addr c \<in> q")
      case True
      then show ?thesis using a Cons.IH [of tq q] Cons.prems by simp
    next
      case new: False
      then have full: "nat alpha - length tq = 0" "alpha \<le> int (length tq)" using False by auto
      then show ?thesis using a False Cons.prems pick_full [of cs alpha tq q] by simp
    qed
  qed
qed simp

text \<open>
  The history of a lookup from round \<open>n\<close>: for each round the contacts asked, the requests open while it waits and
  what arrives, then the shortlist at the end. \<open>p\<close> is the furthest distance of the round before and \<open>out\<close> the
  requests open at the beginning.
\<close>

record lookup_round =
  rd_asked :: "cptr list"
  rd_open :: "(nat \<times> cptr) list"
  rd_new :: "cptr list"

definition no_gain :: "nodeid \<Rightarrow> cptr list \<Rightarrow> nodeid \<Rightarrow> bool" where
  "no_gain t L p \<longleftrightarrow> p \<noteq> zero_id \<and> \<not> LessDistance (XorDistance (conv_id (last L)) t) p"

definition open_from :: "lookup_env \<Rightarrow> nat \<Rightarrow> (nat \<times> cptr) list \<Rightarrow> lookup_round list \<Rightarrow> (nat \<times> cptr) list" where
  "open_from env n out rs = (if rs = [] then out else open_after env (n + length rs - 1) (rd_open (last rs)))"

inductive history :: "lookup_env \<Rightarrow> nodeid \<Rightarrow> nat \<Rightarrow> nat \<Rightarrow> ((nat \<times> cptr) list \<Rightarrow> cptr list \<Rightarrow> bool)
    \<Rightarrow> nat \<Rightarrow> cptr list \<Rightarrow> string set \<Rightarrow> nodeid \<Rightarrow> (nat \<times> cptr) list \<Rightarrow> lookup_round list \<Rightarrow> cptr list \<Rightarrow> cptr list \<Rightarrow> bool"
  for env t k alpha answers where
  stop: "res = top_k env t k ss \<Longrightarrow> take alpha (fresh q res) = [] \<or> no_gain t res p \<Longrightarrow> answers (le_arrives env n out) late
    \<Longrightarrow> history env t k alpha answers n ss q p out [] res late"
| round: "L = top_k env t k ss \<Longrightarrow> asked = take alpha (fresh q L) \<Longrightarrow> asked \<noteq> []
    \<Longrightarrow> opn = out @ map (Pair n) asked \<Longrightarrow> answers (le_arrives env n opn) new
    \<Longrightarrow> history env t k alpha answers (Suc n) (L @ new) (q \<union> udp_addr ` set asked) (XorDistance (conv_id (last L)) t)
          (open_after env n opn) rs res late
    \<Longrightarrow> history env t k alpha answers n ss q p out (\<lparr>rd_asked = asked, rd_open = opn, rd_new = new\<rparr> # rs) res late"

definition answers_of :: "'z router_codec_scheme \<Rightarrow> (nat \<Rightarrow> client_net) \<Rightarrow> network_manager \<Rightarrow> nodeid
    \<Rightarrow> (nat \<times> cptr) list \<Rightarrow> cptr list \<Rightarrow> bool" where
  "answers_of cd nets nm target got new \<longleftrightarrow>
     query_peers cd nets nm target got = Inr new \<and> set new \<subseteq> learned cd nets nm target"

text \<open>One turn of the loop on whole contacts: it stops, or asks the first \<open>alpha\<close> contacts that are fresh.\<close>

lemma lookup_turn:
  fixes nm :: network_manager and target :: nodeid and q :: "string set"
  assumes env: "lookup_env_ok env" and "0 < cf_K (nm_cfg nm)" and "0 \<le> cf_Alpha (nm_cfg nm)"
    and whole: "\<forall>c\<in>set ss. whole c" and ne: "ss \<noteq> []"
  defines "L \<equiv> top_k env target (nat (cf_K (nm_cfg nm))) ss"
  defines "tq \<equiv> take (nat (cf_Alpha (nm_cfg nm))) (fresh q L)" and "F \<equiv> XorDistance (conv_id (last L)) target"
  shows "L \<noteq> []" and "set tq \<subseteq> set L" and "udp_addr ` set tq \<inter> q = {}"
    and "lookup_loop env cd nets nm target n ss q p out =
      (if no_gain target L p \<or> tq = [] then Some (with_late env cd nets nm target n out L)
       else case query_peers cd nets nm target (le_arrives env n (out @ map (Pair n) tq)) of
         Inl e \<Rightarrow> Some (Inl e)
       | Inr new \<Rightarrow> lookup_loop env cd nets nm target (Suc n) (L @ new) (q \<union> udp_addr ` set tq) F
           (open_after env n (out @ map (Pair n) tq)))"
proof -
  have sc: "sort_contacts env target ss = Inr (le_sort env (closer_target target) ss)"
    using whole by (rule sort_contacts_whole)
  have tr: "trim (cf_K (nm_cfg nm)) (le_sort env (closer_target target) ss) = Inr L"
    using assms(2) env trim_top by (simp add: L_def)
  have wL: "\<forall>c\<in>set L. whole c" using whole set_top_k [OF env] unfolding L_def by blast
  then have pk: "pick (cf_Alpha (nm_cfg nm)) L q [] = Inr (q \<union> udp_addr ` set tq, tq)"
    using pick_fresh [of L "[]" "cf_Alpha (nm_cfg nm)" q] assms(3) by (auto simp: tq_def whole_def)
  have "length L = min (nat (cf_K (nm_cfg nm))) (length ss)" by (simp add: L_def length_top env)
  then have "length L \<noteq> 0" using ne assms(2) by simp
  then show neL: "L \<noteq> []" by simp
  have sub: "set tq \<subseteq> set (fresh q L)" unfolding tq_def by (rule set_take_subset)
  then show "set tq \<subseteq> set L" using fresh_props by blast
  show "udp_addr ` set tq \<inter> q = {}" using sub fresh_props [of q L] by blast
  have "whole (last L)" using wL neL by simp
  then have "\<not> short_id (last L)" by (simp add: whole_def short_id_def)
  then show "lookup_loop env cd nets nm target n ss q p out =
      (if no_gain target L p \<or> tq = [] then Some (with_late env cd nets nm target n out L)
       else case query_peers cd nets nm target (le_arrives env n (out @ map (Pair n) tq)) of
         Inl e \<Rightarrow> Some (Inl e)
       | Inr new \<Rightarrow> lookup_loop env cd nets nm target (Suc n) (L @ new) (q \<union> udp_addr ` set tq) F
           (open_after env n (out @ map (Pair n) tq)))"
    unfolding F_def using ne sc tr neL pk assms(3) by (subst lookup_loop.simps) (simp add: no_gain_def)
qed

text \<open>
  The loop ends for every sort: each further round asks an address for the first time, and there are finitely many.
\<close>

lemma lookup_loop_history:
  fixes nm :: network_manager
  defines "k \<equiv> nat (cf_K (nm_cfg nm))" and "a \<equiv> nat (cf_Alpha (nm_cfg nm))"
  assumes env: "lookup_env_ok env" and cfg: "nm_info nm \<noteq> None" "0 < cf_K (nm_cfg nm)" "0 \<le> cf_Alpha (nm_cfg nm)"
    and learnt: "\<forall>c \<in> learned cd nets nm target. whole c" and S: "finite S" "learned cd nets nm target \<subseteq> S"
  shows "\<forall>c\<in>set ss. whole c \<Longrightarrow> set ss \<subseteq> S \<Longrightarrow> \<forall>(m, c)\<in>set out. c \<noteq> None \<Longrightarrow> ss = [] \<longrightarrow> out = [] \<Longrightarrow>
     \<exists>res rs late. lookup_loop env cd nets nm target n ss q p out = Some (Inr (res @ late))
     \<and> history env target k a (answers_of cd nets nm target) n ss q p out rs res late"
proof (induction "card (udp_addr ` S - q)" arbitrary: n ss q p out rule: less_induct)
  case less
  let ?L = "top_k env target k ss" and ?F = "XorDistance (conv_id (last (top_k env target k ss))) target"
  define tq where "tq = take a (fresh q ?L)"
  have open_ok: "\<forall>(m, c)\<in>set (le_arrives env m' o'). c \<noteq> None" if "\<forall>(m, c)\<in>set o'. c \<noteq> None" for m' o'
    using that lookup_env_okD(2) [OF env, of m' o'] by blast
  obtain late where late: "answers_of cd nets nm target (le_arrives env n out) late"
    using query_peers_ok [OF cfg(1) open_ok [OF less(4), of n], of cd nets target] by (auto simp: answers_of_def)
  have halt: ?case if "lookup_loop env cd nets nm target n ss q p out = Some (Inr (?L @ late))" "tq = [] \<or> no_gain target ?L p"
    using that history.stop [of ?L env target k ss a q p "answers_of cd nets nm target" n out late, folded tq_def] late by blast
  show ?case
  proof (cases "ss = []")
    case True
    then have L: "?L = []" using length_top [OF env, of target k ss] by simp
    have "lookup_loop env cd nets nm target n ss q p out = Some (Inr [])" using True by (simp add: lookup_loop.simps)
    moreover have "le_arrives env n out = []" using lookup_env_okD(2) [OF env, of n out] True less(5) by simp
    then have "late = []" using late by (simp add: answers_of_def)
    ultimately show ?thesis using L by (intro halt) (simp_all add: tq_def)
  next
    case ne: False
    note ne' = lookup_turn(1) [where target = target, OF env cfg(2,3) less(2) ne, folded k_def]
    note turn = lookup_turn(2-4) [where target = target and q = q, OF env cfg(2,3) less(2) ne, folded k_def a_def, folded tq_def]
    show ?thesis
    proof (cases "no_gain target ?L p \<or> tq = []")
      case True
      then show ?thesis using late by (intro halt) (auto simp: turn(3) with_late_def answers_of_def)
    next
      case False
      let ?open = "out @ map (Pair n) tq"
      have wL: "\<forall>c\<in>set ?L. whole c" "set ?L \<subseteq> S" using less(2,3) set_top_k [OF env] by blast+
      have out: "\<forall>(m, c)\<in>set ?open. c \<noteq> None" using less(4) turn(1) wL(1) by (auto simp: whole_def)
      obtain new where new: "answers_of cd nets nm target (le_arrives env n ?open) new"
        using query_peers_ok [OF cfg(1) open_ok [OF out, of n], of cd nets target] by (auto simp: answers_of_def)
      obtain c where "c \<in> set tq" using False by (cases tq) auto
      then have "udp_addr ` S - (q \<union> udp_addr ` set tq) \<subset> udp_addr ` S - q" using turn(1,2) wL(2) by blast
      then have fewer: "card (udp_addr ` S - (q \<union> udp_addr ` set tq)) < card (udp_addr ` S - q)"
        by (intro psubset_card_mono) (use S(1) in auto)
      have "set (open_after env n ?open) \<subseteq> set ?open" by (auto simp: open_after_def)
      then have "\<forall>(m, c)\<in>set (open_after env n ?open). c \<noteq> None" using out by blast
      moreover have "\<forall>c\<in>set (?L @ new). whole c" "set (?L @ new) \<subseteq> S" "?L @ new = [] \<longrightarrow> open_after env n ?open = []"
        using ne' wL new learnt S(2) by (auto simp: answers_of_def)
      ultimately obtain res rs late where r: "lookup_loop env cd nets nm target (Suc n) (?L @ new) (q \<union> udp_addr ` set tq) ?F
          (open_after env n ?open) = Some (Inr (res @ late))"
        "history env target k a (answers_of cd nets nm target) (Suc n) (?L @ new) (q \<union> udp_addr ` set tq) ?F
          (open_after env n ?open) rs res late"
        using less(1) [OF fewer] by blast
      have "history env target k a (answers_of cd nets nm target) n ss q p out
          (\<lparr>rd_asked = tq, rd_open = ?open, rd_new = new\<rparr> # rs) res late"
        using False new r(2) by (intro history.round) (auto simp: tq_def)
      moreover have "lookup_loop env cd nets nm target n ss q p out = Some (Inr (res @ late))"
        using False new r(1) by (simp add: turn(3) answers_of_def)
      ultimately show ?thesis by blast
    qed
  qed
qed


text \<open>What a history says.\<close>

abbreviation heard :: "lookup_round list \<Rightarrow> cptr list" where
  "heard rs \<equiv> concat (map rd_new rs)"

lemma history_closest:
  assumes env: "lookup_env_ok env"
  shows "history env t k alpha answers n ss q p out rs res late \<Longrightarrow>
     map (ldist t) res = take k (sort (map (ldist t) (ss @ heard rs))) \<and> set res \<subseteq> set ss \<union> set (heard rs)
     \<and> answers (le_arrives env (n + length rs) (open_from env n out rs)) late"
proof (induction rule: history.induct)
  case (stop res ss q p n out late)
  then show ?case using set_top_k [OF env, of t k ss] by (simp add: map_top_k env open_from_def)
next
  case (round L ss asked q opn out n new rs res late p)
  let ?d = "map (ldist t)" and ?r = "\<lparr>rd_asked = asked, rd_open = opn, rd_new = new\<rparr>"
  have "?d res = take k (sort (take k (sort (?d ss)) @ ?d (new @ heard rs)))"
    using round by (simp add: map_top_k env)
  then have "?d res = take k (sort (?d ss @ ?d (new @ heard rs)))" by (simp only: take_sort_take)
  moreover have "open_from env n out (?r # rs) = open_from env (Suc n) (open_after env n opn) rs"
    by (simp add: open_from_def)
  ultimately show ?case using round set_top_k [OF env, of t k ss] by auto
qed

lemma history_rounds:
  assumes env: "lookup_env_ok env"
  shows "history env t k alpha answers n ss q p out rs res late \<Longrightarrow>
     (\<forall>i < length rs. rd_open (rs ! i) = open_from env n out (take i rs) @ map (Pair (n + i)) (rd_asked (rs ! i))
        \<and> answers (le_arrives env (n + i) (rd_open (rs ! i))) (rd_new (rs ! i)) \<and> rd_asked (rs ! i) \<noteq> []
        \<and> length (rd_asked (rs ! i)) \<le> alpha \<and> set (rd_asked (rs ! i)) \<subseteq> set ss \<union> set (heard (take i rs)))
     \<and> distinct (map udp_addr (concat (map rd_asked rs))) \<and> udp_addr ` set (concat (map rd_asked rs)) \<inter> q = {}"
proof (induction rule: history.induct)
  case (round L ss asked q opn out n new rs res late p)
  let ?r = "\<lparr>rd_asked = asked, rd_open = opn, rd_new = new\<rparr>"
  have L: "set L \<subseteq> set ss" using round(1) set_top_k [OF env] by simp
  have asked: "set asked \<subseteq> set L" "distinct (map udp_addr asked)" "udp_addr ` set asked \<inter> q = {}" "length asked \<le> alpha"
    using round(2) fresh_props [of q L] set_take_subset [of alpha "fresh q L"]
    by (auto simp flip: take_map)
  have "rd_open ((?r # rs) ! i) = open_from env n out (take i (?r # rs)) @ map (Pair (n + i)) (rd_asked ((?r # rs) ! i))
      \<and> answers (le_arrives env (n + i) (rd_open ((?r # rs) ! i))) (rd_new ((?r # rs) ! i)) \<and> rd_asked ((?r # rs) ! i) \<noteq> []
      \<and> length (rd_asked ((?r # rs) ! i)) \<le> alpha \<and> set (rd_asked ((?r # rs) ! i)) \<subseteq> set ss \<union> set (heard (take i (?r # rs)))"
    if i: "i < length (?r # rs)" for i
  proof (cases i)
    case 0
    then show ?thesis using round(3-5) asked(1,4) L by (auto simp: open_from_def)
  next
    case (Suc j)
    then have j: "j < length rs" using i by simp
    then have "length (take j rs) = j" by simp
    then have "open_from env n out (?r # take j rs) = open_from env (Suc n) (open_after env n opn) (take j rs)"
      by (cases "take j rs = []") (auto simp: open_from_def)
    then show ?thesis using Suc round(7) j L by fastforce
  qed
  then have each: "\<forall>i < length (?r # rs). rd_open ((?r # rs) ! i) = open_from env n out (take i (?r # rs)) @ map (Pair (n + i)) (rd_asked ((?r # rs) ! i))
      \<and> answers (le_arrives env (n + i) (rd_open ((?r # rs) ! i))) (rd_new ((?r # rs) ! i)) \<and> rd_asked ((?r # rs) ! i) \<noteq> []
      \<and> length (rd_asked ((?r # rs) ! i)) \<le> alpha \<and> set (rd_asked ((?r # rs) ! i)) \<subseteq> set ss \<union> set (heard (take i (?r # rs)))"
    by blast
  have "distinct (map udp_addr (concat (map rd_asked rs)))"
    and apart: "udp_addr ` set (concat (map rd_asked rs)) \<inter> (q \<union> udp_addr ` set asked) = {}"
    using round(7) by blast+
  moreover have "udp_addr ` set asked \<inter> udp_addr ` set (concat (map rd_asked rs)) = {}"
    and "udp_addr ` set (concat (map rd_asked rs)) \<inter> q = {}" using apart by blast+
  ultimately have "distinct (map udp_addr (concat (map rd_asked (?r # rs))))"
    and "udp_addr ` set (concat (map rd_asked (?r # rs))) \<inter> q = {}"
    using asked by (simp_all add: Int_Un_distrib2 image_Un del: set_concat)
  then show ?case using each by blast
qed simp

text \<open>Why it ended: everybody near was asked, or the last round brought nobody nearer than the furthest.\<close>

lemma history_end:
  assumes env: "lookup_env_ok env"
  shows "history env t k alpha answers n ss q p out rs res late \<Longrightarrow> 0 < alpha \<Longrightarrow> p = zero_id \<or> length p = 20 \<Longrightarrow>
     udp_addr ` set res \<subseteq> q \<union> udp_addr ` set (concat (map rd_asked rs))
     \<or> (if rs = [] then no_gain t res p
        else last (take k (sort (map (ldist t) (ss @ heard (butlast rs))))) \<le> ldist t (last res))"
proof (induction rule: history.induct)
  case (stop res ss q p n out late)
  then show ?case using fresh_props [of q res] by (auto simp: image_subset_iff)
next
  case (round L ss asked q opn out n new rs res late p)
  let ?F = "XorDistance (conv_id (last L)) t" and ?r = "\<lparr>rd_asked = asked, rd_open = opn, rd_new = new\<rparr>"
  have L: "L \<noteq> []" using round(2,3) by auto
  have F: "length ?F = 20" "id_val ?F = ldist t (last L)" by (simp_all add: ldist_def)
  have d: "take k (sort (map (ldist t) L @ ys)) = take k (sort (map (ldist t) ss @ ys))" for ys
    using take_sort_take [of k "map (ldist t) ss" ys] round(1) by (simp add: map_top_k env)
  have kth: "last (take k (sort (map (ldist t) ss))) = ldist t (last L)"
    using L round(1) by (metis last_map map_top_k [OF env])
  show ?case
  proof (cases "rs = []")
    case True
    have "ldist t (last L) \<le> ldist t (last res)" if "no_gain t res ?F"
    proof -
      have "\<not> LessDistance (XorDistance (conv_id (last res)) t) ?F" using that by (simp add: no_gain_def)
      moreover have "length (XorDistance (conv_id (last res)) t) = length ?F" by simp
      ultimately have "\<not> id_val (XorDistance (conv_id (last res)) t) < id_val ?F" using LessDistance_id_val by blast
      then show ?thesis unfolding F(2) unfolding ldist_def by simp
    qed
    then have "last (take k (sort (map (ldist t) ss))) \<le> ldist t (last res)" if "no_gain t res ?F"
      using that unfolding kth .
    moreover have "udp_addr ` set res \<subseteq> (q \<union> udp_addr ` set asked) \<or> no_gain t res ?F"
      using round(7) [OF round(8)] F(1) True by simp
    ultimately show ?thesis using True by auto
  next
    case False
    have "take k (sort (map (ldist t) ((L @ new) @ heard (butlast rs))))
        = take k (sort (map (ldist t) (ss @ new @ heard (butlast rs))))"
      using d [of "map (ldist t) (new @ heard (butlast rs))"] by (simp del: sort_key_simps)
    moreover have "heard (butlast (?r # rs)) = new @ heard (butlast rs)" using False by simp
    moreover have "(q \<union> udp_addr ` set asked) \<union> udp_addr ` set (concat (map rd_asked rs))
        = q \<union> udp_addr ` set (concat (map rd_asked (?r # rs)))" by auto
    moreover have "udp_addr ` set res \<subseteq> (q \<union> udp_addr ` set asked) \<union> udp_addr ` set (concat (map rd_asked rs))
        \<or> last (take k (sort (map (ldist t) ((L @ new) @ heard (butlast rs))))) \<le> ldist t (last res)"
      using round(7) [OF round(8)] F(1) False by simp
    ultimately show ?thesis by (simp only: list.distinct if_False)
  qed
qed

section \<open>Properties\<close>

text \<open>What a lookup does on the network, for the table's closest peers \<open>seed\<close>.\<close>

definition lookup_outcome :: "'z router_codec_scheme \<Rightarrow> (nat \<Rightarrow> client_net) \<Rightarrow> lookup_env
    \<Rightarrow> network_manager \<Rightarrow> nodeid \<Rightarrow> cptr list \<Rightarrow> lookup_round list \<Rightarrow> cptr list \<Rightarrow> cptr list \<Rightarrow> bool" where
  "lookup_outcome cd nets env nm target seed rounds late res \<longleftrightarrow>
     (let k = nat (cf_K (nm_cfg nm)); alpha = nat (cf_Alpha (nm_cfg nm)); ds = map (ldist target);
          asked = concat (map rd_asked rounds); answer = query_peers cd nets nm target in
      ds res = take k (sort (ds (seed @ heard rounds @ late)))
      \<and> set res \<subseteq> set seed \<union> set (heard rounds) \<union> set late
      \<and> set (heard rounds) \<union> set late \<subseteq> learned cd nets nm target
      \<and> answer (le_arrives env (length rounds) (open_from env 0 [] rounds)) = Inr late
      \<and> (\<forall>i < length rounds. rd_open (rounds ! i) = open_from env 0 [] (take i rounds) @ map (Pair i) (rd_asked (rounds ! i))
           \<and> answer (le_arrives env i (rd_open (rounds ! i))) = Inr (rd_new (rounds ! i))
           \<and> rd_asked (rounds ! i) \<noteq> [] \<and> length (rd_asked (rounds ! i)) \<le> alpha
           \<and> set (rd_asked (rounds ! i)) \<subseteq> set seed \<union> set (heard (take i rounds)))
      \<and> distinct (map udp_addr asked)
      \<and> length rounds \<le> card (udp_addr ` (set seed \<union> learned cd nets nm target))
      \<and> (0 < alpha \<longrightarrow> udp_addr ` set res \<subseteq> udp_addr ` (set asked \<union> set late)
           \<or> (rounds \<noteq> [] \<and> last (take k (sort (ds (seed @ heard (butlast rounds)))))
                \<le> last (take k (sort (ds (seed @ heard rounds)))))))"

lemma rounds_bounded:
  assumes "\<forall>r\<in>set rs. rd_asked r \<noteq> []" and "distinct (map udp_addr (concat (map rd_asked rs)))"
    and "set (concat (map rd_asked rs)) \<subseteq> S" and "finite S"
  shows "length rs \<le> card (udp_addr ` S)"
proof -
  let ?as = "concat (map rd_asked rs)"
  have "length rs \<le> length ?as"
    using assms(1)
  proof (induction rs)
    case (Cons r rs)
    then show ?case by (cases "rd_asked r") auto
  qed simp
  also have "\<dots> = card (udp_addr ` set ?as)"
    using distinct_card [OF assms(2)] by (simp only: length_map set_map)
  also have "\<dots> \<le> card (udp_addr ` S)" using assms(3,4) by (intro card_mono) auto
  finally show ?thesis .
qed

lemma Lookup_result:
  assumes "nm_inv nm" and "0 < cf_K (nm_cfg nm)" and "0 \<le> cf_Alpha (nm_cfg nm)"
    and "lookup_env_ok env" and "\<forall>c \<in> learned cd nets nm target. whole c"
    and "\<forall>c \<in> table_peers (nm_router nm). whole c"
  shows "\<exists>seed rounds late res. ClosestK (nm_router nm) target = Inr seed
    \<and> Lookup cd nets env nm target = Inr res \<and> lookup_outcome cd nets env nm target seed rounds late res"
proof -
  let ?k = "nat (cf_K (nm_cfg nm))" and ?a = "nat (cf_Alpha (nm_cfg nm))" and ?d = "map (ldist target)"
  let ?A = "answers_of cd nets nm target" and ?learned = "learned cd nets nm target"
  note env = assms(4)
  obtain seed where seed: "ClosestK (nm_router nm) target = Inr seed" "set seed \<subseteq> table_peers (nm_router nm)"
    using ClosestK_correct [of "nm_router nm" target] by metis
  have info: "nm_info nm \<noteq> None" using assms(1) by (simp add: nm_inv_def)
  have ws: "\<forall>c\<in>set seed. whole c" using seed(2) assms(6) by blast
  have S: "finite (set seed \<union> ?learned)" by (simp add: finite_learned)
  from lookup_loop_history [OF env info assms(2,3,5) S _ ws, of "[]" 0 "{}" zero_id] obtain ss rs late where
    loop: "lookup_loop env cd nets nm target 0 seed {} zero_id [] = Some (Inr (ss @ late))"
    and h: "history env target ?k ?a ?A 0 seed {} zero_id [] rs ss late" by auto
  note close = history_closest [OF env h] and rounds = history_rounds [OF env h]
  have heard: "set (heard rs) \<subseteq> ?learned"
  proof -
    have "set (rd_new r) \<subseteq> ?learned" if "r \<in> set rs" for r
      using that rounds by (metis answers_of_def in_set_conv_nth)
    then show ?thesis by auto
  qed
  have late: "query_peers cd nets nm target (le_arrives env (length rs) (open_from env 0 [] rs)) = Inr late" "set late \<subseteq> ?learned"
    using close by (simp_all add: answers_of_def)
  have "set (ss @ late) \<subseteq> set seed \<union> ?learned" using close heard late(2) unfolding set_append by blast
  then have "\<forall>c\<in>set (ss @ late). whole c" using ws assms(5) by blast
  then have run: "Lookup cd nets env nm target = Inr (top_k env target ?k (ss @ late))"
    using seed(1) loop assms(2) by (simp add: Lookup_def sort_contacts_whole trim_top env)
  have res: "set (top_k env target ?k (ss @ late)) \<subseteq> set ss \<union> set late" using set_top_k [OF env] by fastforce
  have ds: "?d (top_k env target ?k (ss @ late)) = take ?k (sort (?d (seed @ heard rs @ late)))"
    using close take_sort_take [of ?k "?d (seed @ heard rs)" "?d late"] by (simp add: map_top_k env)
  have asked: "set (concat (map rd_asked rs)) \<subseteq> set seed \<union> ?learned"
  proof -
    have "set (rd_asked (rs ! i)) \<subseteq> set seed \<union> ?learned" if "i < length rs" for i
    proof -
      have "set (heard (take i rs)) \<subseteq> set (heard rs)" by (auto dest: in_set_takeD)
      then show ?thesis using rounds that heard by blast
    qed
    then have "\<forall>r\<in>set rs. set (rd_asked r) \<subseteq> set seed \<union> ?learned" by (simp add: all_set_conv_all_nth)
    then show ?thesis by auto
  qed
  have nonempty: "\<forall>r\<in>set rs. rd_asked r \<noteq> []" using rounds by (metis in_set_conv_nth)
  have lst: "last (take ?k (sort (?d (seed @ heard rs)))) = ldist target (last ss)" if "ss \<noteq> []"
    using close that by (metis last_map)
  have "lookup_outcome cd nets env nm target seed rs late (top_k env target ?k (ss @ late))"
    unfolding lookup_outcome_def Let_def
  proof (intro conjI impI)
    show "length rs \<le> card (udp_addr ` (set seed \<union> ?learned))"
      by (rule rounds_bounded [OF nonempty _ asked S]) (use rounds in blast)
    assume "0 < ?a"
    then have e: "udp_addr ` set ss \<subseteq> udp_addr ` set (concat (map rd_asked rs))
        \<or> (rs \<noteq> [] \<and> last (take ?k (sort (?d (seed @ heard (butlast rs))))) \<le> ldist target (last ss))"
      using history_end [OF env h] by (simp add: no_gain_def split: if_splits)
    show "udp_addr ` set (top_k env target ?k (ss @ late)) \<subseteq> udp_addr ` (set (concat (map rd_asked rs)) \<union> set late)
        \<or> (rs \<noteq> [] \<and> last (take ?k (sort (?d (seed @ heard (butlast rs)))))
             \<le> last (take ?k (sort (?d (seed @ heard rs)))))"
    proof (cases "ss = []")
      case False
      from e show ?thesis
      proof
        assume "udp_addr ` set ss \<subseteq> udp_addr ` set (concat (map rd_asked rs))"
        then show ?thesis using res by blast
      qed (simp only: lst [OF False], simp)
    qed (use res in auto)
  qed (use close rounds heard late ds res in \<open>auto simp: answers_of_def\<close>)
  then show ?thesis using seed(1) run by blast
qed

text \<open>
  C9. The iterative lookup, if the contacts of the table and of every answer carry whole identifiers: whoever answers,
  in whatever order and however late, and however the sort arranges contacts at the same distance, it ends
  without error after some rounds. Each round asks between one and \<open>alpha\<close> contacts of the table or of earlier answers,
  no address twice, so there are at most as many rounds as addresses in the table and all answers.
  The result's distances to the target are the \<open>k\<close> smallest, in increasing order, among the table's
  own closest peers and all answers that arrived. And it ends only when every contact of the result was asked or arrived
  late, or when the last round did not bring the furthest of the shortlist nearer (\<open>lookup_outcome\<close>); a round that makes a
  shortlist of fewer than \<open>k\<close> contacts longer usually moves its furthest away, and so ends the lookup.
\<close>

theorem Lookup_correct:
  assumes "nm_inv nm" and "0 < cf_K (nm_cfg nm)" and "0 \<le> cf_Alpha (nm_cfg nm)"
    and "lookup_env_ok env" and "\<forall>c \<in> learned cd nets nm target. whole c"
    and "\<forall>c \<in> table_peers (nm_router nm). whole c"
  shows "\<exists>seed rounds late res. ClosestK (nm_router nm) target = Inr seed
    \<and> Lookup cd nets env nm target = Inr res \<and> lookup_outcome cd nets env nm target seed rounds late res"
  by (rule Lookup_result [OF assms])

text \<open>A net on which nobody answers, and an environment in which every answer arrives at once.\<close>

definition dead_net :: client_net where
  "dead_net = \<lparr>cn_resolves = (\<lambda>_. False), cn_dials = (\<lambda>_. False), cn_exchange = (\<lambda>_ _. SendFailed)\<rparr>"

lemma learned_dead: "learned cd (\<lambda>_. dead_net) nm t = {}"
  by (auto simp: learned_def exchange_rpc_def dead_net_def split: option.splits)

definition prompt_env :: lookup_env where
  "prompt_env = \<lparr>le_sort = sort_slice, le_arrives = (\<lambda>_ out. out)\<rparr>"

lemma prompt_env_ok: "lookup_env_ok prompt_env"
  by (simp add: lookup_env_ok_def prompt_env_def go_sort.slice_sorter_axioms)

theorem Lookup_correct_witness:
  "\<exists>nm. nm_inv nm \<and> Lookup demo_codec (\<lambda>_. dead_net) prompt_env nm (0x80 # replicate 19 0) = Inr []"
proof -
  let ?t = "0x80 # replicate 19 0 :: nodeid"
  obtain nm where "nm_serving demo_codec nm" and peers: "table_peers (nm_router nm) = {low_peer 0}"
    and cfg: "nm_cfg nm = demo_config routing_service" and info: "nm_info nm = low_peer 0"
    by (rule demo_manager_full)
  then have inv: "nm_inv nm" by (simp add: nm_serving_def)
  have "whole (low_peer 0)" by (simp add: whole_def low_peer_Some)
  then obtain seed rounds late res where r: "ClosestK (nm_router nm) ?t = Inr seed"
      "Lookup demo_codec (\<lambda>_. dead_net) prompt_env nm ?t = Inr res"
      "lookup_outcome demo_codec (\<lambda>_. dead_net) prompt_env nm ?t seed rounds late res"
    using Lookup_correct [OF inv _ _ prompt_env_ok, of demo_codec "\<lambda>_. dead_net" ?t] peers cfg
    by (auto simp: learned_dead demo_config_def default_config_def)
  have "set res \<subseteq> set seed \<union> set (heard rounds) \<union> set late \<and> set (heard rounds) \<union> set late \<subseteq> {}"
    using r(3) unfolding lookup_outcome_def Let_def learned_dead by blast
  then have sub: "set res \<subseteq> set seed" by blast
  have seed: "set seed \<subseteq> {low_peer 0}" "\<forall>c\<in>set seed. nid c \<noteq> localID (nm_router nm)"
    using ClosestK_correct [of "nm_router nm" ?t] r(1) peers by auto
  have "localID (nm_router nm) = nid (low_peer 0)"
    using inv info by (simp add: nm_inv_def table_ok_def localID_nid del: nid_low_peer)
  then have "x \<notin> set seed" for x using seed by (metis singletonD subsetD)
  then have "set seed = {}" by (intro equals0I) blast
  then show ?thesis using r(2) sub inv by auto
qed

text \<open>
  C18. One malformed contact disables lookups: if a closest peer of the table has an identifier of
  fewer than 20 bytes, which \<open>Update\<close> accepts, \<open>Lookup\<close> panics before it asks anybody, by the failed conversion unless
  it is the only one and \<open>k\<close> is not positive.
\<close>

theorem Lookup_short_id_panics:
  assumes "ClosestK (nm_router nm) target = Inr seed" and "c \<in> set seed" and "length (GetId c) < KeyBytes"
    and "lookup_env_ok env"
  shows "\<exists>p. Lookup cd nets env nm target = Inl (Panic p)
    \<and> (p = SliceTooShort \<or> seed = [c] \<and> cf_K (nm_cfg nm) \<le> 0)"
proof -
  have ne: "seed \<noteq> []" using assms(2) by auto
  have "\<exists>p. lookup_loop env cd nets nm target 0 seed {} zero_id [] = Some (Inl (Panic p))
    \<and> (p = SliceTooShort \<or> seed = [c] \<and> cf_K (nm_cfg nm) \<le> 0)"
  proof (cases "2 \<le> length seed")
    case True
    then have "sort_contacts env target seed = Inl (Panic SliceTooShort)"
      using assms(2,3) by (auto simp: sort_contacts_def short_id_def list_ex_iff)
    then show ?thesis using ne by (subst lookup_loop.simps) simp
  next
    case False
    then have one: "seed = [c]" using assms(2) by (cases seed; cases "tl seed") auto
    have "mset (le_sort env (closer_target target) [c]) = {#c#}"
      using slice_sorter.srt_mset [OF lookup_env_okD(1) [OF assms(4)]] by simp
    then have "sort_contacts env target seed = Inr [c]" using one by (simp add: sort_contacts_def)
    then show ?thesis using one assms(3) by (subst lookup_loop.simps) (auto simp: trim_def short_id_def)
  qed
  then show ?thesis by (auto simp: Lookup_def assms(1))
qed

text \<open>A table holding a contact with an identifier of one byte, as \<open>Update\<close> stores it.\<close>

definition short_peer :: cptr where
  "short_peer = Some (NewContact 0 [1] ''localhost'' ''1'' ''2'')"

definition short_table :: routing_table where
  "short_table = \<lparr>rt_local = high_peer, rt_k = 2, rt_alpha = 3,
     buckets = [\<lparr>depth = 0, isFull = False, peers = [high_peer]\<rparr>]\<rparr>"

theorem Lookup_short_id_panics_witness:
  "\<exists>nm. Lookup demo_codec (\<lambda>_. dead_net) prompt_env nm zero_id = Inl (Panic SliceTooShort)"
proof -
  define nm :: network_manager where
    "nm = undefined\<lparr>nm_router := fst (rt_Update short_table short_peer), nm_cfg := demo_config routing_service\<rparr>"
  then have nm: "nm_router nm = fst (rt_Update short_table short_peer)" "nm_cfg nm = demo_config routing_service" by simp_all
  have short: "length (GetId short_peer) < KeyBytes" by code_simp
  have "ClosestK (nm_router nm) zero_id = Inr [short_peer]"
    unfolding nm(1) by code_simp
  then have "Lookup demo_codec (\<lambda>_. dead_net) prompt_env nm zero_id = Inl (Panic SliceTooShort)"
    using Lookup_short_id_panics [of nm zero_id "[short_peer]" short_peer prompt_env demo_codec "\<lambda>_. dead_net"] short prompt_env_ok nm(2)
    by (auto simp: demo_config_def default_config_def)
  then show ?thesis by blast
qed

end
