(* ===== verification/Node.thy ===== *)
theory Node
  imports Lookup
begin

text \<open>
  The node, \<open>node/node.go\<close>: construction from a configuration, and the operations that combine
  the manager's calls: \<open>Ping\<close>, \<open>Start\<close>, \<open>Join\<close>, \<open>Put\<close>, \<open>Get\<close>, \<open>RefreshBuckets\<close>, \<open>Stop\<close>. The local storage is
  whatever its constructor returned (its error is ignored by the code).
\<close>

datatype node_error =
    LoadConfig config_error
  | InvalidNodeID key_error
  | InitManager net_error
  | PingFailed string invoke_error
  | BootstrapToSelf
  | LookupFailed lookup_error
  | StoreFailed invoke_error
  | FindValueFailed invoke_error

record 's node =
  n_ID :: nodeid
  n_Contact :: contact
  n_cfg :: config
  n_nm :: network_manager
  n_storage :: "'s option"
  n_cancelled :: bool

text \<open>\<open>strconv.Itoa\<close>.\<close>

fun nat_digits :: "nat \<Rightarrow> string" where
  "nat_digits n = (if n < 10 then [char_of (48 + n)] else nat_digits (n div 10) @ [char_of (48 + n mod 10)])"

declare nat_digits.simps [simp del]

definition Itoa :: "int \<Rightarrow> string" where
  "Itoa i = (if i < 0 then CHR ''-'' # nat_digits (nat (- i)) else nat_digits (nat i))"

definition port_string :: "int \<Rightarrow> string" where
  "port_string p = (if p \<noteq> 0 then Itoa p else '''')"

text \<open>\<open>loaded\<close> is the result of \<open>config.Load\<close>, \<open>now\<close> the clock, \<open>store\<close> what \<open>NewLocalStorage\<close> returns.\<close>

definition NewNode :: "'z router_codec_scheme \<Rightarrow> int \<Rightarrow> 's option \<Rightarrow> (config_error, config) go
    \<Rightarrow> (node_error, 's node) go" where
  "NewNode cd now store loaded =
     (case loaded of
        Inl e \<Rightarrow> Inl (map_failure LoadConfig e)
      | Inr cfg \<Rightarrow>
     (case StringToNodeID (cf_NodeID cfg) of
        Inl e \<Rightarrow> Inl (map_failure InvalidNodeID e)
      | Inr ident \<Rightarrow>
          let contact = NewContact now ident (cf_Address cfg) (port_string (cf_TCPPort cfg))
                          (port_string (cf_UDPPort cfg));
              contact = UpdateUsername contact (cf_Username cfg)
          in (case NewNetworkManager cd (Some contact) cfg of
                Inl e \<Rightarrow> Inl (map_failure InitManager e)
              | Inr nm \<Rightarrow> Inr \<lparr>n_ID = ident, n_Contact = contact, n_cfg = cfg, n_nm = nm,
                             n_storage = store, n_cancelled = False\<rparr>)))"

definition node_Ping :: "'z router_codec_scheme \<Rightarrow> client_net \<Rightarrow> 's node \<Rightarrow> string
    \<Rightarrow> 's node \<times> (node_error, unit) go" where
  "node_Ping cd net n peerAddr =
     (case InvokeRPC cd net (n_nm n) peerAddr kademlia_service ''Ping''
             (SendRouter (ReqPing \<lparr>ping_From = Some (n_Contact n), ping_Value = []\<rparr>)) WantAck of
        (nm, Inl e) \<Rightarrow> (n\<lparr>n_nm := nm\<rparr>, Inl (map_failure (PingFailed peerAddr) e))
      | (nm, Inr _) \<Rightarrow> (n\<lparr>n_nm := nm\<rparr>, Inr ()))"

text \<open>
  Pings one after the other whose errors are only logged; the \<open>i\<close>-th meets the network \<open>nets i\<close>.
\<close>

fun ping_all :: "'z router_codec_scheme \<Rightarrow> (nat \<Rightarrow> client_net) \<Rightarrow> nat \<Rightarrow> string list \<Rightarrow> 's node
    \<Rightarrow> 's node \<times> (node_error, unit) go" where
  "ping_all cd nets i [] n = (n, Inr ())"
| "ping_all cd nets i (a # as) n =
     (case node_Ping cd (nets i) n a of
        (n, Inl (Panic p)) \<Rightarrow> (n, Inl (Panic p))
      | (n, Inl Blocked) \<Rightarrow> (n, Inl Blocked)
      | (n, _) \<Rightarrow> ping_all cd nets (Suc i) as n)"

text \<open>
  \<open>Start\<close> drops the error of the manager's start and goes on to the bootstrap peers. The refresh
  goroutine it launches then creates its ticker, which panics for an interval that is not positive.
\<close>

definition node_Start :: "'z router_codec_scheme \<Rightarrow> (nat \<Rightarrow> client_net) \<Rightarrow> (string \<Rightarrow> string option)
    \<Rightarrow> (string \<Rightarrow> bool) \<Rightarrow> 's node \<Rightarrow> 's node \<times> (node_error, unit) go" where
  "node_Start cd nets resolve listens n =
     (case nm_Start resolve listens (n_nm n) of
        (nm, Inl (Panic p)) \<Rightarrow> (n\<lparr>n_nm := nm\<rparr>, Inl (Panic p))
      | (nm, Inl Blocked) \<Rightarrow> (n\<lparr>n_nm := nm\<rparr>, Inl Blocked)
      | (nm, _) \<Rightarrow>
          (case ping_all cd nets 0 (cf_BootstrapPeers (n_cfg n)) (n\<lparr>n_nm := nm\<rparr>) of
             (n, Inl e) \<Rightarrow> (n, Inl e)
           | (n, Inr _) \<Rightarrow>
               if cf_Refresh (n_cfg n) \<le> 0 then (n, Inl (Panic NonPositiveTicker)) else (n, Inr ())))"

definition node_Stop :: "'s node \<Rightarrow> 's node \<times> (node_error, unit) go" where
  "node_Stop n =
     (case nm_Shutdown (n_nm n) of
        (nm, Inl e) \<Rightarrow> (n\<lparr>n_nm := nm\<rparr>, Inl (map_failure InitManager e))
      | (nm, Inr _) \<Rightarrow> (n\<lparr>n_nm := nm, n_cancelled := True\<rparr>, Inr ()))"

text \<open>The first loop of \<open>Join\<close>: up to three pings, stopping at the first that succeeds.\<close>

fun ping_retry :: "'z router_codec_scheme \<Rightarrow> (nat \<Rightarrow> client_net) \<Rightarrow> nat \<Rightarrow> nat \<Rightarrow> string \<Rightarrow> 's node
    \<Rightarrow> 's node \<times> (node_error, unit) go" where
  "ping_retry cd nets i 0 a n = (n, Inr ())"
| "ping_retry cd nets i (Suc m) a n =
     (case node_Ping cd (nets i) n a of
        (n, Inl (Panic p)) \<Rightarrow> (n, Inl (Panic p))
      | (n, Inl Blocked) \<Rightarrow> (n, Inl Blocked)
      | (n, Inl (Err e)) \<Rightarrow> ping_retry cd nets (Suc i) m a n
      | (n, Inr _) \<Rightarrow> (n, Inr ()))"

text \<open>
  The last loop runs one goroutine per peer, each pinging its peer three times whether or not a ping
  succeeds; \<open>sched\<close> is the order in which the pings of all goroutines complete.
\<close>

definition join_address :: "cptr \<Rightarrow> string" where
  "join_address p = GetAddress p @ '':'' @ GetUdpPort p"

definition node_Join :: "'z router_codec_scheme \<Rightarrow> (nat \<Rightarrow> client_net) \<Rightarrow> (nat \<Rightarrow> client_net)
    \<Rightarrow> lookup_env \<Rightarrow> (string list \<Rightarrow> string list) \<Rightarrow> 's node \<Rightarrow> string
    \<Rightarrow> 's node \<times> (node_error, unit) go" where
  "node_Join cd pnets lnets env sched n boot =
     (let self = join_address (Some (n_Contact n)) in
      if boot = self then (n, Inl (Err BootstrapToSelf))
      else case ping_retry cd pnets 0 3 boot n of
        (n, Inl e) \<Rightarrow> (n, Inl e)
      | (n, Inr _) \<Rightarrow>
     (case Lookup cd lnets env (n_nm n) (n_ID n) of
        Inl e \<Rightarrow> (n, Inl (map_failure LookupFailed e))
      | Inr found \<Rightarrow>
          let targets = filter (\<lambda>a. a \<noteq> boot \<and> a \<noteq> self) (map join_address found) in
          ping_all cd pnets 3 (sched (concat (map (replicate 3) targets))) n))"

text \<open>\<open>Put\<close> hands every call the nil pointer \<open>res\<close> to decode into, and stops at the first error.\<close>

fun store_all :: "'z router_codec_scheme \<Rightarrow> (nat \<Rightarrow> client_net) \<Rightarrow> nat \<Rightarrow> store_msg \<Rightarrow> cptr list \<Rightarrow> 's node
    \<Rightarrow> 's node \<times> (node_error, unit) go" where
  "store_all cd nets i msg [] n = (n, Inr ())"
| "store_all cd nets i msg (p # ps) n =
     (case GetUDPAddress p of
        Inl e \<Rightarrow> (n, Inl e)
      | Inr addr \<Rightarrow>
     (case InvokeRPC cd (nets i) (n_nm n) addr kademlia_service ''Store'' (SendRouter (ReqStore msg)) WantNilAck of
        (nm, Inl e) \<Rightarrow> (n\<lparr>n_nm := nm\<rparr>, Inl (map_failure StoreFailed e))
      | (nm, Inr _) \<Rightarrow> store_all cd nets (Suc i) msg ps (n\<lparr>n_nm := nm\<rparr>)))"

definition node_Put :: "'z router_codec_scheme \<Rightarrow> (nat \<Rightarrow> client_net) \<Rightarrow> (nat \<Rightarrow> client_net)
    \<Rightarrow> lookup_env \<Rightarrow> 's node \<Rightarrow> bytes \<Rightarrow> bytes \<Rightarrow> 's node \<times> (node_error, unit) go" where
  "node_Put cd snets lnets env n key val =
     (case NodeID_conv key of
        Inl e \<Rightarrow> (n, Inl e)
      | Inr target \<Rightarrow>
     (case Lookup cd lnets env (n_nm n) target of
        Inl e \<Rightarrow> (n, Inl (map_failure LookupFailed e))
      | Inr found \<Rightarrow>
          store_all cd snets 0 \<lparr>store_From = Some (n_Contact n), store_Key = key, store_Value = val\<rparr> found n))"

text \<open>
  \<open>Get\<close> is unfinished in the source: it sends an envelope to the address spelled by its own
  identifier's bytes and never answers a value.
\<close>

definition node_Get :: "'z router_codec_scheme \<Rightarrow> client_net \<Rightarrow> 's node \<Rightarrow> bytes
    \<Rightarrow> 's node \<times> (node_error, bytes \<times> bool) go" where
  "node_Get cd net n key =
     (let req = \<lparr>rpc_Service = kademlia_service, rpc_Method = ''FindValue'',
                 rpc_Sender = Some (n_Contact n), rpc_Payload = []\<rparr>;
          addr = map (\<lambda>b. char_of (unat b)) (c_Id (n_Contact n))
      in case InvokeRPC cd net (n_nm n) addr (rpc_Service req) (rpc_Method req) (SendRPC req) WantRPC of
           (nm, Inl e) \<Rightarrow> (n\<lparr>n_nm := nm\<rparr>, Inl (map_failure FindValueFailed e))
         | (nm, Inr _) \<Rightarrow> (n\<lparr>n_nm := nm\<rparr>, Inr ([], False)))"

text \<open>
  \<open>RefreshBuckets\<close>: for bucket \<open>k\<close>, \<open>rand k\<close> is what the random source gives, \<open>lnets k\<close> the network of the
  lookup and \<open>pnets k\<close> that of the pings.
\<close>

fun ping_contacts :: "'z router_codec_scheme \<Rightarrow> (nat \<Rightarrow> client_net) \<Rightarrow> nat \<Rightarrow> cptr list \<Rightarrow> 's node
    \<Rightarrow> 's node \<times> (node_error, unit) go" where
  "ping_contacts cd nets i [] n = (n, Inr ())"
| "ping_contacts cd nets i (c # cs) n =
     (case GetUDPAddress c of
        Inl e \<Rightarrow> (n, Inl e)
      | Inr addr \<Rightarrow>
     (case node_Ping cd (nets i) n addr of
        (n, Inl (Panic p)) \<Rightarrow> (n, Inl (Panic p))
      | (n, Inl Blocked) \<Rightarrow> (n, Inl Blocked)
      | (n, _) \<Rightarrow> ping_contacts cd nets (Suc i) cs n))"

definition refresh_bucket :: "'z router_codec_scheme \<Rightarrow> bytes option \<Rightarrow> (nat \<Rightarrow> client_net) \<Rightarrow> (nat \<Rightarrow> client_net)
    \<Rightarrow> lookup_env \<Rightarrow> nat \<Rightarrow> 's node \<Rightarrow> 's node \<times> (node_error, unit) go" where
  "refresh_bucket cd rand lnets pnets env k n =
     (case GetBucketSize (nm_router (n_nm n)) (int k) of
        Inl (Panic p) \<Rightarrow> (n, Inl (Panic p))
      | Inl _ \<Rightarrow> (n, Inr ())
      | Inr sz \<Rightarrow>
          if sz \<le> 0 then (n, Inr ())
          else (case RandomIDInBucket rand (n_ID n) (int k) of
              Inl (Panic p) \<Rightarrow> (n, Inl (Panic p))
            | Inl _ \<Rightarrow> (n, Inr ())
            | Inr target \<Rightarrow>
                (case Lookup cd lnets env (n_nm n) target of
                   Inl (Panic p) \<Rightarrow> (n, Inl (Panic p))
                 | Inl Blocked \<Rightarrow> (n, Inl Blocked)
                 | Inl _ \<Rightarrow> (n, Inr ())
                 | Inr closest \<Rightarrow> ping_contacts cd pnets 0 closest n)))"

fun refresh_loop :: "'z router_codec_scheme \<Rightarrow> (nat \<Rightarrow> bytes option) \<Rightarrow> (nat \<Rightarrow> nat \<Rightarrow> client_net)
    \<Rightarrow> (nat \<Rightarrow> nat \<Rightarrow> client_net) \<Rightarrow> lookup_env \<Rightarrow> nat list \<Rightarrow> 's node
    \<Rightarrow> 's node \<times> (node_error, unit) go" where
  "refresh_loop cd rand lnets pnets env [] n = (n, Inr ())"
| "refresh_loop cd rand lnets pnets env (k # ks) n =
     (case refresh_bucket cd (rand k) (lnets k) (pnets k) env k n of
        (n, Inl e) \<Rightarrow> (n, Inl e)
      | (n, Inr _) \<Rightarrow> refresh_loop cd rand lnets pnets env ks n)"

definition RefreshBuckets :: "'z router_codec_scheme \<Rightarrow> (nat \<Rightarrow> bytes option) \<Rightarrow> (nat \<Rightarrow> nat \<Rightarrow> client_net)
    \<Rightarrow> (nat \<Rightarrow> nat \<Rightarrow> client_net) \<Rightarrow> lookup_env \<Rightarrow> 's node
    \<Rightarrow> 's node \<times> (node_error, unit) go" where
  "RefreshBuckets cd rand lnets pnets env n = refresh_loop cd rand lnets pnets env [0..<KeyBits] n"

section \<open>Lemmas\<close>

text \<open>A manager whose table holds whole contacts only, and a network that answers with such.\<close>

definition mgr_ok :: "network_manager \<Rightarrow> bool" where
  "mgr_ok nm \<longleftrightarrow> nm_inv nm \<and> 0 < cf_K (nm_cfg nm) \<and> 0 \<le> cf_Alpha (nm_cfg nm)
     \<and> whole (nm_info nm) \<and> (\<forall>c \<in> table_peers (nm_router nm). whole c)"

fun response_whole :: "response \<Rightarrow> bool" where
  "response_whole (GotAck a) = whole (ack_From a)"
| "response_whole (GotNodes ns) = (whole (nodes_From ns) \<and> (\<forall>c\<in>set (nodes_Nodes ns). whole c))"
| "response_whole (GotRPC r) = True"

text \<open>The method of a request, the holder its caller passes, and the requests of maintenance: pings and searches.\<close>

primrec request_method :: "request \<Rightarrow> string" where
  "request_method (ReqPing m) = ''Ping''"
| "request_method (ReqStore m) = ''Store''"
| "request_method (ReqDelete m) = ''Delete''"
| "request_method (ReqFindNode m) = ''FindNode''"
| "request_method (ReqFindValue m) = ''FindValue''"
| "request_method (ReqRefresh m) = ''Refresh''"

definition wanted :: "request \<Rightarrow> holder" where
  "wanted req = (case req of ReqFindNode _ \<Rightarrow> WantNodes | _ \<Rightarrow> WantAck)"

definition maintains :: "request \<Rightarrow> bool" where
  "maintains req \<longleftrightarrow> whole (request_from req)
     \<and> (case req of ReqPing _ \<Rightarrow> True | ReqFindNode _ \<Rightarrow> True | _ \<Rightarrow> False)"

text \<open>A network that answers the pings and searches of whole callers with whole contacts.\<close>

definition honest :: "'z router_codec_scheme \<Rightarrow> client_net \<Rightarrow> bool" where
  "honest cd net \<longleftrightarrow> (\<forall>info addr svc req resp. whole info \<longrightarrow> maintains req \<longrightarrow>
     exchange_rpc cd net info addr svc (request_method req) (SendRouter req) (wanted req) = Inr resp \<longrightarrow> response_whole resp)"

lemma update_whole:
  assumes "rt_inv rt" and "whole c" and "\<forall>x\<in>table_peers rt. whole x" and "rt_Update rt c = (rt', Inr ())"
  shows "\<forall>x\<in>table_peers rt'. whole x"
proof (cases "nid c = localID rt")
  case True
  then have "rt' = rt" using rt_Update_local [OF rt_inv_basic(2) [OF assms(1)] True] assms(4) by simp
  then show ?thesis using assms(3) by simp
next
  case False
  then have "updated_with rt rt' c" using rt_Update_total [OF assms(1) False] assms(4) by auto
  then show ?thesis using assms(2,3) by (auto simp: updated_with_def)
qed

lemma note_peer_cfg: "note_peer nm name c = (nm', r) \<Longrightarrow> nm_cfg nm' = nm_cfg nm"
  by (auto simp: note_peer_def Let_def split: prod.splits sum.splits failure.splits)

lemma note_peer_mgr:
  assumes "mgr_ok nm" and "whole c" and "note_peer nm name c = (nm', r)"
  shows "mgr_ok nm'"
proof -
  have inv: "nm_inv nm" "rt_inv (nm_router nm)" using assms(1) by (simp_all add: mgr_ok_def nm_inv_def table_ok_def)
  from note_peer_ok [OF inv(1), of name c] assms(3) have n: "nm_inv nm'"
    "rt_Update (nm_router nm) c = (nm_router nm', Inr ())" "nm_info nm' = nm_info nm" by auto
  then show ?thesis
    using update_whole [OF inv(2) assms(2) _ n(2)] assms(1) note_peer_cfg [OF assms(3)] by (simp add: mgr_ok_def)
qed

lemma note_nodes_mgr:
  "mgr_ok nm \<Longrightarrow> \<forall>c\<in>set cs. whole c \<Longrightarrow> note_nodes nm cs = (nm', r) \<Longrightarrow> mgr_ok nm'"
proof (induction cs arbitrary: nm)
  case (Cons c cs)
  obtain nm1 r1 where n: "note_peer nm (GetUsername c) c = (nm1, r1)" by fastforce
  then have "mgr_ok nm1" using note_peer_mgr Cons.prems(1,2) by (metis list.set_intros(1))
  then show ?case using Cons n by (auto split: sum.splits)
qed simp

lemma invoke_mgr:
  fixes req defines "meth \<equiv> request_method req" and "h \<equiv> wanted req"
  assumes "mgr_ok nm" and "honest cd net" and "maintains req"
    and call: "InvokeRPC cd net nm addr svc meth (SendRouter req) h = (nm', r)"
  shows "mgr_ok nm' \<and> (\<forall>p. r \<noteq> Inl (Panic p)) \<and> r \<noteq> Inl Blocked"
proof -
  note assms = assms(3,4) call
  let ?req = "SendRouter req"
  have inv: "nm_inv nm" using assms(1) by (simp add: mgr_ok_def)
  note cases = InvokeRPC_cases [OF inv assms(3)]
  have nn: "h \<noteq> WantNilAck" by (simp add: h_def wanted_def split: request.split)
  have whole: "response_whole resp" if "exchange_rpc cd net (nm_info nm) addr svc meth ?req h = Inr resp" for resp
    using that assms(1,2) \<open>maintains req\<close> by (auto simp: honest_def meth_def h_def mgr_ok_def)
  have no_panic: "\<forall>p. r \<noteq> Inl (Panic p)"
  proof (intro allI notI)
    fix p assume "r = Inl (Panic p)"
    then obtain resp where "response_whole resp" "response_from resp = None" "svc = kademlia_service"
      and resp: "exchange_rpc cd net (nm_info nm) addr svc meth ?req h = Inr resp"
      using cases nn whole by blast
    then obtain e where e: "resp = GotRPC e" by (cases resp) (auto simp: whole_def)
    then have "handle_response nm svc meth resp = (nm, Inr ()) \<or> snd (handle_response nm svc meth resp) = Inl (Err UnexpectedResponse)"
      by (auto simp: handle_response_def)
    then show False using assms(3) resp \<open>r = Inl (Panic p)\<close> inv
      by (auto simp: InvokeRPC_def nm_inv_def split: prod.splits)
  qed
  have "mgr_ok nm'"
  proof (cases "nm' = nm")
    case False
    obtain resp r1 where resp: "exchange_rpc cd net (nm_info nm) addr svc meth ?req h = Inr resp"
      and hr: "handle_response nm svc meth resp = (nm', r1)"
      using assms(3) False inv
      by (cases "exchange_rpc cd net (nm_info nm) addr svc meth ?req h")
        (auto simp: InvokeRPC_def nm_inv_def split: prod.splits sum.splits)
    show ?thesis
    proof (cases resp)
      case (GotAck a)
      then show ?thesis
        using hr False assms(1) whole [OF resp] note_peer_mgr [OF assms(1), of "ack_From a"]
        by (auto simp: handle_response_def split: if_splits option.splits)
    next
      case (GotNodes ns)
      then show ?thesis
        using hr False assms(1) whole [OF resp] note_nodes_mgr [OF assms(1), of "nodes_Nodes ns"]
        by (auto simp: handle_response_def split: if_splits option.splits)
    next
      case (GotRPC e)
      then show ?thesis using hr False by (auto simp: handle_response_def split: if_splits)
    qed
  qed (use assms(1) in simp)
  then show ?thesis using no_panic cases by blast
qed

definition node_ok :: "'s node \<Rightarrow> bool" where
  "node_ok n \<longleftrightarrow> mgr_ok (n_nm n) \<and> is_nodeid (n_ID n) \<and> whole (Some (n_Contact n))"

text \<open>How a node operation ends when it does not break the node.\<close>

definition fine :: "'s node \<times> (node_error, 'a) go \<Rightarrow> bool" where
  "fine res \<longleftrightarrow> node_ok (fst res) \<and> (\<forall>p. snd res \<noteq> Inl (Panic p)) \<and> snd res \<noteq> Inl Blocked"

lemma Ping_fine: "node_ok n \<Longrightarrow> honest cd net \<Longrightarrow> fine (node_Ping cd net n a)"
proof -
  assume n: "node_ok n" and h: "honest cd net"
  let ?req = "ReqPing \<lparr>ping_From = Some (n_Contact n), ping_Value = []\<rparr>"
  obtain nm r where i: "InvokeRPC cd net (n_nm n) a kademlia_service ''Ping'' (SendRouter ?req) WantAck = (nm, r)" by fastforce
  have m: "mgr_ok (n_nm n)" and req: "maintains ?req" using n by (simp_all add: node_ok_def maintains_def)
  have f: "mgr_ok nm" "\<forall>p. r \<noteq> Inl (Panic p)" "r \<noteq> Inl Blocked"
    using invoke_mgr [OF m h req, of a kademlia_service nm r] i by (simp_all add: wanted_def)
  have ok: "node_ok (n\<lparr>n_nm := nm\<rparr>)" using f(1) n by (simp add: node_ok_def)
  show ?thesis
  proof (cases r)
    case (Inl e)
    then show ?thesis using ok f by (cases e) (simp_all add: fine_def node_Ping_def i)
  qed (use ok in \<open>simp add: fine_def node_Ping_def i\<close>)
qed

lemma Ping_fine_cases:
  assumes "node_ok n" and "honest cd net"
  obtains n' where "node_ok n'" and "node_Ping cd net n a = (n', Inr ())"
  | n' e where "node_ok n'" and "node_Ping cd net n a = (n', Inl (Err e))"
proof -
  obtain n' r where p: "node_Ping cd net n a = (n', r)" by fastforce
  then have f: "node_ok n'" "\<forall>p. r \<noteq> Inl (Panic p)" "r \<noteq> Inl Blocked"
    using Ping_fine [OF assms, of a] by (simp_all add: fine_def)
  show thesis
  proof (cases r)
    case (Inl x)
    then show thesis using that(2) f p by (cases x) auto
  qed (use that(1) f p in simp)
qed

lemma ping_all_fine: "node_ok n \<Longrightarrow> \<forall>i. honest cd (nets i) \<Longrightarrow> fine (ping_all cd nets i as n)"
proof (induction as arbitrary: i n)
  case (Cons a as)
  show ?case
    by (rule Ping_fine_cases [OF Cons.prems(1), of cd "nets i" a]) (use Cons in auto)
qed (simp add: fine_def)

lemma ping_retry_fine: "node_ok n \<Longrightarrow> \<forall>i. honest cd (nets i) \<Longrightarrow> fine (ping_retry cd nets i m a n)
    \<and> snd (ping_retry cd nets i m a n) = Inr ()"
proof (induction m arbitrary: i n)
  case (Suc m)
  show ?case
    by (rule Ping_fine_cases [OF Suc.prems(1), of cd "nets i" a]) (use Suc in \<open>auto simp: fine_def\<close>)
qed (simp add: fine_def)

lemma ping_contacts_fine:
  "node_ok n \<Longrightarrow> \<forall>i. honest cd (nets i) \<Longrightarrow> \<forall>c\<in>set cs. whole c \<Longrightarrow> fine (ping_contacts cd nets i cs n)"
proof (induction cs arbitrary: i n)
  case (Cons c cs)
  obtain a where a: "GetUDPAddress c = (Inr a :: (node_error, string) go)"
    using Cons.prems(3) by (auto simp: GetUDPAddress_def whole_def)
  show ?case
    by (rule Ping_fine_cases [OF Cons.prems(1), of cd "nets i" a]) (use Cons a in auto)
qed (simp add: fine_def)

lemma Lookup_fine:
  assumes "mgr_ok nm" and "\<forall>i. honest cd (nets i)" and "lookup_env_ok env"
  obtains res where "Lookup cd nets env nm target = Inr res" and "\<forall>c\<in>set res. whole c"
proof -
  have w: "\<forall>c\<in>learned cd nets nm target. whole c"
  proof
    fix c assume "c \<in> learned cd nets nm target"
    then obtain i addr ns where c: "c \<in> set (nodes_Nodes ns)"
      and got: "exchange_rpc cd (nets i) (nm_info nm) addr routing_service ''FindNode''
        (SendRouter (ReqFindNode \<lparr>fn_From = nm_info nm, fn_TargetId = target\<rparr>)) WantNodes = Inr (GotNodes ns)"
      unfolding learned_def by blast
    let ?req = "ReqFindNode \<lparr>fn_From = nm_info nm, fn_TargetId = target\<rparr>"
    have "whole (nm_info nm)" "maintains ?req" using assms(1) by (simp_all add: mgr_ok_def maintains_def)
    moreover have "exchange_rpc cd (nets i) (nm_info nm) addr routing_service (request_method ?req) (SendRouter ?req)
        (wanted ?req) = Inr (GotNodes ns)" using got by (simp add: wanted_def)
    ultimately have "response_whole (GotNodes ns)" using assms(2) unfolding honest_def by blast
    then show "whole c" using c by simp
  qed
  have m: "nm_inv nm" "0 < cf_K (nm_cfg nm)" "0 \<le> cf_Alpha (nm_cfg nm)" "\<forall>c\<in>table_peers (nm_router nm). whole c"
    using assms(1) by (simp_all add: mgr_ok_def)
  obtain seed rounds late res where r: "ClosestK (nm_router nm) target = Inr seed" "Lookup cd nets env nm target = Inr res"
    "lookup_outcome cd nets env nm target seed rounds late res"
    using Lookup_result [OF m(1-3) assms(3) w m(4)] by blast
  then have "set res \<subseteq> set seed \<union> learned cd nets nm target"
    unfolding lookup_outcome_def Let_def by blast
  moreover have "set seed \<subseteq> table_peers (nm_router nm)"
    using ClosestK_correct [of "nm_router nm" target] r(1) by auto
  ultimately show thesis using that [OF r(2)] w m(4) by blast
qed

lemma refresh_bucket_fine:
  assumes "node_ok n" and "\<forall>i. honest cd (lnets i)" and "\<forall>i. honest cd (pnets i)"
    and "lookup_env_ok env"
  shows "fine (refresh_bucket cd rand lnets pnets env k n)
    \<and> (\<forall>e. snd (refresh_bucket cd rand lnets pnets env k n) \<noteq> Inl (Err e))"
proof -
  have m: "mgr_ok (n_nm n)" using assms(1) by (simp add: node_ok_def)
  have pc: "fine (ping_contacts cd pnets 0 cs n)" "\<forall>e. snd (ping_contacts cd pnets i cs n') \<noteq> Inl (Err e)"
    if "\<forall>c\<in>set cs. whole c" for cs i n'
    using ping_contacts_fine [OF assms(1,3) that] that
  proof -
    show "\<forall>e. snd (ping_contacts cd pnets i cs n') \<noteq> Inl (Err e)" using that
      by (induction cs arbitrary: i n') (auto simp: whole_def GetUDPAddress_def split: prod.splits sum.splits failure.splits)
  qed
  have "GetBucketSize (nm_router (n_nm n)) (int k) \<noteq> Inl f" for f by (simp add: GetBucketSize_def)
  then obtain sz where sz: "GetBucketSize (nm_router (n_nm n)) (int k) = Inr sz" by (cases "GetBucketSize (nm_router (n_nm n)) (int k)") auto
  have stay: "fine (n, Inr ())" using assms(1) by (simp add: fine_def)
  have np: "RandomIDInBucket rand (n_ID n) (int k) \<noteq> Inl (Panic p)" for p
    by (auto simp: RandomIDInBucket_def Let_def split: option.splits)
  show ?thesis
  proof (cases "0 < sz \<and> (\<exists>t. RandomIDInBucket rand (n_ID n) (int k) = Inr t)")
    case True
    then obtain t where t: "RandomIDInBucket rand (n_ID n) (int k) = Inr t" by blast
    obtain res where "Lookup cd lnets env (n_nm n) t = Inr res" "\<forall>c\<in>set res. whole c"
      by (rule Lookup_fine [OF m assms(2,4)])
    then show ?thesis using pc True sz t by (simp add: refresh_bucket_def)
  next
    case False
    then show ?thesis using stay sz np by (auto simp: refresh_bucket_def split: sum.splits failure.splits)
  qed
qed

lemma refresh_loop_fine:
  assumes "\<forall>k i. honest cd (lnets k i)" and "\<forall>k i. honest cd (pnets k i)"
    and "lookup_env_ok env"
  shows "node_ok n \<Longrightarrow> fine (refresh_loop cd rand lnets pnets env ks n)
    \<and> snd (refresh_loop cd rand lnets pnets env ks n) = Inr ()"
proof (induction ks arbitrary: n)
  case (Cons k ks)
  obtain n' r where b: "refresh_bucket cd (rand k) (lnets k) (pnets k) env k n = (n', r)" by fastforce
  from refresh_bucket_fine [OF Cons.prems, of cd "lnets k" "pnets k" env "rand k" k] assms b
  have f: "node_ok n'" "\<forall>p. r \<noteq> Inl (Panic p)" "r \<noteq> Inl Blocked" "\<forall>e. r \<noteq> Inl (Err e)"
    by (simp_all add: fine_def)
  have "r = Inr ()"
  proof (cases r)
    case (Inl x)
    then show ?thesis using f by (cases x) auto
  qed simp
  then show ?case using Cons.IH [OF f(1)] b by simp
qed (simp add: fine_def)

text \<open>
  Maintenance on an honest network, whoever answers and in whatever order: \<open>RefreshBuckets\<close> and \<open>Join\<close> end without
  panic and leave a well-formed node. \<open>Join\<close> fails only at its own address, not when nobody answers it.
\<close>

lemma ping_all_ends: "fine (ping_all cd nets i as n) \<Longrightarrow> snd (ping_all cd nets i as n) = Inr ()"
  by (induction as arbitrary: i n) (auto simp: fine_def split: prod.splits sum.splits failure.splits)

lemma maintenance_fine:
  assumes "node_ok n" and "\<forall>k i. honest cd (lnets k i)" and "\<forall>k i. honest cd (pnets k i)"
    and "lookup_env_ok env"
  shows "fine (RefreshBuckets cd rand lnets pnets env n)
    \<and> snd (RefreshBuckets cd rand lnets pnets env n) = Inr ()
    \<and> fine (node_Join cd (pnets j) (lnets j) env sched n boot)
    \<and> snd (node_Join cd (pnets j) (lnets j) env sched n boot)
        = (if boot = join_address (Some (n_Contact n)) then Inl (Err BootstrapToSelf) else Inr ())"
proof -
  have "fine (node_Join cd (pnets j) (lnets j) env sched n boot)
    \<and> snd (node_Join cd (pnets j) (lnets j) env sched n boot)
        = (if boot = join_address (Some (n_Contact n)) then Inl (Err BootstrapToSelf) else Inr ())"
  proof (cases "boot = join_address (Some (n_Contact n))")
    case True
    then show ?thesis using assms(1) by (simp add: node_Join_def fine_def)
  next
    case False
    obtain n' r where p: "ping_retry cd (pnets j) 0 3 boot n = (n', r)" by fastforce
    then have n': "node_ok n'" "r = Inr ()"
      using ping_retry_fine [OF assms(1), of cd "pnets j" 0 3 boot] assms(3) by (auto simp: fine_def)
    have m: "mgr_ok (n_nm n')" and h: "\<forall>i. honest cd (lnets j i)" "\<forall>i. honest cd (pnets j i)"
      using n'(1) assms(2,3) by (simp_all add: node_ok_def)
    obtain res where "Lookup cd (lnets j) env (n_nm n') (n_ID n') = Inr res"
      by (rule Lookup_fine [OF m h(1) assms(4)])
    then show ?thesis using p n' False ping_all_fine [OF n'(1) h(2)] ping_all_ends [OF ping_all_fine [OF n'(1) h(2)]]
      by (simp add: node_Join_def Let_def)
  qed
  then show ?thesis
    using refresh_loop_fine [OF assms(2-4,1)] by (simp add: RefreshBuckets_def)
qed

section \<open>Properties\<close>

lemma dead_honest: "honest cd dead_net"
  by (auto simp: honest_def exchange_rpc_def dead_net_def split: option.splits)

definition demo_node :: "network_manager \<Rightarrow> unit node" where
  "demo_node nm = \<lparr>n_ID = zero_id, n_Contact = the (low_peer 0), n_cfg = demo_config routing_service,
     n_nm = nm, n_storage = None, n_cancelled = False\<rparr>"

lemma demo_node_ok:
  obtains nm where "node_ok (demo_node nm)"
proof -
  obtain nm where "nm_serving demo_codec nm" "table_peers (nm_router nm) = {low_peer 0}"
    "nm_cfg nm = demo_config routing_service" "nm_info nm = low_peer 0" by (rule demo_manager_full)
  then have "node_ok (demo_node nm)"
    by (simp add: node_ok_def mgr_ok_def nm_serving_def demo_node_def demo_config_def default_config_def
        whole_def low_peer_Some is_nodeid_def)
  then show thesis by (rule that)
qed

text \<open>
  C20. \<open>Put\<close> stores nothing: it succeeds exactly when the key has at least 20 bytes and the lookup for
  its first 20 finds nobody to store it at. As soon as one peer is found, its
  request is answered by an error or, since the answer is decoded through a nil pointer,
  by a panic.
\<close>

theorem Put_stores_nothing:
  "snd (node_Put cd snets lnets env (n :: 's node) key val) = Inr () \<longleftrightarrow>
     KeyBytes \<le> length key \<and> Lookup cd lnets env (n_nm n) (take KeyBytes key) = Inr []"
proof -
  have "exchange_rpc cd net info addr svc meth req WantNilAck \<noteq> Inr resp" for net info addr svc meth req resp
    by (auto simp: exchange_rpc_def unmarshal_response_def split: option.splits exchange.splits)
  then have no: "snd (InvokeRPC cd net nm addr svc meth req WantNilAck) \<noteq> Inr resp" for net nm addr svc meth req resp
    by (auto simp: InvokeRPC_def split: option.splits sum.splits prod.splits)
  have "snd (store_all cd snets i msg ps m) = Inr () \<longleftrightarrow> ps = []" for i msg ps and m :: "'s node"
  proof (cases ps)
    case (Cons p ps')
    then show ?thesis
      using no [of "snets i" "n_nm m"] by (auto split: sum.splits prod.splits) (metis snd_conv)
  qed simp
  then show ?thesis
    by (auto simp: node_Put_def NodeID_conv_def split: sum.splits)
qed

lemma NewNode_result:
  assumes "StringToNodeID (cf_NodeID cfg) = Inr ident" and "0 < cf_K cfg" and "0 \<le> cf_Alpha cfg"
    and "distinct (map fst (cf_AppLocks cfg))" and "\<forall>(svc, str) \<in> set (cf_AppLocks cfg). good_lock str"
    and "routing_service \<in> fst ` set (cf_AppLocks cfg)" and "StringToNodeID (cf_NodeID bad) = Inl (Err e)"
  shows "(\<exists>n. NewNode cd now store (Inr cfg) = Inr n \<and> node_ok n \<and> nm_serving cd (n_nm n)
      \<and> n_ID n = ident \<and> nm_info (n_nm n) = Some (n_Contact n) \<and> c_Id (n_Contact n) = ident
      \<and> c_Username (n_Contact n) = cf_Username cfg \<and> c_Address (n_Contact n) = cf_Address cfg
      \<and> c_UdpPort (n_Contact n) = port_string (cf_UDPPort cfg) \<and> n_storage n = store)
    \<and> NewNode cd now store (Inr bad) = Inl (Err (InvalidNodeID e))"
proof -
  have len: "length ident = 20" using assms(1) by (auto simp: StringToNodeID_def split: option.splits if_splits)
  define c where "c = UpdateUsername (NewContact now ident (cf_Address cfg) (port_string (cf_TCPPort cfg))
      (port_string (cf_UDPPort cfg))) (cf_Username cfg)"
  have cid: "c_Id c = ident" by (simp add: c_def UpdateUsername_def NewContact_def)
  obtain nm where nm: "NewNetworkManager cd (Some c) cfg = Inr nm" "nm_serving cd nm" "nm_info nm = Some c"
    "nm_cfg nm = cfg" "table_peers (nm_router nm) = {Some c}"
    using NewNetworkManager_result [of "Some c" cfg cd] assms cid len by auto
  then have "node_ok \<lparr>n_ID = ident, n_Contact = c, n_cfg = cfg, n_nm = nm, n_storage = store, n_cancelled = False\<rparr>"
    using assms(2,3) cid len by (simp add: node_ok_def mgr_ok_def nm_serving_def whole_def is_nodeid_def)
  then show ?thesis
    using nm assms(1,7) by (simp add: NewNode_def c_def [symmetric] cid)
      (simp add: c_def UpdateUsername_def NewContact_def)
qed

text \<open>
  C19. Construction: a configuration with an identifier of 40 hexadecimal digits, positive \<open>k\<close>,
  valid locks and one for \<open>router.RoutingService\<close> gives a node that is ready to be maintained and
  to serve, whose local contact carries the configured identifier, name, address and ports; a
  configuration whose identifier does not parse gives none.
\<close>

theorem NewNode_ready:
  assumes "StringToNodeID (cf_NodeID cfg) = Inr ident" and "0 < cf_K cfg" and "0 \<le> cf_Alpha cfg"
    and "distinct (map fst (cf_AppLocks cfg))" and "\<forall>(svc, str) \<in> set (cf_AppLocks cfg). good_lock str"
    and "routing_service \<in> fst ` set (cf_AppLocks cfg)" and "StringToNodeID (cf_NodeID bad) = Inl (Err e)"
  shows "(\<exists>n. NewNode cd now store (Inr cfg) = Inr n \<and> node_ok n \<and> nm_serving cd (n_nm n)
      \<and> n_ID n = ident \<and> nm_info (n_nm n) = Some (n_Contact n) \<and> c_Id (n_Contact n) = ident
      \<and> c_Username (n_Contact n) = cf_Username cfg \<and> c_Address (n_Contact n) = cf_Address cfg
      \<and> c_UdpPort (n_Contact n) = port_string (cf_UDPPort cfg) \<and> n_storage n = store)
    \<and> NewNode cd now store (Inr bad) = Inl (Err (InvalidNodeID e))"
  by (rule NewNode_result [OF assms])

theorem NewNode_ready_witness:
  "\<exists>n :: unit node. NewNode demo_codec 0 None (Inr (demo_config routing_service)) = Inr n \<and> node_ok n"
proof -
  have id: "StringToNodeID (cf_NodeID (demo_config routing_service)) = Inr zero_id"
    and bad: "StringToNodeID (cf_NodeID ((demo_config routing_service)\<lparr>cf_NodeID := ''zz''\<rparr>)) = Inl (Err InvalidHex)"
    by (simp add: demo_config_def default_config_def; code_simp)+
  show ?thesis
    using NewNode_ready [OF id _ _ _ _ _ bad, of demo_codec 0 None]
    by (auto simp: demo_config_def default_config_def good_demo_lock)
qed

end
