(* ===== verification/Network.thy ===== *)
theory Network
  imports Node
begin

text \<open>
  Nodes that talk to each other. The network arguments of \<open>InvokeRPC\<close> and of the receive loop are connected here: a
  datagram sent to an address is what one turn of the loop at that address meets, the packet it pushes is
  served, and the datagram written in reply, if any, is what the caller reads before its deadline.
\<close>

section \<open>The network\<close>

text \<open>
  The length field of UDP has 16 bits, so a datagram is always smaller than the receive buffers of 64 KiB, and a socket
  refuses to send a longer one. Here it refuses what does not fit the buffers.
\<close>

definition fits :: "bytes \<Rightarrow> bool" where "fits b \<longleftrightarrow> length b \<le> recv_buffer"

definition udp_writes :: "string \<Rightarrow> bytes \<Rightarrow> bool" where "udp_writes peer b \<longleftrightarrow> fits b"

text \<open>One datagram from address \<open>from\<close> at a manager: the manager after it and what the sender gets.\<close>

definition answer :: "'z router_codec_scheme \<Rightarrow> string \<Rightarrow> bytes \<Rightarrow> network_manager \<Rightarrow> network_manager \<times> exchange" where
  "answer cd from raw nm =
     (case udp_turn cd udp_writes (Datagram from raw) of
        Push pkt \<Rightarrow>
          (case process_packet nm pkt of
             (nm, Inr (Some (peer, out))) \<Rightarrow> (nm, Received out)
           | (nm, _) \<Rightarrow> (nm, ReadFailed))
      | _ \<Rightarrow> (nm, ReadFailed))"

text \<open>What a caller at \<open>from\<close> sees of the managers that listen; nobody answers for the other addresses.\<close>

definition lan :: "'z router_codec_scheme \<Rightarrow> string \<Rightarrow> (string \<Rightarrow> network_manager option) \<Rightarrow> client_net" where
  "lan cd from hosts =
     \<lparr>cn_resolves = (\<lambda>_. True), cn_dials = (\<lambda>_. True),
      cn_exchange = (\<lambda>addr raw. if \<not> fits raw then SendFailed
        else case hosts addr of None \<Rightarrow> ReadFailed | Some nm \<Rightarrow> snd (answer cd from raw nm))\<rparr>"

text \<open>
  The protobuf codec as it is documented: what it encodes, it decodes.
\<close>

definition codec_laws :: "'z router_codec_scheme \<Rightarrow> bool" where
  "codec_laws cd \<longleftrightarrow>
     (\<forall>r b. pb_marshal_RPC cd r = Some b \<longrightarrow> pb_unmarshal_RPC cd b = Some r)
     \<and> (\<forall>req b. pb_marshal_request cd req = Some b \<longrightarrow>
          (\<exists>dec. request_decoder cd (request_method req) = Some dec \<and> dec b = Some req))
     \<and> (\<forall>a b. pb_marshal_reply cd (RepAck a) = Some b \<longrightarrow> pb_ACK cd b = Some a)
     \<and> (\<forall>ns b. pb_marshal_reply cd (RepNodes ns) = Some b \<longrightarrow> pb_NODES cd b = Some ns)"

definition decoded_reply :: "reply \<Rightarrow> response option" where
  "decoded_reply rep = (case rep of RepAck a \<Rightarrow> Some (GotAck a) | RepNodes ns \<Rightarrow> Some (GotNodes ns) | RepValue _ \<Rightarrow> None)"

definition holder_for :: "reply \<Rightarrow> holder" where
  "holder_for rep = (case rep of RepNodes _ \<Rightarrow> WantNodes | _ \<Rightarrow> WantAck)"

text \<open>
  The datagram with the request \<open>req\<close> of \<open>a\<close> under the service name \<open>svc\<close>, and the one with its reply; both have
  to fit the receive buffers.
\<close>

definition request_datagram :: "'z router_codec_scheme \<Rightarrow> string \<Rightarrow> contact \<Rightarrow> request \<Rightarrow> bytes \<Rightarrow> bool" where
  "request_datagram cd svc a req d \<longleftrightarrow>
     (\<exists>p. pb_marshal_request cd req = Some p
        \<and> pb_marshal_RPC cd \<lparr>rpc_Service = svc, rpc_Method = request_method req, rpc_Sender = Some a, rpc_Payload = p\<rparr> = Some d)
     \<and> fits d"

definition reply_datagram :: "'z router_codec_scheme \<Rightarrow> string \<Rightarrow> contact \<Rightarrow> request \<Rightarrow> reply \<Rightarrow> bytes \<Rightarrow> bool" where
  "reply_datagram cd svc b req rep out \<longleftrightarrow>
     (\<exists>p. pb_marshal_reply cd rep = Some p
        \<and> pb_marshal_RPC cd \<lparr>rpc_Service = svc, rpc_Method = request_method req, rpc_Sender = Some b, rpc_Payload = p\<rparr> = Some out)
     \<and> fits out"

section \<open>One call between two managers\<close>

lemma request_arrives:
  assumes "codec_laws cd" and "request_datagram cd svc a req d"
  obtains pkt p dec where "udp_turn cd udp_writes (Datagram from d) = Push pkt"
    and "p_RPC pkt = \<lparr>rpc_Service = svc, rpc_Method = request_method req, rpc_Sender = Some a, rpc_Payload = p\<rparr>"
    and "p_Sender pkt = Some a" and "request_decoder cd (request_method req) = Some dec" and "dec p = Some req"
proof -
  obtain p where p: "pb_marshal_request cd req = Some p"
    "pb_marshal_RPC cd \<lparr>rpc_Service = svc, rpc_Method = request_method req, rpc_Sender = Some a, rpc_Payload = p\<rparr> = Some d"
    and len: "fits d" using assms(2) by (auto simp: request_datagram_def)
  have "pb_unmarshal_RPC cd (take recv_buffer d) = Some
      \<lparr>rpc_Service = svc, rpc_Method = request_method req, rpc_Sender = Some a, rpc_Payload = p\<rparr>"
    using assms(1) p(2) len by (simp add: codec_laws_def fits_def)
  moreover obtain dec where "request_decoder cd (request_method req) = Some dec" "dec p = Some req"
    using assms(1) p(1) unfolding codec_laws_def by blast
  ultimately show ?thesis using that by (simp add: udp_turn_def GetUDPAddress_def)
qed

text \<open>The request reaches the manager and its reply reaches the caller.\<close>

lemma call_served:
  assumes laws: "codec_laws cd" and inv: "nm_inv nm" and info: "nm_info nm = Some b"
    and reg: "nm_registry nm (lookup_lock nm svc) = Some (routing_registry cd)"
    and req: "request_datagram cd svc a req d"
    and serve: "serve_request (nm_router nm) req = (rt1, Inr rep)"
    and rep: "reply_datagram cd svc b req rep out"
  shows "\<exists>nm'. answer cd from d nm = (nm', Received out) \<and> nm_inv nm'
    \<and> nm_info nm' = nm_info nm \<and> nm_registry nm' = nm_registry nm \<and> nm_appLocks nm' = nm_appLocks nm
    \<and> nm_peers nm' = (nm_peers nm)(c_Username a \<mapsto> Some a) \<and> rt_Update rt1 (Some a) = (nm_router nm', Inr ())"
proof -
  obtain pkt p dec where pkt: "udp_turn cd udp_writes (Datagram from d) = Push pkt"
    "p_RPC pkt = \<lparr>rpc_Service = svc, rpc_Method = request_method req, rpc_Sender = Some a, rpc_Payload = p\<rparr>"
    and dec: "request_decoder cd (request_method req) = Some dec" "dec p = Some req"
    using request_arrives [OF laws req] by metis
  obtain q where q: "pb_marshal_reply cd rep = Some q"
    "pb_marshal_RPC cd \<lparr>rpc_Service = svc, rpc_Method = request_method req, rpc_Sender = nm_info nm, rpc_Payload = q\<rparr> = Some out"
    "udp_writes from out"
    using rep info by (auto simp: reply_datagram_def udp_writes_def)
  from served_request [OF inv reg pkt dec serve q] pkt(1)
  show ?thesis by (auto simp: answer_def)
qed

lemma call_returns:
  assumes laws: "codec_laws cd" and host: "hosts addr = Some nm" and req: "request_datagram cd svc a req d"
    and ans: "answer cd from d nm = (nm', Received out)" and rep: "reply_datagram cd svc b req rep out"
    and resp: "decoded_reply rep = Some resp"
  shows "exchange_rpc cd (lan cd from hosts) (Some a) addr svc (request_method req) (SendRouter req) (holder_for rep) = Inr resp"
proof -
  obtain p where p: "pb_marshal_request cd req = Some p"
    "pb_marshal_RPC cd \<lparr>rpc_Service = svc, rpc_Method = request_method req, rpc_Sender = Some a, rpc_Payload = p\<rparr> = Some d"
    and fd: "fits d"
    using req by (auto simp: request_datagram_def)
  obtain q where q: "pb_marshal_reply cd rep = Some q"
    "pb_marshal_RPC cd \<lparr>rpc_Service = svc, rpc_Method = request_method req, rpc_Sender = Some b, rpc_Payload = q\<rparr> = Some out"
    and len: "fits out" using rep by (auto simp: reply_datagram_def)
  have env: "pb_unmarshal_RPC cd (take recv_buffer out) = Some
      \<lparr>rpc_Service = svc, rpc_Method = request_method req, rpc_Sender = Some b, rpc_Payload = q\<rparr>"
    using laws q(2) len by (simp add: codec_laws_def fits_def)
  have "unmarshal_response cd (holder_for rep) q = Inr (Some resp)"
    using laws q(1) resp by (cases rep) (auto simp: unmarshal_response_def holder_for_def decoded_reply_def codec_laws_def)
  then show ?thesis using p fd env host ans by (simp add: exchange_rpc_def marshal_request_def lan_def)
qed

text \<open>A service name without a registered lock: the request is counted as an error, and nothing comes back.\<close>

lemma call_unserved:
  assumes laws: "codec_laws cd" and info: "nm_info nm = Some b" and none: "nm_registry nm (lookup_lock nm svc) = None"
    and host: "hosts addr = Some nm" and req: "request_datagram cd svc a req d"
  shows "answer cd from d nm = (count_error nm, ReadFailed)
    \<and> exchange_rpc cd (lan cd from hosts) (Some a) addr svc (request_method req) (SendRouter req) h
        = Inl (Err (ReadFrom addr))"
proof
  obtain pkt p where pkt: "udp_turn cd udp_writes (Datagram from d) = Push pkt"
    "p_RPC pkt = \<lparr>rpc_Service = svc, rpc_Method = request_method req, rpc_Sender = Some a, rpc_Payload = p\<rparr>"
    using request_arrives [OF laws req] by metis
  have "process_packet nm pkt = (count_error nm, Inr None)"
    using pkt(2) info none by (simp add: process_packet_def DispatchRPC_def Let_def)
  then show ans: "answer cd from d nm = (count_error nm, ReadFailed)" using pkt(1) by (simp add: answer_def)
  show "exchange_rpc cd (lan cd from hosts) (Some a) addr svc (request_method req) (SendRouter req) h
      = Inl (Err (ReadFrom addr))"
    using req host ans by (auto simp: exchange_rpc_def marshal_request_def lan_def request_datagram_def)
qed

text \<open>An answer comes only from a host whose reply could be encoded.\<close>

lemma served_encoded:
  assumes pkt: "udp_turn cd udp_writes (Datagram from d) = Push pkt"
    and r: "p_RPC pkt = \<lparr>rpc_Service = svc, rpc_Method = meth, rpc_Sender = Some s, rpc_Payload = payload\<rparr>"
    and inv: "nm_inv nm" and reg: "nm_registry nm (lookup_lock nm svc) = Some (routing_registry cd)"
    and dec: "request_decoder cd meth = Some dec" "dec payload = Some req"
    and serve: "serve_request (nm_router nm) req = (rt1, Inr rep)"
    and out: "process_packet nm pkt = (nm', Inr (Some out))"
  obtains body raw where "pb_marshal_reply cd rep = Some body" and "fits raw"
    and "pb_marshal_RPC cd \<lparr>rpc_Service = svc, rpc_Method = meth, rpc_Sender = nm_info nm, rpc_Payload = body\<rparr> = Some raw"
proof -
  have info: "nm_info nm \<noteq> None" using inv by (simp add: nm_inv_def)
  have meth: "meth \<in> set (sd_Methods RoutingService_ServiceDesc)"
    using dec(1) by (auto simp: request_decoder_def RoutingService_ServiceDesc_def split: if_splits)
  obtain nm1 r1 where d: "DispatchRPC nm (lookup_lock nm svc) meth payload = (nm1, r1)" by fastforce
  have info1: "nm_info nm1 = nm_info nm" using DispatchRPC_frame [OF d] by simp
  have snd: "p_Sender pkt = Some s" and rep: "p_Reply pkt = replyFn cd udp_writes from"
    using pkt r by (auto simp: udp_turn_def GetUDPAddress_def split: option.splits)
  obtain body where body: "r1 = Inr body" "\<exists>raw. fits raw \<and> pb_marshal_RPC cd \<lparr>rpc_Service = svc, rpc_Method = meth,
      rpc_Sender = nm_info nm, rpc_Payload = body\<rparr> = Some raw"
    using out d r snd rep info1
    by (auto simp: process_packet_def Let_def replyFn_def udp_writes_def
        split: sum.splits failure.splits prod.splits option.splits if_splits)
  moreover have "pb_marshal_reply cd rep = Some body"
    using d body(1) info reg meth dec serve
    by (auto simp: DispatchRPC_def routing_registry_def register_methods_eq routing_methods_def make_handler_def
        call_router_def split: option.splits)
  ultimately show thesis using that by blast
qed

section \<open>Looking up on a network of nodes\<close>

text \<open>A host that serves and whose table holds whole contacts only.\<close>

definition lan_host :: "'z router_codec_scheme \<Rightarrow> network_manager \<Rightarrow> bool" where
  "lan_host cd h \<longleftrightarrow> nm_serving cd h \<and> (\<forall>c\<in>table_peers (nm_router h). whole c)"

lemma find_node_served:
  assumes "rt_inv rt"
  obtains rt1 ns where "rt_Update rt from = (rt1, Inr ())"
    and "serve_request rt (ReqFindNode \<lparr>fn_From = from, fn_TargetId = t\<rparr>)
           = (rt1, Inr (RepNodes \<lparr>nodes_From = rt_local rt, nodes_Nodes = ns\<rparr>))"
    and "ClosestK rt1 (SliceToNodeID t) = Inr ns" and "set ns \<subseteq> insert from (table_peers rt)"
proof -
  obtain rt1 where rt1: "rt_Update rt from = (rt1, Inr ())" "rt_local rt1 = rt_local rt"
    using rt_Update_ok [OF assms] by metis
  obtain ns where ns: "ClosestK rt1 (SliceToNodeID t) = Inr ns" "set ns \<subseteq> table_peers rt1"
    using ClosestK_correct by metis
  have "table_peers rt1 \<subseteq> insert from (table_peers rt)"
  proof (cases "nid from = localID rt")
    case True
    then show ?thesis using rt1(1) rt_Update_local [OF rt_inv_basic(2) [OF assms] True] by auto
  next
    case False
    then show ?thesis using rt_Update_total [OF assms False] rt1(1) by (auto simp: updated_with_def)
  qed
  then show ?thesis using that [OF rt1(1) _ ns(1)] ns rt1 by (auto simp: rs_FindNode_def noting_ok)
qed

text \<open>The reply to a request is the one its caller has a holder for; no caller asks for a value.\<close>

lemma served_reply:
  assumes "serve_request rt req = (rt1, Inr rep)" and "\<And>m. req \<noteq> ReqFindValue m"
  obtains resp where "decoded_reply rep = Some resp" and "holder_for rep = wanted req"
  using assms by (cases req) (auto simp: decoded_reply_def holder_for_def wanted_def map_sum_def apsnd_def map_prod_def
      split: sum.splits prod.splits)

text \<open>On a network of nodes a call brings an error, or what the manager at the address answers.\<close>

definition routes_only :: "'z router_codec_scheme \<Rightarrow> network_manager \<Rightarrow> bool" where
  "routes_only cd h \<longleftrightarrow> (\<forall>lock hs. nm_registry h lock = Some hs \<longrightarrow> hs = routing_registry cd)"

lemma lan_response:
  assumes laws: "codec_laws cd"
    and hosts: "\<And>h. hosts addr = Some h \<Longrightarrow> nm_inv h \<and> (nm_registry h (lookup_lock h svc) = None
          \<or> nm_registry h (lookup_lock h svc) = Some (routing_registry cd))"
    and req: "\<And>m. req \<noteq> ReqFindValue m"
    and got: "exchange_rpc cd (lan cd from hosts) (Some a) addr svc (request_method req) (SendRouter req) (wanted req) = Inr resp"
  obtains h rt1 rep where "hosts addr = Some h" and "serve_request (nm_router h) req = (rt1, Inr rep)"
    and "decoded_reply rep = Some resp"
proof -
  obtain d h b where d: "request_datagram cd svc a req d" and h: "hosts addr = Some h"
    and b: "snd (answer cd from d h) = Received b"
    using got
    by (auto simp: exchange_rpc_def marshal_request_def lan_def request_datagram_def
        split: option.splits exchange.splits if_splits)
  have inv: "nm_inv h" using hosts [OF h] by simp
  then obtain me where me: "nm_info h = Some me" by (auto simp: nm_inv_def)
  have reg: "nm_registry h (lookup_lock h svc) = Some (routing_registry cd)"
    using hosts [OF h] call_unserved [where hosts = hosts and addr = addr, OF laws me _ h d, of "from"] b by auto
  have "rt_inv (nm_router h)" using inv by (simp add: nm_inv_def table_ok_def)
  then obtain rt1 rep where s: "serve_request (nm_router h) req = (rt1, Inr rep)"
    using serve_request_ok rt_Update_ok by metis
  obtain resp' where r: "decoded_reply rep = Some resp'" "holder_for rep = wanted req"
    using served_reply [OF s req] .
  obtain pkt p dec where pkt: "udp_turn cd udp_writes (Datagram from d) = Push pkt"
    "p_RPC pkt = \<lparr>rpc_Service = svc, rpc_Method = request_method req, rpc_Sender = Some a, rpc_Payload = p\<rparr>"
    and dec: "request_decoder cd (request_method req) = Some dec" "dec p = Some req"
    using request_arrives [OF laws d] by metis
  obtain nm' out where "process_packet h pkt = (nm', Inr (Some out))"
    using b pkt(1) by (auto simp: answer_def split: prod.splits sum.splits option.splits)
  from served_encoded [OF pkt inv reg dec s this] me obtain body raw where
    "pb_marshal_reply cd rep = Some body" "fits raw" "pb_marshal_RPC cd \<lparr>rpc_Service = svc, rpc_Method = request_method req,
      rpc_Sender = Some me, rpc_Payload = body\<rparr> = Some raw"
    by metis
  then have rep: "reply_datagram cd svc me req rep raw" by (simp add: reply_datagram_def)
  obtain nm'' where "answer cd from d h = (nm'', Received raw)"
    using call_served [OF laws inv me reg d s rep] by blast
  from call_returns [where hosts = hosts and addr = addr, OF laws h d this rep r(1)] got
  have "resp = resp'" by (simp add: r(2))
  then show ?thesis using that [OF h s] r(1) by simp
qed

lemma find_node_answer:
  assumes laws: "codec_laws cd" and hosts: "\<And>h. hosts addr = Some h \<Longrightarrow> nm_serving cd h"
    and got: "exchange_rpc cd (lan cd from hosts) (Some a) addr routing_service ''FindNode''
        (SendRouter (ReqFindNode \<lparr>fn_From = Some a, fn_TargetId = t\<rparr>)) WantNodes = Inr (GotNodes ns)"
  obtains h where "hosts addr = Some h" and "set (nodes_Nodes ns) \<subseteq> insert (Some a) (table_peers (nm_router h))"
proof -
  let ?req = "ReqFindNode \<lparr>fn_From = Some a, fn_TargetId = t\<rparr>"
  have serves: "nm_inv h \<and> (nm_registry h (lookup_lock h routing_service) = None
      \<or> nm_registry h (lookup_lock h routing_service) = Some (routing_registry cd))" if "hosts addr = Some h" for h
    using hosts [OF that] by (simp add: nm_serving_def)
  have "exchange_rpc cd (lan cd from hosts) (Some a) addr routing_service (request_method ?req) (SendRouter ?req) (wanted ?req)
      = Inr (GotNodes ns)" using got by (simp add: wanted_def)
  from lan_response [OF laws serves _ this] obtain h rt1 rep where h: "hosts addr = Some h"
    and s: "serve_request (nm_router h) ?req = (rt1, Inr rep)" and r: "decoded_reply rep = Some (GotNodes ns)"
    by blast
  have "rt_inv (nm_router h)" using hosts [OF h] by (simp add: nm_serving_def nm_inv_def table_ok_def)
  then obtain rt2 ns' where s': "serve_request (nm_router h) ?req
      = (rt2, Inr (RepNodes \<lparr>nodes_From = rt_local (nm_router h), nodes_Nodes = ns'\<rparr>))"
    and sub: "set ns' \<subseteq> insert (Some a) (table_peers (nm_router h))"
    using find_node_served by metis
  have "rep = RepNodes \<lparr>nodes_From = rt_local (nm_router h), nodes_Nodes = ns'\<rparr>" using trans [OF s [symmetric] s'] by simp
  then have "nodes_Nodes ns = ns'" using r by (auto simp: decoded_reply_def)
  then show ?thesis using that [OF h] sub by simp
qed

text \<open>So whatever a lookup learns on such a network comes from the tables of the hosts or is the caller.\<close>

definition lan_contacts :: "(nat \<Rightarrow> string \<Rightarrow> network_manager option) \<Rightarrow> cptr set" where
  "lan_contacts hosts = {c. \<exists>n addr h. hosts n addr = Some h \<and> c \<in> table_peers (nm_router h)}"

lemma lan_learned:
  assumes laws: "codec_laws cd" and info: "nm_info nm = Some a"
    and hosts: "\<And>n addr h. hosts n addr = Some h \<Longrightarrow> lan_host cd h"
  shows "learned cd (\<lambda>n. lan cd from (hosts n)) nm target \<subseteq> insert (Some a) (lan_contacts hosts)"
proof
  fix c assume "c \<in> learned cd (\<lambda>n. lan cd from (hosts n)) nm target"
  then obtain n addr ns where got: "exchange_rpc cd (lan cd from (hosts n)) (Some a) addr routing_service ''FindNode''
      (SendRouter (ReqFindNode \<lparr>fn_From = Some a, fn_TargetId = target\<rparr>)) WantNodes = Inr (GotNodes ns)"
    and c: "c \<in> set (nodes_Nodes ns)" unfolding learned_def info by blast
  have "nm_serving cd h" if "hosts n addr = Some h" for h using hosts [OF that] by (simp add: lan_host_def)
  then obtain h where "hosts n addr = Some h" "set (nodes_Nodes ns) \<subseteq> insert (Some a) (table_peers (nm_router h))"
    using find_node_answer [OF laws _ got] by metis
  then show "c \<in> insert (Some a) (lan_contacts hosts)" using c unfolding lan_contacts_def by blast
qed

section \<open>A codec with a code book\<close>

text \<open>
  For the examples: the messages that can be sent are listed with their encodings, and nothing else is encoded.
\<close>

definition encode_with :: "(bytes \<times> 'a) list \<Rightarrow> 'a \<Rightarrow> bytes option" where
  "encode_with book x = map_of (map prod.swap book) x"

lemma encode_with_decodes:
  "distinct (map fst book) \<Longrightarrow> encode_with book x = Some b \<Longrightarrow> map_of book b = Some x"
  by (auto simp: encode_with_def dest!: map_of_SomeD)

definition book_codec :: "(bytes \<times> rpc) list \<Rightarrow> (bytes \<times> request) list \<Rightarrow> (bytes \<times> reply) list \<Rightarrow> router_codec" where
  "book_codec envs reqs reps =
     \<lparr>pb_marshal_RPC = encode_with envs, pb_unmarshal_RPC = map_of envs,
      pb_PING = (\<lambda>b. case map_of reqs b of Some (ReqPing m) \<Rightarrow> Some m | _ \<Rightarrow> None),
      pb_STORE = (\<lambda>b. case map_of reqs b of Some (ReqStore m) \<Rightarrow> Some m | _ \<Rightarrow> None),
      pb_DELETE = (\<lambda>b. case map_of reqs b of Some (ReqDelete m) \<Rightarrow> Some m | _ \<Rightarrow> None),
      pb_FIND_NODE = (\<lambda>b. case map_of reqs b of Some (ReqFindNode m) \<Rightarrow> Some m | _ \<Rightarrow> None),
      pb_FIND_VALUE = (\<lambda>b. case map_of reqs b of Some (ReqFindValue m) \<Rightarrow> Some m | _ \<Rightarrow> None),
      pb_REFRESH = (\<lambda>b. case map_of reqs b of Some (ReqRefresh m) \<Rightarrow> Some m | _ \<Rightarrow> None),
      pb_marshal_request = encode_with reqs, pb_marshal_reply = encode_with reps,
      pb_ACK = (\<lambda>b. case map_of reps b of Some (RepAck a) \<Rightarrow> Some a | _ \<Rightarrow> None),
      pb_NODES = (\<lambda>b. case map_of reps b of Some (RepNodes ns) \<Rightarrow> Some ns | _ \<Rightarrow> None)\<rparr>"

lemma book_codec_laws:
  assumes "distinct (map fst envs)" and "distinct (map fst reqs)" and "distinct (map fst reps)"
  shows "codec_laws (book_codec envs reqs reps)"
proof -
  have "\<exists>dec. request_decoder (book_codec envs reqs reps) (request_method req) = Some dec \<and> dec b = Some req"
    if "encode_with reqs req = Some b" for req b
    using encode_with_decodes [OF assms(2) that] by (cases req) (simp_all add: request_decoder_def book_codec_def)
  then show ?thesis
    using encode_with_decodes [OF assms(1)] encode_with_decodes [OF assms(3)]
    by (simp add: codec_laws_def) (simp add: book_codec_def)
qed

text \<open>Managers of the examples: the peer \<open>v\<close> that trusts the lock \<open>lock\<close> for the given service names.\<close>

definition lan_config :: "string \<Rightarrow> string list \<Rightarrow> config" where
  "lan_config lock names = (default_config zero_id ''localhost'')\<lparr>cf_AppLocks := map (\<lambda>n. (n, lock)) names\<rparr>"

definition one_lock :: string where "one_lock = replicate 128 (CHR ''1'')"

lemma hex_decode_one_lock: "hex_decode one_lock = Some (replicate 64 0x11)"
  by code_simp

lemma lan_manager:
  assumes "distinct names" and "routing_service \<in> set names"
  obtains nm where "NewNetworkManager cd (low_peer v) (lan_config one_lock names) = Inr nm" and "nm_inv nm"
    and "nm_info nm = low_peer v" and "table_peers (nm_router nm) = {low_peer v}" and "nm_serving cd nm"
    and "nm_registry nm = [lookup_lock nm routing_service \<mapsto> routing_registry cd]"
    and "nm_cfg nm = lan_config one_lock names"
    and "NewRoutingTable (low_peer v) (cf_K (lan_config one_lock names)) (cf_Alpha (lan_config one_lock names)) = Inr (nm_router nm)"
    and "\<And>n. lookup_lock nm n = (if n \<in> set names then replicate 64 0x11 else zero_lock)"
proof -
  let ?cfg = "lan_config one_lock names"
  have good: "good_lock one_lock" by (simp add: good_lock_def hex_decode_one_lock)
  have keys: "distinct (map fst (cf_AppLocks ?cfg))" "0 < cf_K ?cfg" "length (GetId (low_peer v)) \<ge> 20"
    using assms(1) by (simp_all add: lan_config_def comp_def default_config_def)
  have locks: "\<forall>(svc, str) \<in> set (cf_AppLocks ?cfg). good_lock str" "routing_service \<in> fst ` set (cf_AppLocks ?cfg)"
    using assms(2) good by (auto simp: lan_config_def image_image)
  note r = NewNetworkManager_result [OF keys(3) less_imp_le [OF keys(2)] keys(1), of cd]
  obtain nm where nm0: "NewNetworkManager cd (low_peer v) ?cfg = Inr nm" using r locks by blast
  have nm: "nm_serving cd nm" "nm_info nm = low_peer v" "nm_cfg nm = ?cfg" "table_peers (nm_router nm) = {low_peer v}"
    "nm_registry nm = [lookup_lock nm routing_service \<mapsto> routing_registry cd]"
    "nm_appLocks nm = map_of (rev (map (apsnd (the \<circ> hex_decode)) (cf_AppLocks ?cfg)))"
    "NewRoutingTable (low_peer v) (cf_K ?cfg) (cf_Alpha ?cfg) = Inr (nm_router nm)"
    using r nm0 keys(2) low_peer_Some [of v] by blast+
  have "nm_appLocks nm n = (if n \<in> set names then Some (replicate 64 0x11) else None)" for n
    unfolding nm(6) by (auto simp: lan_config_def rev_map map_of_map_restrict hex_decode_one_lock comp_def)
  then have "lookup_lock nm n = (if n \<in> set names then replicate 64 0x11 else zero_lock)" for n
    by (simp add: lookup_lock_def)
  then show ?thesis using that [OF nm0] nm by (simp add: nm_serving_def)
qed

text \<open>Two peers, and the code book of a ping from the first to the second and of a search by the first.\<close>

definition peer_a :: contact where "peer_a = the (low_peer 0)"
definition peer_b :: contact where "peer_b = the (low_peer 7)"

lemma peers_ab: "low_peer 0 = Some peer_a" "low_peer 7 = Some peer_b"
  by (simp_all add: peer_a_def peer_b_def low_peer_def)

definition demo_ping :: request where
  "demo_ping = ReqPing \<lparr>ping_From = Some peer_a, ping_Value = []\<rparr>"

definition demo_find :: "nodeid \<Rightarrow> request" where
  "demo_find t = ReqFindNode \<lparr>fn_From = Some peer_a, fn_TargetId = t\<rparr>"

definition lan_codec :: "nodeid \<Rightarrow> cptr list \<Rightarrow> router_codec" where
  "lan_codec t ns = book_codec
     [([1], \<lparr>rpc_Service = kademlia_service, rpc_Method = ''Ping'', rpc_Sender = Some peer_a, rpc_Payload = [5]\<rparr>),
      ([2], \<lparr>rpc_Service = kademlia_service, rpc_Method = ''Ping'', rpc_Sender = Some peer_b, rpc_Payload = [6]\<rparr>),
      ([3], \<lparr>rpc_Service = routing_service, rpc_Method = ''FindNode'', rpc_Sender = Some peer_a, rpc_Payload = [7]\<rparr>),
      ([4], \<lparr>rpc_Service = routing_service, rpc_Method = ''FindNode'', rpc_Sender = Some peer_b, rpc_Payload = [8]\<rparr>)]
     [([5], demo_ping), ([7], demo_find t)]
     [([6], RepAck \<lparr>ack_From = Some peer_b, ack_Value = []\<rparr>), ([8], RepNodes \<lparr>nodes_From = Some peer_b, nodes_Nodes = ns\<rparr>)]"

lemma lan_codec_laws: "codec_laws (lan_codec t ns)"
  unfolding lan_codec_def by (rule book_codec_laws; simp)

lemma lan_codec_datagrams:
  "request_datagram (lan_codec t ns) kademlia_service peer_a demo_ping [1]"
  "reply_datagram (lan_codec t ns) kademlia_service peer_b demo_ping (RepAck \<lparr>ack_From = Some peer_b, ack_Value = []\<rparr>) [2]"
  "request_datagram (lan_codec t ns) routing_service peer_a (demo_find t) [3]"
  "reply_datagram (lan_codec t ns) routing_service peer_b (demo_find t) (RepNodes \<lparr>nodes_From = Some peer_b, nodes_Nodes = ns\<rparr>) [4]"
proof -
  have ab: "peer_a \<noteq> peer_b"
  proof
    assume "peer_a = peer_b"
    then have "GetId (low_peer 0) = GetId (low_peer 7)" using peers_ab by simp
    then show False by simp
  qed
  note simps = request_datagram_def reply_datagram_def lan_codec_def book_codec_def encode_with_def demo_ping_def
    demo_find_def fits_def recv_buffer_def kademlia_service_def routing_service_def
  show "request_datagram (lan_codec t ns) kademlia_service peer_a demo_ping [1]" using ab by (simp add: simps)
  show "reply_datagram (lan_codec t ns) kademlia_service peer_b demo_ping (RepAck \<lparr>ack_From = Some peer_b, ack_Value = []\<rparr>) [2]"
    using ab by (simp add: simps)
  show "request_datagram (lan_codec t ns) routing_service peer_a (demo_find t) [3]" using ab by (simp add: simps)
  show "reply_datagram (lan_codec t ns) routing_service peer_b (demo_find t) (RepNodes \<lparr>nodes_From = Some peer_b, nodes_Nodes = ns\<rparr>) [4]"
    using ab by (simp add: simps)
qed

end
