(* ===== verification/Cluster.thy ===== *)
theory Cluster
  imports Network
begin

text \<open>
  A cluster: nodes at their UDP addresses and the steps of such a system. The step relation has no
  scheduler: any datagram from a caller with a whole identifier can reach any node at any time, and a node can ping any
  address. A delivery serves its datagram to the end, as a goroutine does that runs alone (\<open>alone_serves\<close> of \<open>Serving\<close>,
  where they run together). Joins, refreshes and lookups are sequences of such steps, since a lookup leaves its caller alone.
\<close>

section \<open>Steps\<close>

type_synonym 's cluster = "string \<Rightarrow> 's node option"

definition managers :: "'s cluster \<Rightarrow> string \<Rightarrow> network_manager option" where
  "managers c = map_option n_nm \<circ> c"

definition deliver :: "'z router_codec_scheme \<Rightarrow> string \<Rightarrow> bytes \<Rightarrow> string \<Rightarrow> 's cluster \<Rightarrow> 's cluster" where
  "deliver cd src raw b c =
     (case c b of
        None \<Rightarrow> c
      | Some n \<Rightarrow> c(b \<mapsto> n\<lparr>n_nm := fst (answer cd src raw (n_nm n))\<rparr>))"

text \<open>A datagram whose sender, and the sender its request names, carry whole identifiers.\<close>

definition clean :: "'z router_codec_scheme \<Rightarrow> bytes \<Rightarrow> bool" where
  "clean cd raw \<longleftrightarrow>
     (\<forall>r. pb_unmarshal_RPC cd (take recv_buffer raw) = Some r \<longrightarrow> whole (rpc_Sender r)
        \<and> (\<forall>dec req. request_decoder cd (rpc_Method r) = Some dec \<longrightarrow> dec (rpc_Payload r) = Some req \<longrightarrow> whole (request_from req)))"

text \<open>The datagram of \<open>Node.Ping\<close>, if it can be encoded.\<close>

definition ping_request :: "'s node \<Rightarrow> request" where
  "ping_request n = ReqPing \<lparr>ping_From = Some (n_Contact n), ping_Value = []\<rparr>"

definition ping_bytes :: "'z router_codec_scheme \<Rightarrow> 's node \<Rightarrow> bytes option" where
  "ping_bytes cd n =
     (case pb_marshal_request cd (ping_request n) of
        None \<Rightarrow> None
      | Some payload \<Rightarrow> pb_marshal_RPC cd \<lparr>rpc_Service = kademlia_service, rpc_Method = ''Ping'',
                          rpc_Sender = nm_info (n_nm n), rpc_Payload = payload\<rparr>)"

text \<open>
  A ping is served at its target before its reply is handled; the target can be the pinging node itself.
\<close>

definition pinged :: "'z router_codec_scheme \<Rightarrow> string \<Rightarrow> string \<Rightarrow> 's node \<Rightarrow> 's cluster \<Rightarrow> 's cluster" where
  "pinged cd a b n c = (case ping_bytes cd n of None \<Rightarrow> c | Some raw \<Rightarrow> if fits raw then deliver cd a raw b c else c)"

inductive cluster_step :: "'z router_codec_scheme \<Rightarrow> 's cluster \<Rightarrow> 's cluster \<Rightarrow> bool" for cd where
  datagram: "clean cd raw \<Longrightarrow> cluster_step cd c (deliver cd src raw b c)"
| ping: "c a = Some n \<Longrightarrow> pinged cd a b n c a = Some m \<Longrightarrow> node_Ping cd (lan cd a (managers c)) m b = (n', r)
    \<Longrightarrow> cluster_step cd c ((pinged cd a b n c)(a \<mapsto> n'))"

inductive_cases cluster_stepE: "cluster_step cd c c'"

section \<open>The invariant\<close>

text \<open>Every node is well formed, and serves the routing service and nothing else.\<close>

definition member_ok :: "'z router_codec_scheme \<Rightarrow> 's node \<Rightarrow> bool" where
  "member_ok cd n \<longleftrightarrow> node_ok n \<and> nm_serving cd (n_nm n) \<and> routes_only cd (n_nm n)"

definition cluster_ok :: "'z router_codec_scheme \<Rightarrow> 's cluster \<Rightarrow> bool" where
  "cluster_ok cd c \<longleftrightarrow> (\<forall>a n. c a = Some n \<longrightarrow> member_ok cd n)"

lemma member_ok_manager:
  assumes "member_ok cd n" and "mgr_ok nm" and "nm_registry nm = nm_registry (n_nm n)"
    and "nm_appLocks nm = nm_appLocks (n_nm n)"
  shows "member_ok cd (n\<lparr>n_nm := nm\<rparr>)"
  using assms lookup_lock_frame [OF assms(4)]
  by (simp add: member_ok_def node_ok_def nm_serving_def routes_only_def mgr_ok_def)

lemma cluster_ok_upd: "cluster_ok cd c \<Longrightarrow> member_ok cd n \<Longrightarrow> cluster_ok cd (c(a \<mapsto> n))"
  by (simp add: cluster_ok_def)

section \<open>Traffic keeps it\<close>

text \<open>What dispatching a payload to the routing service does to the table: at most one update, by the request's sender.\<close>

lemma dispatch_updates:
  assumes "routes_only cd nm" and "DispatchRPC nm lock meth payload = (nm1, r)"
  shows "nm_cfg nm1 = nm_cfg nm \<and> (nm_router nm1 = nm_router nm
    \<or> (\<exists>dec req. request_decoder cd meth = Some dec \<and> dec payload = Some req
         \<and> nm_router nm1 = fst (serve_request (nm_router nm) req)))"
proof -
  consider "nm1 = nm" | hs h where "nm_registry nm lock = Some hs" "hs meth = Some h" "nm_info nm \<noteq> None"
    using assms(2) by (auto simp: DispatchRPC_def split: option.splits)
  then show ?thesis
  proof cases
    case 2
    then have "routing_registry cd meth = Some h" using assms(1) by (auto simp: routes_only_def)
    then obtain dec where dec: "request_decoder cd meth = Some dec" and h: "h = make_handler routing_service meth
        \<lparr>md_unmarshal = dec, md_call = call_router, md_marshal = pb_marshal_reply cd\<rparr>"
      by (auto simp: routing_registry_def register_methods_eq routing_methods_def split: if_splits)
    obtain sh r' where sh: "h (shared.truncate nm) payload = (sh, r')" by fastforce
    then have nm1: "nm1 = nm\<lparr>nm_router := nm_router sh, nm_log := nm_log sh\<rparr>"
      using assms(2) 2 by (auto simp: DispatchRPC_def)
    show ?thesis
    proof (cases "dec payload")
      case None
      then show ?thesis using sh nm1 by (auto simp: h make_handler_def)
    next
      case (Some req)
      then have "nm_router sh = fst (serve_request (nm_router nm) req)"
        using sh by (auto simp: h make_handler_def call_router_def split: prod.splits sum.splits option.splits)
      then show ?thesis using nm1 dec Some by auto
    qed
  qed simp
qed

lemma dispatch_whole:
  assumes "mgr_ok nm" and "routes_only cd nm" and "DispatchRPC nm lock meth payload = (nm1, r)"
    and "\<forall>dec req. request_decoder cd meth = Some dec \<longrightarrow> dec payload = Some req \<longrightarrow> whole (request_from req)"
  shows "mgr_ok nm1"
proof -
  have inv: "nm_inv nm" "rt_inv (nm_router nm)" using assms(1) by (simp_all add: mgr_ok_def nm_inv_def table_ok_def)
  have "\<forall>c\<in>table_peers (fst (serve_request (nm_router nm) req)). whole c" if "whole (request_from req)" for req
  proof -
    obtain rt where rt: "rt_Update (nm_router nm) (request_from req) = (rt, Inr ())" using rt_Update_ok [OF inv(2)] by metis
    then have "fst (serve_request (nm_router nm) req) = rt" using serve_request_ok [OF rt] by fastforce
    then show ?thesis using update_whole [OF inv(2) that _ rt] assms(1) by (simp add: mgr_ok_def)
  qed
  then have "\<forall>c\<in>table_peers (nm_router nm1). whole c"
    using dispatch_updates [OF assms(2,3)] assms(1,4) by (auto simp: mgr_ok_def)
  then show ?thesis
    using assms(1) dispatch_updates [OF assms(2,3)] DispatchRPC_inv [OF inv(1) assms(3)] DispatchRPC_frame [OF assms(3)]
    by (simp add: mgr_ok_def)
qed

lemma process_packet_cfg: "process_packet nm pkt = (nm', r) \<Longrightarrow> routes_only cd nm \<Longrightarrow> nm_cfg nm' = nm_cfg nm"
  using dispatch_updates [of cd nm]
  by (auto simp: process_packet_def Let_def split: prod.splits sum.splits failure.splits option.splits)

lemma process_packet_whole:
  assumes "mgr_ok nm" and "routes_only cd nm" and pkt: "udp_turn cd udp_writes (Datagram src raw) = Push pkt"
    and "clean cd raw" and run: "process_packet nm pkt = (nm', Inr out)"
  shows "mgr_ok nm'"
proof -
  have inv: "nm_inv nm" "nm_info nm \<noteq> None" using assms(1) by (simp_all add: mgr_ok_def nm_inv_def)
  obtain s where s: "p_Sender pkt = Some s" "rpc_Sender (p_RPC pkt) = Some s" "p_Reply pkt = replyFn cd udp_writes src"
    "pb_unmarshal_RPC cd (take recv_buffer raw) = Some (p_RPC pkt)"
    using pkt by (auto simp: udp_turn_def GetUDPAddress_def split: option.splits)
  let ?r = "p_RPC pkt"
  have whole: "whole (Some s)" "\<forall>dec req. request_decoder cd (rpc_Method ?r) = Some dec \<longrightarrow> dec (rpc_Payload ?r) = Some req
      \<longrightarrow> whole (request_from req)"
    using assms(4) s(2,4) by (auto simp: clean_def)
  obtain nm1 r where d: "DispatchRPC nm (lookup_lock nm (rpc_Service ?r)) (rpc_Method ?r) (rpc_Payload ?r) = (nm1, r)"
    by fastforce
  have ok1: "mgr_ok nm1" by (rule dispatch_whole [OF assms(1,2) d whole(2)])
  show ?thesis
  proof (cases r)
    case (Inl f)
    then have "nm' = count_error nm1" using d run by (cases f) (simp_all add: process_packet_def Let_def)
    then show ?thesis using ok1 by (simp add: mgr_ok_def)
  next
    case (Inr resp)
    let ?env = "\<lparr>rpc_Service = rpc_Service ?r, rpc_Method = rpc_Method ?r, rpc_Sender = nm_info nm, rpc_Payload = resp\<rparr>"
    have "\<forall>f. p_Reply pkt ?env = Inl f \<longrightarrow> (\<exists>e. f = Err e)"
      using replyFn_no_panic [of ?env cd udp_writes src] inv(2) by (simp add: s(3))
    from process_packet_served [OF inv(1) s(1) d [unfolded Inr] refl this] run
    have n: "nm_inv nm'" "nm_info nm' = nm_info nm" "rt_Update (nm_router nm1) (Some s) = (nm_router nm', Inr ())" by auto
    have "rt_inv (nm_router nm1)" "\<forall>c\<in>table_peers (nm_router nm1). whole c"
      using ok1 by (simp_all add: mgr_ok_def nm_inv_def table_ok_def)
    from update_whole [OF this(1) whole(1) this(2) n(3)] n process_packet_cfg [OF run assms(2)] assms(1)
    show ?thesis by (simp add: mgr_ok_def)
  qed
qed

lemma answer_whole:
  assumes "mgr_ok nm" and "routes_only cd nm" and "clean cd raw"
  shows "mgr_ok (fst (answer cd src raw nm)) \<and> nm_registry (fst (answer cd src raw nm)) = nm_registry nm
    \<and> nm_appLocks (fst (answer cd src raw nm)) = nm_appLocks nm"
proof (cases "udp_turn cd udp_writes (Datagram src raw)")
  case (Push pkt)
  have inv: "nm_inv nm" using assms(1) by (simp add: mgr_ok_def)
  obtain nm' out where run: "process_packet nm pkt = (nm', Inr out)"
    "nm_registry nm' = nm_registry nm" "nm_appLocks nm' = nm_appLocks nm"
    using process_packet_keeps [OF inv Push] .
  then show ?thesis using Push process_packet_whole [OF assms(1,2) Push assms(3) run(1)]
    by (cases out) (auto simp: answer_def)
qed (use assms in \<open>simp_all add: answer_def\<close>)

lemma deliver_ok:
  assumes "cluster_ok cd c" and "clean cd raw"
  shows "cluster_ok cd (deliver cd src raw b c) \<and> dom (deliver cd src raw b c) = dom c"
proof (cases "c b")
  case None
  then show ?thesis using assms by (simp add: deliver_def)
next
  case (Some n)
  then have n: "member_ok cd n" using assms by (simp add: cluster_ok_def)
  then have "mgr_ok (n_nm n)" "routes_only cd (n_nm n)" by (simp_all add: member_ok_def node_ok_def)
  from answer_whole [OF this assms(2), of src] Some
  show ?thesis using cluster_ok_upd [OF assms(1) member_ok_manager [OF n]] by (auto simp: deliver_def)
qed

section \<open>A cluster answers with whole contacts\<close>

lemma lan_honest:
  assumes laws: "codec_laws cd" and hosts: "\<And>addr h. hosts addr = Some h \<Longrightarrow> mgr_ok h \<and> routes_only cd h"
  shows "honest cd (lan cd src hosts)"
proof -
  have "response_whole resp" if info: "whole info" and req: "maintains req"
      and got: "exchange_rpc cd (lan cd src hosts) info addr svc (request_method req) (SendRouter req) (wanted req) = Inr resp"
    for info addr svc req resp
  proof -
    obtain a where a: "info = Some a" using info by (auto simp: whole_def)
    have nv: "\<And>m. req \<noteq> ReqFindValue m" using req by (auto simp: maintains_def)
    have h: "nm_inv h \<and> (nm_registry h (lookup_lock h svc) = None
        \<or> nm_registry h (lookup_lock h svc) = Some (routing_registry cd))" if "hosts addr = Some h" for h
      using hosts [OF that] by (cases "nm_registry h (lookup_lock h svc)") (auto simp: mgr_ok_def routes_only_def)
    obtain h rt1 rep where host: "hosts addr = Some h" and s: "serve_request (nm_router h) req = (rt1, Inr rep)"
      and rep: "decoded_reply rep = Some resp"
      using lan_response [OF laws h nv got [unfolded a]] .
    have m: "mgr_ok h" using hosts [OF host] by simp
    then have t: "rt_inv (nm_router h)" "rt_local (nm_router h) = nm_info h" "whole (nm_info h)"
      "\<forall>c\<in>table_peers (nm_router h). whole c" by (simp_all add: mgr_ok_def nm_inv_def table_ok_def)
    show "response_whole resp"
    proof (cases req)
      case (ReqPing p)
      obtain rt where "rt_Update (nm_router h) (ping_From p) = (rt, Inr ())" "rt_local rt = nm_info h"
        using rt_Update_ok [OF t(1)] t(2) by metis
      then have "rep = RepAck \<lparr>ack_From = nm_info h, ack_Value = ping_Value p\<rparr>" using s by (simp add: ReqPing rs_Ping_def noting_ok)
      then show ?thesis using rep t(3) by (auto simp: decoded_reply_def)
    next
      case (ReqFindNode m)
      obtain f t where m: "m = \<lparr>fn_From = f, fn_TargetId = t\<rparr>" by (cases m)
      obtain rt ns where serve: "serve_request (nm_router h) (ReqFindNode m)
          = (rt, Inr (RepNodes \<lparr>nodes_From = nm_info h, nodes_Nodes = ns\<rparr>))"
        and sub: "set ns \<subseteq> insert f (table_peers (nm_router h))"
        using find_node_served [OF t(1), of f t] t(2) unfolding m by metis
      have "rep = RepNodes \<lparr>nodes_From = nm_info h, nodes_Nodes = ns\<rparr>"
        using trans [OF serve [symmetric] s [unfolded ReqFindNode]] by simp
      moreover have "whole f" using req by (simp add: maintains_def ReqFindNode m)
      moreover from this have "\<forall>c\<in>set ns. whole c" using sub t(4) by blast
      ultimately show ?thesis using rep t(3) by (auto simp: decoded_reply_def)
    qed (use req in \<open>simp_all add: maintains_def\<close>)
  qed
  then show ?thesis unfolding honest_def by blast
qed

lemma cluster_honest:
  assumes "codec_laws cd" and "cluster_ok cd c"
  shows "honest cd (lan cd src (managers c))"
proof (rule lan_honest [OF assms(1)])
  fix addr h assume "managers c addr = Some h"
  then obtain n where "c addr = Some n" "h = n_nm n" by (auto simp: managers_def)
  then have "member_ok cd n" "h = n_nm n" using assms(2) by (simp_all add: cluster_ok_def)
  then show "mgr_ok h \<and> routes_only cd h" by (simp add: member_ok_def node_ok_def)
qed

section \<open>Reachable clusters\<close>

lemma ping_clean:
  assumes laws: "codec_laws cd" and n: "node_ok n" and raw: "ping_bytes cd n = Some raw" "fits raw"
  shows "clean cd raw"
proof -
  obtain p where p: "pb_marshal_request cd (ping_request n) = Some p" "pb_marshal_RPC cd \<lparr>rpc_Service = kademlia_service,
      rpc_Method = ''Ping'', rpc_Sender = nm_info (n_nm n), rpc_Payload = p\<rparr> = Some raw"
    using raw(1) by (auto simp: ping_bytes_def split: option.splits)
  have fits: "length raw \<le> recv_buffer" using raw(2) by (simp add: fits_def)
  have "pb_unmarshal_RPC cd raw = Some \<lparr>rpc_Service = kademlia_service, rpc_Method = ''Ping'',
      rpc_Sender = nm_info (n_nm n), rpc_Payload = p\<rparr>" using laws p(2) unfolding codec_laws_def by blast
  moreover have "whole (nm_info (n_nm n))" using n by (simp add: node_ok_def mgr_ok_def)
  moreover have "whole (request_from req)" if "request_decoder cd ''Ping'' = Some dec" "dec p = Some req" for dec req
  proof -
    have "\<exists>dec. request_decoder cd (request_method (ping_request n)) = Some dec \<and> dec p = Some (ping_request n)"
      using laws p(1) unfolding codec_laws_def by blast
    then have "req = ping_request n" using that by (auto simp: ping_request_def)
    then show ?thesis using n by (simp add: node_ok_def ping_request_def)
  qed
  ultimately show ?thesis using fits by (auto simp: clean_def)
qed

lemma pinged_ok:
  assumes "codec_laws cd" and "cluster_ok cd c" and "c a = Some n"
  shows "cluster_ok cd (pinged cd a b n c) \<and> dom (pinged cd a b n c) = dom c"
proof (cases "ping_bytes cd n")
  case (Some raw)
  have n: "node_ok n" using assms(2,3) by (simp add: cluster_ok_def member_ok_def)
  show ?thesis
  proof (cases "fits raw")
    case True
    then show ?thesis using deliver_ok [OF assms(2) ping_clean [OF assms(1) n Some]] by (simp add: pinged_def Some)
  qed (use assms(2) in \<open>simp add: pinged_def Some\<close>)
qed (use assms(2) in \<open>simp add: pinged_def\<close>)

lemma member_ping:
  assumes n: "member_ok cd n" and net: "honest cd net" and ping: "node_Ping cd net n b = (n', r)"
  shows "member_ok cd n'"
proof -
  obtain nm' r' where call: "InvokeRPC cd net (n_nm n) b kademlia_service ''Ping'' (SendRouter (ping_request n)) WantAck = (nm', r')"
    by fastforce
  have "n' = n\<lparr>n_nm := nm'\<rparr>"
    using ping call by (auto simp: node_Ping_def ping_request_def split: sum.splits)
  moreover have ok: "node_ok n'" using Ping_fine [OF _ net, of n b] n ping by (simp add: member_ok_def fine_def)
  moreover have "nm_inv (n_nm n)" using n by (simp add: member_ok_def node_ok_def mgr_ok_def)
  ultimately show ?thesis
    using member_ok_manager [OF n] InvokeRPC_cases [OF _ call] by (simp add: node_ok_def)
qed

lemma cluster_step_ok:
  assumes "codec_laws cd" and "cluster_ok cd c" and "cluster_step cd c c'"
  shows "cluster_ok cd c' \<and> dom c' = dom c"
  using assms(3)
proof (cases rule: cluster_stepE [consumes 1, case_names datagram ping])
  case (datagram raw src b)
  then show ?thesis using deliver_ok [OF assms(2)] by simp
next
  case (ping a n b m n' r)
  note ok = pinged_ok [OF assms(1,2) ping(2), of b]
  then have "member_ok cd m" using ping(3) by (simp add: cluster_ok_def)
  from member_ping [OF this cluster_honest [OF assms(1,2)] ping(4)]
  have "cluster_ok cd c'" using ok ping(1) cluster_ok_upd by blast
  moreover have "a \<in> dom c" using ping(2) by blast
  ultimately show ?thesis using ok ping(1) by auto
qed

text \<open>By induction over the steps.\<close>

lemma cluster_reach_ok:
  assumes "codec_laws cd" and "cluster_ok cd c" and "(cluster_step cd)\<^sup>*\<^sup>* c c'"
  shows "cluster_ok cd c' \<and> dom c' = dom c"
  using assms(3)
proof (induction rule: rtranclp_induct)
  case (step c1 c2)
  then show ?case using cluster_step_ok [OF assms(1) _ step.hyps(2)] by auto
qed (use assms(2) in simp)

text \<open>A node just constructed from a configuration with sensible parameters.\<close>

definition new_member :: "'z router_codec_scheme \<Rightarrow> 's node \<Rightarrow> bool" where
  "new_member cd n \<longleftrightarrow> (\<exists>now store cfg. NewNode cd now store (Inr cfg) = Inr n \<and> 0 < cf_K cfg \<and> 0 \<le> cf_Alpha cfg
     \<and> distinct (map fst (cf_AppLocks cfg)))"

lemma new_member_ok:
  assumes "new_member cd n"
  shows "member_ok cd n"
proof -
  obtain now store cfg where new: "NewNode cd now store (Inr cfg) = Inr n" and k: "0 < cf_K cfg" "0 \<le> cf_Alpha cfg"
    and d: "distinct (map fst (cf_AppLocks cfg))" using assms by (auto simp: new_member_def)
  obtain ident where ident: "StringToNodeID (cf_NodeID cfg) = Inr ident" using new by (auto simp: NewNode_def split: sum.splits)
  then have len: "length ident = 20" by (auto simp: StringToNodeID_def split: option.splits if_splits)
  define c where "c = UpdateUsername (NewContact now ident (cf_Address cfg) (port_string (cf_TCPPort cfg))
      (port_string (cf_UDPPort cfg))) (cf_Username cfg)"
  have cid: "c_Id c = ident" by (simp add: c_def UpdateUsername_def NewContact_def)
  obtain nm where nm0: "NewNetworkManager cd (Some c) cfg = Inr nm" and n: "n = \<lparr>n_ID = ident, n_Contact = c, n_cfg = cfg,
      n_nm = nm, n_storage = store, n_cancelled = False\<rparr>"
    using new ident by (auto simp: NewNode_def Let_def c_def split: sum.splits)
  then have nm: "nm_serving cd nm" "nm_info nm = Some c" "nm_cfg nm = cfg" "table_peers (nm_router nm) = {Some c}"
    "nm_registry nm = [lookup_lock nm routing_service \<mapsto> routing_registry cd]"
    using NewNetworkManager_result [of "Some c" cfg cd] k d cid len by auto
  have "mgr_ok nm" using nm k cid len by (simp add: mgr_ok_def nm_serving_def whole_def)
  moreover have "routes_only cd nm" using nm(5) by (auto simp: routes_only_def split: if_splits)
  ultimately show ?thesis using nm(1) cid len by (simp add: member_ok_def node_ok_def n is_nodeid_def whole_def)
qed

section \<open>Properties\<close>

text \<open>
  C11. A cluster keeps itself up, over a codec that decodes what it encodes and a network that drops what does not fit a
  datagram. Start any nodes from sensible configurations and let them exchange datagrams from callers
  with whole identifiers, each served before the node takes the next, and ping each other in any order: every node stays
  well formed and keeps serving, and whenever one of them refreshes its buckets or joins, each of its calls meeting the
  cluster in some state it can be in, no call panics or blocks and the node stays well formed, for any \<open>sort.Slice\<close> within its
  contract and any delay of the answers of a lookup. A refresh succeeds, and a join
  succeeds unless it is given the node's own address, whether or not anybody answers.
\<close>

theorem cluster_maintains_itself:
  assumes laws: "codec_laws cd"
    and start: "\<forall>b m. c0 b = Some m \<longrightarrow> new_member cd m" and reach: "(cluster_step cd)\<^sup>*\<^sup>* c0 c"
    and later: "\<forall>k i. (cluster_step cd)\<^sup>*\<^sup>* c0 (ls k i)" "\<forall>k i. (cluster_step cd)\<^sup>*\<^sup>* c0 (ps k i)"
    and a: "c a = Some n" and env: "lookup_env_ok env"
  defines "lnets \<equiv> \<lambda>k i. lan cd a (managers (ls k i))" and "pnets \<equiv> \<lambda>k i. lan cd a (managers (ps k i))"
  shows "dom c = dom c0 \<and> (\<forall>b m. c b = Some m \<longrightarrow> node_ok m \<and> nm_serving cd (n_nm m))
    \<and> fine (RefreshBuckets cd rand lnets pnets env n)
    \<and> snd (RefreshBuckets cd rand lnets pnets env n) = Inr ()
    \<and> fine (node_Join cd (pnets j) (lnets j) env sched n boot)
    \<and> snd (node_Join cd (pnets j) (lnets j) env sched n boot)
        = (if boot = join_address (Some (n_Contact n)) then Inl (Err BootstrapToSelf) else Inr ())"
proof -
  have ok0: "cluster_ok cd c0" using start by (auto simp: cluster_ok_def intro: new_member_ok)
  note keeps = cluster_reach_ok [OF laws ok0]
  have honest: "\<forall>k i. honest cd (lnets k i)" "\<forall>k i. honest cd (pnets k i)"
    using cluster_honest [OF laws] keeps later unfolding lnets_def pnets_def by blast+
  have c: "cluster_ok cd c" "dom c = dom c0" using keeps [OF reach] by simp_all
  then have "node_ok n" "\<forall>b m. c b = Some m \<longrightarrow> node_ok m \<and> nm_serving cd (n_nm m)"
    using a by (auto simp: cluster_ok_def member_ok_def)
  then show ?thesis using maintenance_fine [OF _ honest env] c(2) by blast
qed

theorem cluster_maintains_itself_witness:
  "\<exists>(n :: unit node) m (c :: unit cluster) (cd :: router_codec). n_ID n \<noteq> n_ID m
     \<and> cluster_step cd [''a'' \<mapsto> n, ''b'' \<mapsto> m] c \<and> dom c = {''a'', ''b''}
     \<and> snd (RefreshBuckets cd (\<lambda>_. Some (replicate 20 0)) (\<lambda>_ _. lan cd ''a'' (managers c))
          (\<lambda>_ _. lan cd ''a'' (managers c)) prompt_env (the (c ''a''))) = Inr ()"
proof -
  let ?cd = "lan_codec zero_id []" and ?one = "replicate 40 (CHR ''1'')"
  let ?cfg = "\<lambda>i. (demo_config routing_service)\<lparr>cf_NodeID := i\<rparr>"
  have ids: "StringToNodeID (NodeID_String zero_id) = Inr zero_id" "StringToNodeID ?one = Inr (replicate 20 0x11)"
    "StringToNodeID ''zz'' = Inl (Err InvalidHex)" by code_simp+
  have new: "\<exists>n :: unit node. new_member ?cd n \<and> n_ID n = v" if s: "StringToNodeID s = Inr v" for s v
  proof -
    obtain n :: "unit node" where n: "NewNode ?cd 0 None (Inr (?cfg s)) = Inr n" "n_ID n = v"
      using NewNode_result [of "?cfg s" v "?cfg ''zz''" InvalidHex ?cd 0 "None :: unit option"] s ids(3)
      by (auto simp: demo_config_def default_config_def good_demo_lock)
    moreover have "0 < cf_K (?cfg s)" "0 \<le> cf_Alpha (?cfg s)" "distinct (map fst (cf_AppLocks (?cfg s)))"
      by (simp_all add: demo_config_def default_config_def)
    ultimately show ?thesis unfolding new_member_def by blast
  qed
  obtain n m :: "unit node" where n: "new_member ?cd n" "n_ID n = zero_id" and m: "new_member ?cd m" "n_ID m = replicate 20 0x11"
    using new ids by metis
  have start: "\<forall>b x. [''a'' \<mapsto> n, ''b'' \<mapsto> m] b = Some x \<longrightarrow> new_member ?cd x" using n m by simp
  define c where "c = deliver ?cd ''c'' [] ''b'' [''a'' \<mapsto> n, ''b'' \<mapsto> m]"
  have "clean ?cd []" by (simp add: clean_def lan_codec_def book_codec_def)
  then have step: "cluster_step ?cd [''a'' \<mapsto> n, ''b'' \<mapsto> m] c" unfolding c_def by (rule datagram)
  then have reach: "(cluster_step ?cd)\<^sup>*\<^sup>* [''a'' \<mapsto> n, ''b'' \<mapsto> m] c" by blast
  have a: "c ''a'' = Some n" by (simp add: c_def deliver_def)
  note run = cluster_maintains_itself [where ls = "\<lambda>_ _. c" and ps = "\<lambda>_ _. c" and env = prompt_env and
      rand = "\<lambda>_. Some (replicate 20 0)" and sched = id and boot = "''b''", OF lan_codec_laws start reach _ _ a prompt_env_ok]
  have "dom c = {''a'', ''b''}" "snd (RefreshBuckets ?cd (\<lambda>_. Some (replicate 20 0)) (\<lambda>_ _. lan ?cd ''a'' (managers c))
      (\<lambda>_ _. lan ?cd ''a'' (managers c)) prompt_env (the (c ''a''))) = Inr ()"
    using run reach a by auto
  moreover have "n_ID n \<noteq> n_ID m" using n(2) m(2) by (simp add: zero_id_def)
  ultimately show ?thesis using step by blast
qed

end
