(* ===== verification/Serving.thy ===== *)
theory Serving
  imports Network
begin

text \<open>
  The receive loop and \<open>serve\<close> of \<open>network/manager.go\<close> as a process. The receive loop pushes packets at any time; each is
  served by a goroutine of its own, all of them under the shared (read) lock of the manager. A goroutine runs in
  four stretches: it dispatches the request, enters the two map assignments, leaves them, and updates the table and
  replies. The router and the counters have locks of their own, so the first and the last stretch are steps. The maps have none: Go
  stops a program in which a goroutine assigns to a map while another one does.
\<close>

section \<open>The process\<close>

datatype stage =
    Arrived packet
  | Dispatched packet bytes
  | Assigning packet bytes
  | Assigned packet bytes
  | Finished "(string \<times> bytes) option"

datatype death = Panicked go_panic | ConcurrentMapWrites

text \<open>\<open>pr_seen\<close> records what the receive loop has met.\<close>

record process =
  pr_nm :: network_manager
  pr_reading :: bool
  pr_seen :: "udp_event list"
  pr_stages :: "stage list"
  pr_dead :: "death option"

text \<open>One stretch of a goroutine: the manager after it, and the next stage or the death of the process.\<close>

fun advance :: "network_manager \<Rightarrow> stage \<Rightarrow> network_manager \<times> (death + stage)" where
  "advance nm (Arrived pkt) =
     (let r = p_RPC pkt in
      case DispatchRPC nm (lookup_lock nm (rpc_Service r)) (rpc_Method r) (rpc_Payload r) of
        (nm, Inl (Panic p)) \<Rightarrow> (nm, Inl (Panicked p))
      | (nm, Inl Blocked) \<Rightarrow> (nm, Inr (Arrived pkt))
      | (nm, Inl (Err e)) \<Rightarrow> (count_error nm, Inr (Finished None))
      | (nm, Inr respPayload) \<Rightarrow> (nm, Inr (Dispatched pkt respPayload)))"
| "advance nm (Dispatched pkt respPayload) = (nm, Inr (Assigning pkt respPayload))"
| "advance nm (Assigning pkt respPayload) =
     (case p_Sender pkt of
        None \<Rightarrow> (nm, Inl (Panicked NilDereference))
      | Some sender \<Rightarrow>
          (nm\<lparr>nm_peers := (nm_peers nm)(c_Username sender \<mapsto> p_Sender pkt),
              nm_active := mark_active (p_Sender pkt) (nm_active nm)\<rparr>, Inr (Assigned pkt respPayload)))"
| "advance nm (Assigned pkt respPayload) =
     (case rt_Update (nm_router nm) (p_Sender pkt) of
        (rt, Inl (Panic p)) \<Rightarrow> (nm\<lparr>nm_router := rt\<rparr>, Inl (Panicked p))
      | (rt, Inl Blocked) \<Rightarrow> (nm\<lparr>nm_router := rt\<rparr>, Inr (Assigned pkt respPayload))
      | (rt, _) \<Rightarrow>
          let nm = nm\<lparr>nm_router := rt\<rparr>; r = p_RPC pkt in
          (case p_Reply pkt \<lparr>rpc_Service = rpc_Service r, rpc_Method = rpc_Method r, rpc_Sender = nm_info nm,
                             rpc_Payload = respPayload\<rparr> of
             Inl (Panic p) \<Rightarrow> (nm, Inl (Panicked p))
           | Inl Blocked \<Rightarrow> (nm, Inr (Assigned pkt respPayload))
           | Inl (Err e) \<Rightarrow> (count_packet (count_error nm), Inr (Finished None))
           | Inr out \<Rightarrow> (count_packet nm, Inr (Finished (Some out)))))"
| "advance nm (Finished out) = (nm, Inr (Finished out))"

fun assigning :: "stage \<Rightarrow> bool" where
  "assigning (Assigning pkt b) = True"
| "assigning _ = False"

fun dispatched :: "stage \<Rightarrow> bool" where
  "dispatched (Dispatched pkt b) = True"
| "dispatched _ = False"

inductive process_step :: "'z codec_scheme \<Rightarrow> (string \<Rightarrow> bytes \<Rightarrow> bool) \<Rightarrow> process \<Rightarrow> process \<Rightarrow> bool" for cd writes where
  push: "pr_dead p = None \<Longrightarrow> pr_reading p \<Longrightarrow> udp_turn cd writes ev = Push pkt
    \<Longrightarrow> process_step cd writes p (p\<lparr>pr_seen := pr_seen p @ [ev], pr_stages := pr_stages p @ [Arrived pkt]\<rparr>)"
| skip: "pr_dead p = None \<Longrightarrow> pr_reading p \<Longrightarrow> udp_turn cd writes ev = Continue
    \<Longrightarrow> process_step cd writes p (p\<lparr>pr_seen := pr_seen p @ [ev]\<rparr>)"
| leave: "pr_dead p = None \<Longrightarrow> pr_reading p \<Longrightarrow> udp_turn cd writes ev = Exit
    \<Longrightarrow> process_step cd writes p (p\<lparr>pr_seen := pr_seen p @ [ev], pr_reading := False\<rparr>)"
| crash: "pr_dead p = None \<Longrightarrow> pr_reading p \<Longrightarrow> udp_turn cd writes ev = Crash x
    \<Longrightarrow> process_step cd writes p (p\<lparr>pr_seen := pr_seen p @ [ev], pr_dead := Some (Panicked x)\<rparr>)"
| run: "pr_dead p = None \<Longrightarrow> i < length (pr_stages p) \<Longrightarrow> \<not> dispatched (pr_stages p ! i) \<or> \<not> list_ex assigning (pr_stages p)
    \<Longrightarrow> advance (pr_nm p) (pr_stages p ! i) = (nm, Inr s)
    \<Longrightarrow> process_step cd writes p (p\<lparr>pr_nm := nm, pr_stages := (pr_stages p)[i := s]\<rparr>)"
| panic: "pr_dead p = None \<Longrightarrow> i < length (pr_stages p) \<Longrightarrow> advance (pr_nm p) (pr_stages p ! i) = (nm, Inl d)
    \<Longrightarrow> process_step cd writes p (p\<lparr>pr_nm := nm, pr_dead := Some d\<rparr>)"
| clash: "pr_dead p = None \<Longrightarrow> i < length (pr_stages p) \<Longrightarrow> dispatched (pr_stages p ! i) \<Longrightarrow> list_ex assigning (pr_stages p)
    \<Longrightarrow> process_step cd writes p (p\<lparr>pr_dead := Some ConcurrentMapWrites\<rparr>)"


definition start_process :: "network_manager \<Rightarrow> process" where
  "start_process nm = \<lparr>pr_nm = nm, pr_reading = True, pr_seen = [], pr_stages = [], pr_dead = None\<rparr>"

section \<open>The invariant\<close>


definition nm_same :: "network_manager \<Rightarrow> network_manager \<Rightarrow> bool" where
  "nm_same nm nm' \<longleftrightarrow> nm_info nm' = nm_info nm \<and> nm_registry nm' = nm_registry nm \<and> nm_appLocks nm' = nm_appLocks nm"













section \<open>Progress\<close>



text \<open>A goroutine that runs while no other does serves its packet as \<open>process_packet\<close> says.\<close>

lemma alone_serves:
  assumes "pr_dead p = None" and i: "i < length (pr_stages p)" "pr_stages p ! i = Arrived pkt"
    and free: "\<not> list_ex assigning (pr_stages p)" and run: "process_packet (pr_nm p) pkt = (nm', Inr out)"
  shows "(process_step cd writes)\<^sup>*\<^sup>* p (p\<lparr>pr_nm := nm', pr_stages := (pr_stages p)[i := Finished out]\<rparr>)"
proof -
  let ?at = "\<lambda>nm s. p\<lparr>pr_nm := nm, pr_stages := (pr_stages p)[i := s]\<rparr>" and ?r = "p_RPC pkt"
  have step: "(process_step cd writes)\<^sup>*\<^sup>* (?at nm s) (?at nm1 s1)" if "advance nm s = (nm1, Inr s1)" for nm s nm1 s1
  proof -
    have "\<not> dispatched s \<or> \<not> list_ex assigning ((pr_stages p)[i := s])"
      using free i(1) by (cases s) (auto simp: list_ex_length nth_list_update)
    from process_step.run [where p = "?at nm s" and i = i, of nm1 s1 cd writes] assms(1) i(1) this that
    show ?thesis by auto
  qed
  have self: "?at (pr_nm p) (Arrived pkt) = p" using i(2) list_update_id [of "pr_stages p" i] by simp
  obtain nm1 r where d: "DispatchRPC (pr_nm p) (lookup_lock (pr_nm p) (rpc_Service ?r)) (rpc_Method ?r) (rpc_Payload ?r) = (nm1, r)"
    by fastforce
  show ?thesis
  proof (cases r)
    case (Inl f)
    then have "nm' = count_error nm1" "out = None" "advance (pr_nm p) (Arrived pkt) = (nm', Inr (Finished out))"
      using d run by (cases f; simp add: process_packet_def Let_def)+
    then show ?thesis using step [of "pr_nm p" "Arrived pkt" nm' "Finished out"] self by simp
  next
    case (Inr b)
    then obtain snd where snd: "p_Sender pkt = Some snd"
      using d run by (auto simp: process_packet_def Let_def split: option.splits)
    define nm2 where "nm2 = nm1\<lparr>nm_peers := (nm_peers nm1)(c_Username snd \<mapsto> Some snd), nm_active := mark_active (Some snd) (nm_active nm1)\<rparr>"
    have info: "nm_info nm1 = nm_info nm2" by (simp add: nm2_def)
    have last: "advance nm2 (Assigned pkt b) = (nm', Inr (Finished out))"
      using d run Inr snd
      by (auto simp: process_packet_def Let_def nm2_def split: prod.splits sum.splits failure.splits)
    have "(process_step cd writes)\<^sup>*\<^sup>* (?at (pr_nm p) (Arrived pkt)) (?at nm1 (Dispatched pkt b))"
      by (rule step) (use d Inr in \<open>simp add: Let_def\<close>)
    also have "(process_step cd writes)\<^sup>*\<^sup>* (?at nm1 (Dispatched pkt b)) (?at nm1 (Assigning pkt b))" by (rule step) simp
    also have "(process_step cd writes)\<^sup>*\<^sup>* (?at nm1 (Assigning pkt b)) (?at nm2 (Assigned pkt b))"
      by (rule step) (simp add: snd nm2_def)
    also have "(process_step cd writes)\<^sup>*\<^sup>* (?at nm2 (Assigned pkt b)) (?at nm' (Finished out))" by (rule step) (rule last)
    finally show ?thesis unfolding self .
  qed
qed

section \<open>Properties\<close>



text \<open>
  C34. Two requests can end a node: if the handlers of two packets succeed, the process can die of concurrent map
  assignments, because all goroutines hold the lock of the manager for reading only.
\<close>

theorem two_requests_can_kill:
  assumes pkts: "udp_turn cd writes ev1 = Push pkt1" "udp_turn cd writes ev2 = Push pkt2"
    and d1: "DispatchRPC nm (lookup_lock nm (rpc_Service (p_RPC pkt1))) (rpc_Method (p_RPC pkt1)) (rpc_Payload (p_RPC pkt1)) = (nm1, Inr b1)"
    and d2: "DispatchRPC nm1 (lookup_lock nm1 (rpc_Service (p_RPC pkt2))) (rpc_Method (p_RPC pkt2)) (rpc_Payload (p_RPC pkt2)) = (nm2, Inr b2)"
  shows "\<exists>p. (process_step cd writes)\<^sup>*\<^sup>* (start_process nm) p \<and> pr_seen p = [ev1, ev2] \<and> pr_dead p = Some ConcurrentMapWrites"
proof -
  let ?at = "\<lambda>m ss d. \<lparr>pr_nm = m, pr_reading = True, pr_seen = [ev1, ev2], pr_stages = ss, pr_dead = d\<rparr>"
  let ?p1 = "\<lparr>pr_nm = nm, pr_reading = True, pr_seen = [ev1], pr_stages = [Arrived pkt1], pr_dead = None\<rparr>"
  have "process_step cd writes (start_process nm) ?p1"
    using process_step.push [of "start_process nm", OF _ _ pkts(1)] by (simp add: start_process_def)
  moreover have "process_step cd writes ?p1 (?at nm [Arrived pkt1, Arrived pkt2] None)"
    using process_step.push [of ?p1, OF _ _ pkts(2)] by simp
  moreover have "process_step cd writes (?at nm [Arrived pkt1, Arrived pkt2] None) (?at nm1 [Dispatched pkt1 b1, Arrived pkt2] None)"
    using process_step.run [of "?at nm [Arrived pkt1, Arrived pkt2] None" 0 nm1 "Dispatched pkt1 b1"] d1 by (simp add: Let_def)
  moreover have "process_step cd writes (?at nm1 [Dispatched pkt1 b1, Arrived pkt2] None) (?at nm2 [Dispatched pkt1 b1, Dispatched pkt2 b2] None)"
    using process_step.run [of "?at nm1 [Dispatched pkt1 b1, Arrived pkt2] None" 1 nm2 "Dispatched pkt2 b2"] d2 by (simp add: Let_def)
  moreover have "process_step cd writes (?at nm2 [Dispatched pkt1 b1, Dispatched pkt2 b2] None) (?at nm2 [Assigning pkt1 b1, Dispatched pkt2 b2] None)"
    using process_step.run [of "?at nm2 [Dispatched pkt1 b1, Dispatched pkt2 b2] None" 0 nm2 "Assigning pkt1 b1"] by simp
  moreover have "process_step cd writes (?at nm2 [Assigning pkt1 b1, Dispatched pkt2 b2] None)
      (?at nm2 [Assigning pkt1 b1, Dispatched pkt2 b2] (Some ConcurrentMapWrites))"
    using process_step.clash [of "?at nm2 [Assigning pkt1 b1, Dispatched pkt2 b2] None" 1] by simp
  ultimately have "(process_step cd writes)\<^sup>*\<^sup>* (start_process nm) (?at nm2 [Assigning pkt1 b1, Dispatched pkt2 b2] (Some ConcurrentMapWrites))"
    by (meson converse_rtranclp_into_rtranclp rtranclp.rtrancl_refl)
  then show ?thesis by (intro exI) auto
qed

theorem two_requests_can_kill_witness:
  "\<exists>nm p (cd :: router_codec). nm_serving cd nm \<and> (process_step cd udp_writes)\<^sup>*\<^sup>* (start_process nm) p
     \<and> pr_seen p = [Datagram ''a'' [1], Datagram ''a'' [1]] \<and> pr_dead p = Some ConcurrentMapWrites"
proof -
  let ?cd = "lan_codec zero_id []" and ?rep = "RepAck \<lparr>ack_From = Some peer_b, ack_Value = []\<rparr>"
  obtain nm where nm: "nm_serving ?cd nm" "nm_info nm = Some peer_b" "lookup_lock nm kademlia_service = lookup_lock nm routing_service"
    by (rule lan_manager [of "[routing_service, kademlia_service]" ?cd 7]) (auto simp: peers_ab routing_service_def kademlia_service_def)
  obtain pkt p dec where pkt: "udp_turn ?cd udp_writes (Datagram ''a'' [1]) = Push pkt"
    "p_RPC pkt = \<lparr>rpc_Service = kademlia_service, rpc_Method = request_method demo_ping, rpc_Sender = Some peer_a, rpc_Payload = p\<rparr>"
    and dec: "request_decoder ?cd (request_method demo_ping) = Some dec" "dec p = Some demo_ping"
    using request_arrives [OF lan_codec_laws lan_codec_datagrams(1)] by metis
  obtain body where body: "pb_marshal_reply ?cd ?rep = Some body" using lan_codec_datagrams(2) by (auto simp: reply_datagram_def)
  have go: "\<exists>m'. DispatchRPC m (lookup_lock m kademlia_service) (request_method demo_ping) p = (m', Inr body)
      \<and> nm_same m m' \<and> nm_inv m'" if m: "nm_inv m" "nm_same nm m" for m
  proof -
    have info: "nm_info m = Some peer_b" "nm_registry m (lookup_lock m kademlia_service) = Some (routing_registry ?cd)"
      using m(2) nm lookup_lock_frame [of m nm] by (simp_all add: nm_same_def nm_serving_def)
    then have rt: "rt_inv (nm_router m)" "rt_local (nm_router m) = Some peer_b"
      using m(1) by (simp_all add: nm_inv_def table_ok_def)
    obtain rt1 where "rt_Update (nm_router m) (Some peer_a) = (rt1, Inr ())" "rt_local rt1 = Some peer_b"
      using rt_Update_ok [OF rt(1)] rt(2) by metis
    then have s: "serve_request (nm_router m) demo_ping = (rt1, Inr ?rep)"
      by (simp add: demo_ping_def rs_Ping_def noting_ok)
    have i: "nm_info m \<noteq> None" using info(1) by simp
    note d = DispatchRPC_request [OF i info(2) dec s body]
    show ?thesis using d DispatchRPC_inv [OF m(1) d] by (simp add: nm_same_def)
  qed
  obtain m1 where m1: "DispatchRPC nm (lookup_lock nm kademlia_service) (request_method demo_ping) p = (m1, Inr body)"
    "nm_same nm m1" "nm_inv m1"
    using go [of nm] nm(1) by (auto simp: nm_serving_def nm_same_def)
  obtain m2 where m2: "DispatchRPC m1 (lookup_lock m1 kademlia_service) (request_method demo_ping) p = (m2, Inr body)"
    using go [OF m1(3,2)] by blast
  show ?thesis using two_requests_can_kill [OF pkt(1) pkt(1), of nm m1 body m2 body] m1(1) m2 pkt(2) nm(1) by auto
qed

end
