(* ===== verification/Disk.thy ===== *)
theory Disk
  imports Prelude "HOL-Library.AList"
begin

text \<open>
  The file system as the key store sees it: the regular files in an association list from paths to
  contents, and a script of faults. Every system call consumes one entry of the script, so that
  a theorem for all scripts covers every failure at every point: \<open>Fails left\<close> is a call that
  returns an error (a failing write may leave the content \<open>left\<close> behind), \<open>Garbles b\<close> a call that
  reports success but writes or reads the bytes \<open>b\<close>.
\<close>

datatype fault = Works | Fails "bytes option" | Garbles bytes

record disk =
  dk_files :: "(string \<times> bytes) list"
  dk_fault :: "nat \<Rightarrow> fault"
  dk_time :: nat

definition file_at :: "disk \<Rightarrow> string \<Rightarrow> bytes option" where
  "file_at d path = map_of (dk_files d) path"

definition next_fault :: "disk \<Rightarrow> fault" where
  "next_fault d = dk_fault d (dk_time d)"

definition tick :: "disk \<Rightarrow> disk" where
  "tick d = d\<lparr>dk_time := Suc (dk_time d)\<rparr>"

definition put_file :: "string \<Rightarrow> bytes \<Rightarrow> disk \<Rightarrow> disk" where
  "put_file path b d = d\<lparr>dk_files := AList.update path b (dk_files d)\<rparr>"

definition drop_file :: "string \<Rightarrow> disk \<Rightarrow> disk" where
  "drop_file path d = d\<lparr>dk_files := AList.delete path (dk_files d)\<rparr>"

section \<open>System calls\<close>

text \<open>\<open>os.WriteFile\<close>; with empty data, \<open>os.Create\<close> and \<open>os.OpenFile\<close> with truncation.\<close>

definition os_WriteFile :: "string \<Rightarrow> bytes \<Rightarrow> disk \<Rightarrow> disk \<times> bool" where
  "os_WriteFile path data d =
     (case next_fault d of
        Works \<Rightarrow> (put_file path data (tick d), True)
      | Fails None \<Rightarrow> (tick d, False)
      | Fails (Some b) \<Rightarrow> (put_file path b (tick d), False)
      | Garbles b \<Rightarrow> (put_file path b (tick d), True))"

text \<open>\<open>Write\<close> on a file that is open for writing and positioned at its end.\<close>

definition os_Append :: "string \<Rightarrow> bytes \<Rightarrow> disk \<Rightarrow> disk \<times> bool" where
  "os_Append path data d =
     os_WriteFile path ((case file_at d path of None \<Rightarrow> [] | Some b \<Rightarrow> b) @ data) d"

definition os_ReadFile :: "string \<Rightarrow> disk \<Rightarrow> disk \<times> bytes option" where
  "os_ReadFile path d =
     (tick d, case next_fault d of
        Works \<Rightarrow> file_at d path
      | Fails _ \<Rightarrow> None
      | Garbles b \<Rightarrow> (case file_at d path of None \<Rightarrow> None | Some _ \<Rightarrow> Some b))"

text \<open>
  \<open>io.ReadFull\<close> of \<open>n\<close> bytes at a position of an open file: what there is up to \<open>n\<close> bytes, \<open>None\<close> for an
  error other than the end of the file.
\<close>

definition os_ReadAt :: "string \<Rightarrow> nat \<Rightarrow> nat \<Rightarrow> disk \<Rightarrow> disk \<times> bytes option" where
  "os_ReadAt path pos n d =
     (case os_ReadFile path d of (d', r) \<Rightarrow> (d', map_option (\<lambda>b. take n (drop pos b)) r))"

definition os_Remove :: "string \<Rightarrow> disk \<Rightarrow> disk \<times> bool" where
  "os_Remove path d =
     (if next_fault d = Works \<and> file_at d path \<noteq> None then (drop_file path (tick d), True)
      else (tick d, False))"

text \<open>Calls that touch no content: \<open>MkdirAll\<close>, \<open>Seek\<close>, \<open>Stat\<close> of an open file, \<open>Sync\<close>.\<close>

definition os_Access :: "disk \<Rightarrow> disk \<times> bool" where
  "os_Access d = (tick d, next_fault d = Works)"

text \<open>\<open>os.Stat\<close> of a path: present, absent (\<open>IsNotExist\<close>) or another error.\<close>

datatype stat = Present | Absent | StatError

definition os_Stat :: "string \<Rightarrow> disk \<Rightarrow> disk \<times> stat" where
  "os_Stat path d =
     (tick d, if next_fault d \<noteq> Works then StatError
              else if file_at d path = None then Absent else Present)"

definition os_Rename :: "string \<Rightarrow> string \<Rightarrow> disk \<Rightarrow> disk \<times> bool" where
  "os_Rename src dst d =
     (case file_at d src of
        Some b \<Rightarrow>
          if next_fault d = Works
          then ((if src = dst then tick d else put_file dst b (drop_file src (tick d))), True)
          else (tick d, False)
      | None \<Rightarrow> (tick d, False))"

section \<open>Paths\<close>

text \<open>
  \<open>filepath.Join\<close> of a directory that is clean but for trailing slashes and a plain file name: no slash, and not
  \<open>.\<close> or \<open>..\<close>. Directories themselves are not kept; a directory that is missing shows as a failing call.
\<close>

definition strip_slashes :: "string \<Rightarrow> string" where
  "strip_slashes s = rev (dropWhile (\<lambda>c. c = CHR ''/'') (rev s))"

definition path_join :: "string \<Rightarrow> string \<Rightarrow> string" where
  "path_join dir name = (if dir = '''' then name else strip_slashes dir @ ''/'' @ name)"

text \<open>\<open>filepath.Base\<close> of a path that does not end in a slash, and \<open>filepath.Ext\<close>.\<close>

definition path_base :: "string \<Rightarrow> string" where
  "path_base p = rev (takeWhile (\<lambda>c. c \<noteq> CHR ''/'') (rev p))"

definition path_ext :: "string \<Rightarrow> string" where
  "path_ext p =
     (let b = rev (path_base p); e = takeWhile (\<lambda>c. c \<noteq> CHR ''.'') b in
      if length e < length b then CHR ''.'' # rev e else '''')"

text \<open>\<open>os.ReadDir\<close>: the names directly below a directory, in increasing order.\<close>

definition names_in :: "string \<Rightarrow> disk \<Rightarrow> string list" where
  "names_in dir d =
     sort_slice (\<lambda>a b. bytes_compare (map of_char a) (map of_char b) < 0)
       (map path_base (filter (\<lambda>p. p = path_join dir (path_base p)) (map fst (dk_files d))))"

definition os_ReadDir :: "string \<Rightarrow> disk \<Rightarrow> disk \<times> string list option" where
  "os_ReadDir dir d = (tick d, if next_fault d = Works then Some (names_in dir d) else None)"

section \<open>Lemmas\<close>

lemma file_at_frame [simp]:
  "file_at (tick d) = file_at d"
  "file_at (put_file p b d) = (file_at d)(p \<mapsto> b)"
  "file_at (drop_file p d) = (file_at d)(p := None)"
  by (auto simp: file_at_def tick_def put_file_def drop_file_def fun_eq_iff update_conv' delete_conv')

lemma fault_frame [simp]:
  "dk_fault (tick d) = dk_fault d" "dk_fault (put_file p b d) = dk_fault d"
  "dk_fault (drop_file p d) = dk_fault d"
  by (simp_all add: tick_def put_file_def drop_file_def)

text \<open>A disk on which nothing fails.\<close>

definition reliable :: "disk \<Rightarrow> bool" where
  "reliable d \<longleftrightarrow> (\<forall>n. dk_fault d n = Works)"

lemma reliable_frame [simp]:
  "reliable (tick d) = reliable d" "reliable (put_file p b d) = reliable d"
  "reliable (drop_file p d) = reliable d"
  by (simp_all add: reliable_def)

lemma next_fault_reliable [simp]: "reliable d \<Longrightarrow> next_fault d = Works"
  by (simp add: reliable_def next_fault_def)

named_theorems os_reliable \<open>system calls on a disk on which nothing fails\<close>

lemma os_calls_reliable [os_reliable]:
  "reliable d \<Longrightarrow> os_WriteFile p b d = (put_file p b (tick d), True)"
  "reliable d \<Longrightarrow> os_ReadFile p d = (tick d, file_at d p)"
  "reliable d \<Longrightarrow> os_ReadAt p pos n d = (tick d, map_option (\<lambda>b. take n (drop pos b)) (file_at d p))"
  "reliable d \<Longrightarrow> os_Access d = (tick d, True)"
  "reliable d \<Longrightarrow> file_at d p = Some b \<Longrightarrow> os_Remove p d = (drop_file p (tick d), True)"
  "reliable d \<Longrightarrow> os_Append p b d
     = (put_file p ((case file_at d p of None \<Rightarrow> [] | Some c \<Rightarrow> c) @ b) (tick d), True)"
  by (simp_all add: os_WriteFile_def os_ReadFile_def os_ReadAt_def os_Access_def os_Remove_def os_Append_def)

lemma path_join_inj: "path_join dir a = path_join dir b \<longleftrightarrow> a = b"
  by (simp add: path_join_def)

end
