(* ===== verification/Chunking.thy ===== *)
theory Chunking
  imports Disk Keyspace
begin

text \<open>
  The data of the key store and its arithmetic: \<open>storage/key_store/config.go\<close>, and the types, the
  chunk constructor and \<open>updateKey\<close> of \<open>storage/key_store/key_store.go\<close>, with the metadata
  constructors of \<open>cache_write.go\<close>. Unsigned integers are naturals with the conversions written out
  (\<open>u32\<close>, \<open>u64\<close>). SHA-1, SHA-256 and SHA-512 are arguments (the record \<open>libs\<close>), so that what is
  proved holds for every hash function, and so is the third-party TOML codec.
\<close>

definition u32 :: "nat \<Rightarrow> nat" where "u32 n = n mod 2 ^ 32"
definition u64 :: "nat \<Rightarrow> nat" where "u64 n = n mod 2 ^ 64"

definition KeySize :: nat where "KeySize = 20"
definition HashSize :: nat where "HashSize = 32"
definition CryptoSize :: nat where "CryptoSize = 64"
definition MinChunkSize :: nat where "MinChunkSize = 2 ^ 16"
definition MaxChunkSize :: nat where "MaxChunkSize = 2 ^ 22"
definition TargetChunks :: nat where "TargetChunks = 1000"
definition FileExtension :: string where "FileExtension = ''.kdht''"
definition default_permissions :: nat where "default_permissions = 256 + 128 + 32 + 4"

record file_meta =
  fm_FileHash :: bytes
  fm_TotalSize :: nat
  fm_FileName :: string
  fm_Modified :: int
  fm_Replicate :: nat
  fm_Permissions :: nat
  fm_Signature :: bytes
  fm_TTL :: nat
  fm_ChunkSize :: nat
  fm_TotalChunks :: nat

record file_chunk =
  fc_Key :: bytes
  fc_FileName :: string
  fc_Size :: nat
  fc_FileIndex :: nat
  fc_Location :: string
  fc_Protocol :: string
  fc_DataHash :: bytes

record file_reference =
  fr_MetaData :: file_meta
  fr_Chunks :: "file_chunk option list"

record libs =
  sha1 :: "bytes \<Rightarrow> bytes"
  sha256 :: "bytes \<Rightarrow> bytes"
  sha512 :: "bytes \<Rightarrow> bytes"
  toml_encode :: "file_reference \<Rightarrow> bytes option"
  toml_decode :: "bytes \<Rightarrow> file_reference option"

section \<open>Keys\<close>

text \<open>\<open>binary.LittleEndian.PutUint64\<close>.\<close>

definition le64 :: "nat \<Rightarrow> bytes" where
  "le64 n = map (\<lambda>i. word_of_nat (n div 256 ^ i)) [0..<8]"

definition NewChunkID :: "libs \<Rightarrow> bytes option \<Rightarrow> bytes \<Rightarrow> nat \<Rightarrow> bytes" where
  "NewChunkID H chunkData fileHash index =
     (case chunkData of
        Some b \<Rightarrow> sha1 H b
      | None \<Rightarrow> sha1 H (fileHash @ le64 index))"

definition NewFileChunk :: "libs \<Rightarrow> bytes \<Rightarrow> string \<Rightarrow> file_chunk" where
  "NewFileChunk H data protocol =
     \<lparr>fc_Key = sha1 H data, fc_FileName = '''', fc_Size = u32 (length data), fc_FileIndex = 0,
      fc_Location = '''', fc_Protocol = protocol, fc_DataHash = sha256 H data\<rparr>"

definition updateKey :: "libs \<Rightarrow> file_chunk \<Rightarrow> bytes \<Rightarrow> string \<Rightarrow> nat \<Rightarrow> file_chunk" where
  "updateKey H fc fileHash fileName fileIndex =
     fc\<lparr>fc_Key := sha1 H (fileHash @ le64 fileIndex), fc_FileName := fileName, fc_FileIndex := fileIndex\<rparr>"

definition ValidateDataSHA256 :: "libs \<Rightarrow> bytes \<Rightarrow> bytes \<Rightarrow> bool" where
  "ValidateDataSHA256 H a b \<longleftrightarrow> sha256 H a = sha256 H b"

definition SliceToKey :: "bytes \<Rightarrow> (nat, bytes) go" where
  "SliceToKey b = (if length b \<noteq> KeySize then Inl (Err (length b)) else Inr b)"

definition ShaCheckSum :: "libs \<Rightarrow> bytes \<Rightarrow> int \<Rightarrow> bytes" where
  "ShaCheckSum H obj n =
     (if n = int KeySize then sha1 H obj else if n = int HashSize then sha256 H obj
      else if n = int CryptoSize then sha512 H obj else sha1 H obj)"

section \<open>Chunk sizes\<close>

text \<open>
  \<open>math.Round (math.Log2 n)\<close> for a positive integer, in exact arithmetic: the binary logarithm is
  rounded up from \<open>2^(k + 1/2)\<close> on, which no integer equals.
\<close>

fun flog2 :: "nat \<Rightarrow> nat" where
  "flog2 n = (if n < 2 then 0 else Suc (flog2 (n div 2)))"

declare flog2.simps [simp del]

definition round_log2 :: "nat \<Rightarrow> nat" where
  "round_log2 n = (let k = flog2 n in if 2 ^ (2 * k + 1) \<le> n * n then k + 1 else k)"

definition CalculateChunkSize :: "nat \<Rightarrow> nat" where
  "CalculateChunkSize fileSize =
     (if fileSize < MinChunkSize then u32 fileSize
      else let chunkSize = fileSize div TargetChunks;
               chunkSize = u64 (2 ^ round_log2 chunkSize)
           in if chunkSize < MinChunkSize then MinChunkSize
              else if MaxChunkSize < chunkSize then MaxChunkSize
              else u32 chunkSize)"

text \<open>The expression for \<open>TotalChunks\<close>: the sum wraps at 64 bits, and the division panics for zero.\<close>

definition total_chunks :: "nat \<Rightarrow> nat \<Rightarrow> ('e, nat) go" where
  "total_chunks totalSize chunkSize =
     (if chunkSize = 0 then Inl (Panic DivideByZero)
      else Inr (u32 (u64 (totalSize + chunkSize + 2 ^ 64 - 1) div chunkSize)))"

definition blank_meta :: file_meta where
  "blank_meta = \<lparr>fm_FileHash = replicate HashSize 0, fm_TotalSize = 0, fm_FileName = '''', fm_Modified = 0,
     fm_Replicate = 0, fm_Permissions = 0, fm_Signature = replicate CryptoSize 0, fm_TTL = 0,
     fm_ChunkSize = 0, fm_TotalChunks = 0\<rparr>"

definition prepareMetaDataSecure :: "int \<Rightarrow> string \<Rightarrow> bytes \<Rightarrow> int \<Rightarrow> bytes \<Rightarrow> ('e, file_meta) go" where
  "prepareMetaDataSecure now name data permissions signature =
     (let perm = (if permissions = 0 then default_permissions else nat (permissions mod 2 ^ 32));
          size = u64 (length data);
          chunkSize = CalculateChunkSize size
      in map_sum id (\<lambda>n. blank_meta\<lparr>fm_Permissions := perm, fm_TotalSize := size, fm_TTL := 24 * 60 * 60,
             fm_FileName := name, fm_Modified := now, fm_Signature := signature,
             fm_ChunkSize := chunkSize, fm_TotalChunks := n\<rparr>) (total_chunks size chunkSize))"

definition prepareMetaData :: "int \<Rightarrow> string \<Rightarrow> bytes \<Rightarrow> int \<Rightarrow> ('e, file_meta) go" where
  "prepareMetaData now name data permissions =
     (let perm = (if permissions = 0 then default_permissions else nat (permissions mod 2 ^ 32));
          size = u64 (length data);
          chunkSize = CalculateChunkSize size
      in map_sum id (\<lambda>n. blank_meta\<lparr>fm_Permissions := perm, fm_TotalSize := size, fm_TTL := 24 * 60 * 60,
             fm_FileName := name, fm_Modified := now,
             fm_ChunkSize := chunkSize, fm_TotalChunks := n\<rparr>) (total_chunks size chunkSize))"

section \<open>Lemmas\<close>

lemma u_small [simp]: "n < 2 ^ 32 \<Longrightarrow> u32 n = n" "n < 2 ^ 64 \<Longrightarrow> u64 n = n"
  by (simp_all add: u32_def u64_def)

lemma flog2_bounds: "0 < n \<Longrightarrow> 2 ^ flog2 n \<le> n \<and> n < 2 ^ Suc (flog2 n)"
proof (induction n rule: flog2.induct)
  case (1 n)
  show ?case
  proof (cases "n < 2")
    case True
    then show ?thesis using 1(2) by (simp add: flog2.simps)
  next
    case False
    then have "2 ^ flog2 (n div 2) \<le> n div 2 \<and> n div 2 < 2 ^ Suc (flog2 (n div 2))"
      using 1(1) by simp
    then show ?thesis using False by (subst (1 2) flog2.simps) auto
  qed
qed

text \<open>The rounded power of two is within a factor of the square root of two, either way.\<close>

lemma round_log2_close:
  assumes "0 < n"
  shows "(2 ^ round_log2 n) ^ 2 \<le> 2 * n\<^sup>2" and "n\<^sup>2 \<le> 2 * (2 ^ round_log2 n :: nat) ^ 2"
proof -
  let ?k = "flog2 n"
  have b: "2 ^ ?k \<le> n" "n < 2 ^ Suc ?k" using flog2_bounds [OF assms] by auto
  have sq: "(2 ^ ?k :: nat)\<^sup>2 \<le> n\<^sup>2" "n\<^sup>2 < (2 ^ Suc ?k :: nat)\<^sup>2"
    using power_mono [OF b(1), of 2] power_strict_mono [OF b(2), of 2] by simp_all
  have e: "(2 :: nat) ^ (2 * ?k + 1) = 2 * (2 ^ ?k)\<^sup>2" by (simp add: power_mult power2_eq_square power_mult_distrib [symmetric] mult.commute)
  show "(2 ^ round_log2 n) ^ 2 \<le> 2 * n\<^sup>2" and "n\<^sup>2 \<le> 2 * (2 ^ round_log2 n :: nat) ^ 2"
    using sq e by (auto simp: round_log2_def Let_def power2_eq_square)
qed

lemma total_chunks_ceiling:
  assumes "0 < c" and "0 < s" and "s + c \<le> 2 ^ 64" and "(s + c - 1) div c < 2 ^ 32"
  shows "total_chunks s c = Inr ((s + c - 1) div c)"
proof -
  have "s + c + 2 ^ 64 - 1 = (s + c - 1) + 2 ^ 64" using assms(1,2) by simp
  then have "u64 (s + c + 2 ^ 64 - 1) = (s + c - 1) mod 2 ^ 64"
    unfolding u64_def by (simp only: mod_add_self2)
  moreover have "s + c - 1 < 2 ^ 64" using assms(1,3) by linarith
  ultimately have "u64 (s + c + 2 ^ 64 - 1) = s + c - 1" by simp
  then show ?thesis using assms by (simp add: total_chunks_def)
qed

lemma CalculateChunkSize_large:
  assumes "MinChunkSize \<le> s" and "s < 2 ^ 64"
  defines "c \<equiv> CalculateChunkSize s" and "q \<equiv> s div TargetChunks"
  shows "MinChunkSize \<le> c" and "c \<le> MaxChunkSize" and "\<exists>k. c = 2 ^ k"
    and "MinChunkSize \<le> q \<Longrightarrow> q \<le> MaxChunkSize \<Longrightarrow> c = 2 ^ round_log2 q"
proof -
  let ?p = "2 ^ round_log2 q :: nat"
  have q0: "0 < q" using assms(1) by (simp add: q_def MinChunkSize_def TargetChunks_def)
  have q: "q < 2 ^ 55" using assms(2) by (simp add: q_def TargetChunks_def)
  have b: "2 ^ flog2 q \<le> q" "q < 2 ^ Suc (flog2 q)" using flog2_bounds [OF q0] by auto
  have "(2 :: nat) ^ flog2 q < 2 ^ 55" using b(1) q by (rule le_less_trans)
  then have "flog2 q < 55" by (rule power_less_imp_less_exp [rotated]) simp
  then have r: "round_log2 q < 64" by (auto simp: round_log2_def Let_def)
  have p: "u64 ?p = ?p" using power_strict_increasing [OF r, of "2 :: nat"] by simp
  have c: "c = (if ?p < MinChunkSize then MinChunkSize else if MaxChunkSize < ?p then MaxChunkSize else u32 ?p)"
    using assms(1) by (simp add: c_def CalculateChunkSize_def p flip: q_def)
  have u: "?p \<le> MaxChunkSize \<Longrightarrow> u32 ?p = ?p" by (simp add: MaxChunkSize_def)
  have "c = 2 ^ 16 \<or> c = 2 ^ 22 \<or> (c = ?p \<and> 2 ^ 16 \<le> ?p \<and> ?p \<le> 2 ^ 22)"
    unfolding c using u by (simp add: MinChunkSize_def MaxChunkSize_def)
  then show "\<exists>k. c = 2 ^ k" "MinChunkSize \<le> c" "c \<le> MaxChunkSize"
    unfolding MinChunkSize_def MaxChunkSize_def by (blast, fastforce, fastforce)
  assume range: "MinChunkSize \<le> q" "q \<le> MaxChunkSize"
  have "(2 :: nat) ^ 16 < 2 ^ Suc (flog2 q)" using range(1) b(2) by (simp add: MinChunkSize_def)
  then have lo: "16 \<le> flog2 q" by (simp only: power_strict_increasing_iff)
  have "(2 :: nat) ^ flog2 q \<le> 2 ^ 22" using range(2) b(1) by (simp add: MaxChunkSize_def)
  then have hi: "flog2 q \<le> 22" by (simp only: power_increasing_iff)
  have "round_log2 q \<le> 22"
  proof (cases "flog2 q = 22")
    case True
    then have "q = 2 ^ 22" using b(1) range(2) by (simp add: MaxChunkSize_def)
    then show ?thesis using True by (simp add: round_log2_def)
  qed (use hi in \<open>auto simp: round_log2_def Let_def\<close>)
  then have le: "?p \<le> 2 ^ 22" by (rule power_increasing) simp
  have "16 \<le> round_log2 q" using lo by (auto simp: round_log2_def Let_def)
  then have "2 ^ 16 \<le> ?p" by (rule power_increasing) simp
  then show "c = ?p" using le by (simp add: c MinChunkSize_def MaxChunkSize_def)
qed

lemma ceiling_covers:
  assumes "0 < c" and "0 < (s :: nat)"
  defines "n \<equiv> (s + c - 1) div c"
  shows "0 < n" and "(n - 1) * c < s" and "s \<le> n * c"
proof -
  have d: "n = Suc ((s - 1) div c)"
    using assms(1,2) div_add_self2 [of c "s - 1"] by (simp add: n_def)
  have m: "(s - 1) div c * c + (s - 1) mod c = s - 1" and l: "(s - 1) mod c < c"
    using assms(1) by simp_all
  have "(s - 1) div c * c < s" using m assms(2) by linarith
  then show "(n - 1) * c < s" using d by simp
  show "0 < n" using d by simp
  have "s - 1 < (s - 1) div c * c + c" using m l by linarith
  then show "s \<le> n * c" using d assms(2) by simp
qed

text \<open>The count fits 32 bits, and for the sizes the target is meant for it is within a factor \<open>sqrt 2\<close> of 1000.\<close>

lemma chunk_count_u32:
  assumes "s < 2 ^ 47" and "0 < CalculateChunkSize s" and cover: "(n - 1) * CalculateChunkSize s < s"
  shows "n < 2 ^ 32"
proof (cases "s < MinChunkSize")
  case True
  then have "(n - 1) * s < s" using cover by (simp add: CalculateChunkSize_def MinChunkSize_def)
  then have "n - 1 = 0" by simp
  then show ?thesis by simp
next
  case False
  then have "(n - 1) * MinChunkSize \<le> (n - 1) * CalculateChunkSize s"
    using CalculateChunkSize_large(1) [of s] assms(1) by simp
  then have "(n - 1) * MinChunkSize < s" using cover by (rule le_less_trans)
  then have "n - 1 < 2 ^ 31" using assms(1) by (simp add: MinChunkSize_def)
  then show ?thesis by simp
qed

lemma chunk_count_range:
  fixes s :: nat
  assumes "s < 2 ^ 47" and range: "MinChunkSize * TargetChunks \<le> s" "s \<le> MaxChunkSize * TargetChunks"
    and cover: "(n - 1) * CalculateChunkSize s < s" "s \<le> n * CalculateChunkSize s"
  shows "707 \<le> n \<and> n \<le> 1415"
proof -
  let ?c = "CalculateChunkSize s"
  define q where "q = s div TargetChunks"
  have q: "MinChunkSize \<le> q" "q \<le> MaxChunkSize" "1000 * q \<le> s" "s < 1000 * q + 1000"
    using range by (simp_all add: q_def TargetChunks_def MinChunkSize_def MaxChunkSize_def)
  have "?c = 2 ^ round_log2 q"
    using CalculateChunkSize_large(4) [of s] range q assms(1)
    by (simp add: q_def MinChunkSize_def TargetChunks_def)
  moreover have q0: "0 < q" using q(1) by (simp add: MinChunkSize_def)
  ultimately have sq: "?c\<^sup>2 \<le> 2 * q\<^sup>2" "q\<^sup>2 \<le> 2 * ?c\<^sup>2" using round_log2_close [OF q0] by simp_all
  have "65536 * q \<le> q * q" using q(1) by (simp add: MinChunkSize_def)
  then have qq: "65536 * q \<le> q\<^sup>2" "65536 \<le> q" using q(1) by (simp_all add: power2_eq_square MinChunkSize_def)
  have "\<not> n \<le> 706"
  proof
    assume "n \<le> 706"
    then have "n * ?c \<le> 706 * ?c" by simp
    then have "1000 * q \<le> 706 * ?c" using q(3) cover(2) by linarith
    then have "(1000 * q)\<^sup>2 \<le> (706 * ?c)\<^sup>2" by (rule power_mono) simp
    then have "1000000 * q\<^sup>2 \<le> 498436 * ?c\<^sup>2" by (simp add: power_mult_distrib)
    then show False using sq qq by linarith
  qed
  moreover have "\<not> 1416 \<le> n"
  proof
    assume "1416 \<le> n"
    then have "1415 * ?c \<le> (n - 1) * ?c" by (intro mult_le_mono1) simp
    then have "1415 * ?c \<le> 1000 * q + 999" using q(4) cover(1) by linarith
    then have "(1415 * ?c)\<^sup>2 \<le> (1000 * q + 999)\<^sup>2" by (rule power_mono) simp
    then have "2002225 * ?c\<^sup>2 \<le> 1000000 * q\<^sup>2 + 1998000 * q + 998001"
      by (simp add: power_mult_distrib power2_sum)
    then show False using sq qq by linarith
  qed
  ultimately show ?thesis by linarith
qed

lemma chunk_arithmetic_cases:
  assumes "s < 2 ^ 47"
  shows "(s < MinChunkSize \<longrightarrow> CalculateChunkSize s = s)
    \<and> (MinChunkSize \<le> s \<longrightarrow> MinChunkSize \<le> CalculateChunkSize s
          \<and> CalculateChunkSize s \<le> MaxChunkSize \<and> (\<exists>k. CalculateChunkSize s = 2 ^ k))
    \<and> (0 < s \<longrightarrow> (\<exists>n. total_chunks s (CalculateChunkSize s) = (Inr n :: ('e, nat) go) \<and> 0 < n
          \<and> (n - 1) * CalculateChunkSize s < s \<and> s \<le> n * CalculateChunkSize s
          \<and> (MinChunkSize * TargetChunks \<le> s \<and> s \<le> MaxChunkSize * TargetChunks \<longrightarrow> 707 \<le> n \<and> n \<le> 1415)))
    \<and> total_chunks 0 (CalculateChunkSize 0) = (Inl (Panic DivideByZero) :: ('e, nat) go)"
proof -
  let ?c = "CalculateChunkSize s"
  have small: "s < MinChunkSize \<longrightarrow> ?c = s" by (simp add: CalculateChunkSize_def MinChunkSize_def)
  have large: "MinChunkSize \<le> s \<longrightarrow> MinChunkSize \<le> ?c \<and> ?c \<le> MaxChunkSize \<and> (\<exists>k. ?c = 2 ^ k)"
    using CalculateChunkSize_large(1-3) [of s] assms by simp
  have chunks: "\<exists>n. total_chunks s ?c = (Inr n :: ('e, nat) go) \<and> 0 < n
      \<and> (n - 1) * ?c < s \<and> s \<le> n * ?c
      \<and> (MinChunkSize * TargetChunks \<le> s \<and> s \<le> MaxChunkSize * TargetChunks \<longrightarrow> 707 \<le> n \<and> n \<le> 1415)"
    if s: "0 < s"
  proof -
    have c: "0 < ?c" "?c \<le> MaxChunkSize"
      using small large s by (cases "s < MinChunkSize"; simp add: MinChunkSize_def MaxChunkSize_def)+
    define n where "n = (s + ?c - 1) div ?c"
    note cover = ceiling_covers [OF c(1) s, folded n_def]
    have sum: "s + ?c \<le> 2 ^ 64" using assms c(2) by (simp add: MaxChunkSize_def)
    have "total_chunks s ?c = (Inr n :: ('e, nat) go)"
      using chunk_count_u32 [OF assms c(1) cover(2)] unfolding n_def by (intro total_chunks_ceiling c(1) s sum)
    then show ?thesis using cover chunk_count_range [OF assms _ _ cover(2,3)] by blast
  qed
  have "total_chunks 0 (CalculateChunkSize 0) = (Inl (Panic DivideByZero) :: ('e, nat) go)"
    by (simp add: total_chunks_def CalculateChunkSize_def MinChunkSize_def)
  then show ?thesis using small large chunks by blast
qed

section \<open>Properties\<close>

text \<open>
  C28. Chunk sizes: a file below 64 KiB is one chunk of its own size; any other gets a power of two
  between 64 KiB and 4 MiB. The number of chunks of a non-empty file is the exact
  ceiling, so that the chunks cover the file and only the last can be partial; and a file of 64 KiB to 4 MiB
  times the target of 1000 is cut into 707 to 1415 chunks. An empty file makes the division
  panic.
\<close>

theorem chunk_arithmetic:
  assumes "s < 2 ^ 47"
  shows "(s < MinChunkSize \<longrightarrow> CalculateChunkSize s = s)
    \<and> (MinChunkSize \<le> s \<longrightarrow> MinChunkSize \<le> CalculateChunkSize s
          \<and> CalculateChunkSize s \<le> MaxChunkSize \<and> (\<exists>k. CalculateChunkSize s = 2 ^ k))
    \<and> (0 < s \<longrightarrow> (\<exists>n. total_chunks s (CalculateChunkSize s) = (Inr n :: ('e, nat) go) \<and> 0 < n
          \<and> (n - 1) * CalculateChunkSize s < s \<and> s \<le> n * CalculateChunkSize s
          \<and> (MinChunkSize * TargetChunks \<le> s \<and> s \<le> MaxChunkSize * TargetChunks \<longrightarrow> 707 \<le> n \<and> n \<le> 1415)))
    \<and> total_chunks 0 (CalculateChunkSize 0) = (Inl (Panic DivideByZero) :: ('e, nat) go)"
  by (rule chunk_arithmetic_cases [OF assms])

theorem chunk_arithmetic_witness:
  "\<exists>n. total_chunks 100000000 (CalculateChunkSize 100000000) = (Inr n :: (unit, nat) go) \<and> 707 \<le> n \<and> n \<le> 1415"
  using chunk_arithmetic [of 100000000] by (auto simp: MinChunkSize_def MaxChunkSize_def TargetChunks_def)

end
