(* ===== verification/KeyStore.thy ===== *)
theory KeyStore
  imports Chunking
begin

text \<open>
  The key store, \<open>storage/key_store\<close>: chunks on disk with their registry, file references with their
  metadata files (\<open>disk_write.go\<close>, \<open>disk_read.go\<close>, \<open>cache_read.go\<close>, \<open>cache_write.go\<close>). The two maps are
  association lists, whose order stands for the order in which Go iterates a map. The
  file system is part of the state. Chunk objects are shared between a reference and the
  registry, but only \<open>updateReference\<close> writes to one after it was stored, and it writes the values
  the registry has, so values model them. Each method takes and releases the one lock.
\<close>

record key_store =
  ks_references :: "(bytes \<times> file_reference) list"
  ks_registry :: "(bytes \<times> file_chunk) list"
  ks_storage :: string
  ks_metadata :: string
  ks_disk :: disk

datatype ks_error =
    SizeMismatch
  | WriteChunkFailed
  | VerifyReadFailed
  | WrittenSizeMismatch
  | WrittenHashMismatch
  | ChunkNotFound bytes
  | RemoveFailed
  | StoreChunkFailed nat
  | ProcessedBytesMismatch
  | StoreMetadataFailed
  | MissingLocalChunk bytes
  | MkdirFailed
  | CreateFailed
  | EncodeFailed
  | OpenFailed
  | StatFailed
  | HashFailed
  | SeekFailed
  | ReadChunkFailed nat
  | UnexpectedEnd nat
  | MissingReference nat
  | ReferenceNotFound bytes
  | ReadFileFailed
  | ChunkCorrupt bytes
  | ChunkSizeWrong nat
  | TotalSizeMismatch
  | FileHashMismatch
  | DecodeFailed
  | ReadDirFailed
  | InvalidName string
  | OutputWriteFailed nat
  | SyncFailed
  | CopyFailed

type_synonym 'a ks_result = "key_store \<times> (ks_error, 'a) go"

definition on_disk :: "(disk \<Rightarrow> disk \<times> 'a) \<Rightarrow> key_store \<Rightarrow> key_store \<times> 'a" where
  "on_disk f ks = (case f (ks_disk ks) of (d, r) \<Rightarrow> (ks\<lparr>ks_disk := d\<rparr>, r))"

definition chunkPath :: "key_store \<Rightarrow> bytes \<Rightarrow> string" where
  "chunkPath ks key = path_join (ks_storage ks) (hex_encode key @ FileExtension)"

definition metadata_dir :: "key_store \<Rightarrow> string" where
  "metadata_dir ks = path_join (ks_storage ks) ''metadata''"

definition metadata_path :: "key_store \<Rightarrow> bytes \<Rightarrow> string" where
  "metadata_path ks fileHash = path_join (metadata_dir ks) (hex_encode fileHash @ ''.toml'')"

section \<open>Chunks\<close>

text \<open>Writing a chunk, reading it back and registering it; the result is the chunk as updated.\<close>

definition WriteChunkToDisk :: "libs \<Rightarrow> file_chunk \<Rightarrow> bytes \<Rightarrow> key_store \<Rightarrow> file_chunk ks_result" where
  "WriteChunkToDisk H ref data ks =
     (if u32 (length data) \<noteq> fc_Size ref then (ks, Inl (Err SizeMismatch))
      else
        let ref = ref\<lparr>fc_DataHash := sha256 H data\<rparr>; path = chunkPath ks (fc_Key ref) in
        case on_disk (os_WriteFile path data) ks of
          (ks, False) \<Rightarrow> (ks, Inl (Err WriteChunkFailed))
        | (ks, True) \<Rightarrow>
       (case on_disk (os_ReadFile path) ks of
          (ks, None) \<Rightarrow> (ks, Inl (Err VerifyReadFailed))
        | (ks, Some written) \<Rightarrow>
            if length written \<noteq> length data then (ks, Inl (Err WrittenSizeMismatch))
            else if sha256 H written \<noteq> fc_DataHash ref then (ks, Inl (Err WrittenHashMismatch))
            else
              let ref = ref\<lparr>fc_Protocol := ''file'', fc_Location := path\<rparr> in
              (ks\<lparr>ks_registry := AList.update (fc_Key ref) ref (ks_registry ks)\<rparr>, Inr ref)))"

definition deleteDataFromDisk :: "bytes \<Rightarrow> key_store \<Rightarrow> unit ks_result" where
  "deleteDataFromDisk key ks =
     (case map_of (ks_registry ks) key of
        None \<Rightarrow> (ks, Inl (Err (ChunkNotFound key)))
      | Some chunk \<Rightarrow>
          (case on_disk (os_Remove (fc_Location chunk)) ks of
             (ks, False) \<Rightarrow> (ks, Inl (Err RemoveFailed))
           | (ks, True) \<Rightarrow> (ks\<lparr>ks_registry := AList.delete key (ks_registry ks)\<rparr>, Inr ())))"

text \<open>The cleanup loops: the errors of the deletions are ignored.\<close>

definition delete_chunks :: "bytes list \<Rightarrow> key_store \<Rightarrow> key_store" where
  "delete_chunks keys ks = fold (\<lambda>k ks. fst (deleteDataFromDisk k ks)) keys ks"

definition GetDataFromDisk :: "libs \<Rightarrow> bytes \<Rightarrow> key_store \<Rightarrow> bytes ks_result" where
  "GetDataFromDisk H key ks =
     (case map_of (ks_registry ks) key of
        None \<Rightarrow> (ks, Inl (Err (ChunkNotFound key)))
      | Some chunk \<Rightarrow>
          (case on_disk (os_ReadFile (fc_Location chunk)) ks of
             (ks, None) \<Rightarrow> (ks, Inl (Err ReadFileFailed))
           | (ks, Some data) \<Rightarrow>
               if sha256 H data \<noteq> fc_DataHash chunk then (ks, Inl (Err (ChunkCorrupt key)))
               else (ks, Inr data)))"

definition StoreKey :: "libs \<Rightarrow> bytes \<Rightarrow> bytes \<Rightarrow> key_store \<Rightarrow> key_store" where
  "StoreKey H key val ks =
     ks\<lparr>ks_registry := AList.update key (NewFileChunk H val ''net'') (ks_registry ks)\<rparr>"

definition GetChunkLocation :: "bytes \<Rightarrow> key_store \<Rightarrow> (ks_error, file_chunk) go" where
  "GetChunkLocation key ks =
     (case map_of (ks_registry ks) key of
        None \<Rightarrow> Inl (Err (ChunkNotFound key)) | Some chunk \<Rightarrow> Inr chunk)"

definition ReferenceFromMemory :: "bytes \<Rightarrow> key_store \<Rightarrow> (ks_error, file_reference) go" where
  "ReferenceFromMemory key ks =
     (case map_of (ks_references ks) key of
        None \<Rightarrow> Inl (Err (ReferenceNotFound key)) | Some ref \<Rightarrow> Inr ref)"

definition ListLocalChunks :: "key_store \<Rightarrow> file_chunk list" where
  "ListLocalChunks ks = map snd (ks_registry ks)"

definition ListKnownReferences :: "key_store \<Rightarrow> file_reference list" where
  "ListKnownReferences ks = map snd (ks_references ks)"

section \<open>References\<close>

fun live_chunks :: "(bytes \<times> file_chunk) list \<Rightarrow> file_chunk option list
    \<Rightarrow> (ks_error, file_chunk option list) go" where
  "live_chunks reg [] = Inr []"
| "live_chunks reg (None # cs) = map_sum id (Cons None) (live_chunks reg cs)"
| "live_chunks reg (Some c # cs) =
     (case map_of reg (fc_Key c) of
        None \<Rightarrow> Inl (Err (MissingLocalChunk (fc_Key c)))
      | Some stored \<Rightarrow>
          map_sum id (Cons (Some (c\<lparr>fc_Location := fc_Location stored, fc_DataHash := fc_DataHash stored,
              fc_Protocol := fc_Protocol stored, fc_FileName := fc_FileName stored,
              fc_Size := fc_Size stored, fc_FileIndex := fc_FileIndex stored\<rparr>)))
            (live_chunks reg cs))"

text \<open>Creating the metadata file and encoding the reference into it.\<close>

definition write_metadata :: "libs \<Rightarrow> string \<Rightarrow> file_reference \<Rightarrow> key_store \<Rightarrow> unit ks_result" where
  "write_metadata H path file ks =
     (case on_disk (os_WriteFile path []) ks of
        (ks, False) \<Rightarrow> (ks, Inl (Err CreateFailed))
      | (ks, True) \<Rightarrow>
     (case toml_encode H file of
        None \<Rightarrow> (ks, Inl (Err EncodeFailed))
      | Some b \<Rightarrow>
     (case on_disk (os_WriteFile path b) ks of
        (ks, False) \<Rightarrow> (ks, Inl (Err EncodeFailed))
      | (ks, True) \<Rightarrow> (ks, Inr ()))))"

definition updateReference :: "libs \<Rightarrow> file_reference \<Rightarrow> key_store \<Rightarrow> file_reference ks_result" where
  "updateReference H file ks =
     (case live_chunks (ks_registry ks) (fr_Chunks file) of
        Inl e \<Rightarrow> (ks, Inl e)
      | Inr cs \<Rightarrow>
          let file = file\<lparr>fr_Chunks := cs\<rparr>;
              ks = ks\<lparr>ks_references := AList.update (fm_FileHash (fr_MetaData file)) file (ks_references ks)\<rparr>
          in (case on_disk os_Access ks of
                (ks, False) \<Rightarrow> (ks, Inl (Err MkdirFailed))
              | (ks, True) \<Rightarrow>
             (case write_metadata H (metadata_path ks (fm_FileHash (fr_MetaData file))) file ks of
                (ks, Inl e) \<Rightarrow> (ks, Inl e)
              | (ks, Inr _) \<Rightarrow> (ks, Inr file))))"

fun write_references :: "libs \<Rightarrow> (bytes \<times> file_reference) list \<Rightarrow> key_store \<Rightarrow> unit ks_result" where
  "write_references H [] ks = (ks, Inr ())"
| "write_references H ((hash, file) # refs) ks =
     (case write_metadata H (metadata_path ks hash) file ks of
        (ks, Inl e) \<Rightarrow> (ks, Inl e)
      | (ks, Inr _) \<Rightarrow> write_references H refs ks)"

definition WriteAllReferencesToDisk :: "libs \<Rightarrow> key_store \<Rightarrow> unit ks_result" where
  "WriteAllReferencesToDisk H ks =
     (case on_disk os_Access ks of
        (ks, False) \<Rightarrow> (ks, Inl (Err MkdirFailed))
      | (ks, True) \<Rightarrow> write_references H (ks_references ks) ks)"

section \<open>Storing a file\<close>

text \<open>The loop of \<open>WriteFileToDisk\<close>; the key of chunk \<open>i\<close> is made from the low byte of \<open>i\<close>.\<close>

primrec write_chunks :: "libs \<Rightarrow> file_meta \<Rightarrow> bytes \<Rightarrow> nat list \<Rightarrow> nat \<Rightarrow> file_chunk list \<Rightarrow> key_store
    \<Rightarrow> (nat \<times> file_chunk list) ks_result" where
  "write_chunks H m fileData [] tot acc ks = (ks, Inr (tot, acc))"
| "write_chunks H m fileData (i # is) tot acc ks =
     (let startIdx = i * fm_ChunkSize m;
          endIdx = min (startIdx + fm_ChunkSize m) (fm_TotalSize m) in
      if endIdx < startIdx then (ks, Inl (Panic SliceBounds))
      else
        let chunkData = take (endIdx - startIdx) (drop startIdx fileData);
            chunk = \<lparr>fc_Key = sha1 H (fm_FileHash m @ [word_of_nat i]), fc_FileName = fm_FileName m,
                     fc_Size = u32 (length chunkData), fc_FileIndex = i, fc_Location = '''',
                     fc_Protocol = ''file'', fc_DataHash = sha256 H chunkData\<rparr>
        in (case WriteChunkToDisk H chunk chunkData ks of
              (ks, Inl _) \<Rightarrow> (delete_chunks (map fc_Key acc) ks, Inl (Err (StoreChunkFailed i)))
            | (ks, Inr chunk) \<Rightarrow>
                write_chunks H m fileData is (tot + u32 (length chunkData)) (acc @ [chunk]) ks))"

definition WriteFileToDisk :: "libs \<Rightarrow> int \<Rightarrow> string \<Rightarrow> bytes \<Rightarrow> int \<Rightarrow> key_store \<Rightarrow> file_reference ks_result" where
  "WriteFileToDisk H now name fileData permissions ks =
     (case prepareMetaData now name fileData permissions of
        Inl e \<Rightarrow> (ks, Inl e)
      | Inr m \<Rightarrow>
          let m = m\<lparr>fm_FileHash := sha256 H fileData\<rparr> in
     (case write_chunks H m fileData [0..<fm_TotalChunks m] 0 [] ks of
        (ks, Inl e) \<Rightarrow> (ks, Inl e)
      | (ks, Inr (tot, cs)) \<Rightarrow>
          if tot \<noteq> fm_TotalSize m
          then (delete_chunks (map fc_Key cs) ks, Inl (Err ProcessedBytesMismatch))
          else (case updateReference H \<lparr>fr_MetaData = m, fr_Chunks = map Some cs\<rparr> ks of
              (ks, Inl _) \<Rightarrow> (delete_chunks (map fc_Key cs) ks, Inl (Err StoreMetadataFailed))
            | (ks, Inr file) \<Rightarrow> (ks, Inr file))))"

text \<open>
  The loop of \<open>LoadAndStoreFile\<close>: the file handle stands at the bytes read so far. A chunk that cannot be
  read ends the function without the cleanup that a chunk that cannot be stored gets.
\<close>

primrec load_chunks :: "libs \<Rightarrow> file_meta \<Rightarrow> string \<Rightarrow> nat list \<Rightarrow> nat \<Rightarrow> file_chunk list \<Rightarrow> key_store
    \<Rightarrow> (nat \<times> file_chunk list) ks_result" where
  "load_chunks H m path [] tot acc ks = (ks, Inr (tot, acc))"
| "load_chunks H m path (i # is) tot acc ks =
     (let bytesToRead = (if i + 1 = fm_TotalChunks m then u32 (u64 (fm_TotalSize m + 2 ^ 64 - tot))
                         else fm_ChunkSize m) in
      if fm_ChunkSize m < bytesToRead then (ks, Inl (Panic SliceBounds))
      else (case on_disk (os_ReadAt path tot bytesToRead) ks of
        (ks, None) \<Rightarrow> (ks, Inl (Err (ReadChunkFailed i)))
      | (ks, Some chunkData) \<Rightarrow>
          if chunkData = [] then (ks, Inl (Err (UnexpectedEnd i)))
          else
            let chunk = updateKey H (NewFileChunk H chunkData ''file'') (fm_FileHash m) (fm_FileName m) i
            in (case WriteChunkToDisk H chunk chunkData ks of
                  (ks, Inl _) \<Rightarrow> (delete_chunks (map fc_Key acc) ks, Inl (Err (StoreChunkFailed i)))
                | (ks, Inr chunk) \<Rightarrow>
                    load_chunks H m path is (tot + length chunkData) (acc @ [chunk]) ks)))"

text \<open>\<open>now\<close> is the clock, \<open>perm\<close> the permission bits of the file.\<close>

definition LoadAndStoreFile :: "libs \<Rightarrow> int \<Rightarrow> nat \<Rightarrow> string \<Rightarrow> key_store \<Rightarrow> file_reference ks_result" where
  "LoadAndStoreFile H now perm path ks =
     (case on_disk (os_Stat path) ks of
        (ks, Absent) \<Rightarrow> (ks, Inl (Err OpenFailed))
      | (ks, StatError) \<Rightarrow> (ks, Inl (Err OpenFailed))
      | (ks, Present) \<Rightarrow>
     (case on_disk os_Access ks of
        (ks, False) \<Rightarrow> (ks, Inl (Err StatFailed))
      | (ks, True) \<Rightarrow>
          let size = (case file_at (ks_disk ks) path of None \<Rightarrow> 0 | Some b \<Rightarrow> length b) in
     (case on_disk (os_ReadFile path) ks of
        (ks, None) \<Rightarrow> (ks, Inl (Err HashFailed))
      | (ks, Some content) \<Rightarrow>
     (case on_disk os_Access ks of
        (ks, False) \<Rightarrow> (ks, Inl (Err SeekFailed))
      | (ks, True) \<Rightarrow>
          let chunkSize = CalculateChunkSize size in
     (case total_chunks size chunkSize of
        Inl e \<Rightarrow> (ks, Inl e)
      | Inr n \<Rightarrow>
          let m = blank_meta\<lparr>fm_FileName := path_base path, fm_TotalSize := size, fm_Modified := now,
                    fm_Permissions := perm, fm_ChunkSize := chunkSize,
                    fm_FileHash := sha256 H content, fm_TotalChunks := n\<rparr> in
     (case load_chunks H m path [0..<n] 0 [] ks of
        (ks, Inl e) \<Rightarrow> (ks, Inl e)
      | (ks, Inr (tot, cs)) \<Rightarrow>
          if tot \<noteq> size
          then (delete_chunks (map fc_Key cs) ks, Inl (Err ProcessedBytesMismatch))
          else (case updateReference H \<lparr>fr_MetaData = m, fr_Chunks = map Some cs\<rparr> ks of
              (ks, Inl _) \<Rightarrow> (delete_chunks (map fc_Key cs) ks, Inl (Err StoreMetadataFailed))
            | (ks, Inr file) \<Rightarrow> (ks, Inr file))))))))"

section \<open>Reading a file back\<close>

text \<open>\<open>copy (fileData[start:], chunk)\<close>.\<close>

definition overlay :: "bytes \<Rightarrow> nat \<Rightarrow> bytes \<Rightarrow> bytes" where
  "overlay buf start b =
     take start buf @ take (length buf - start) b @ drop (start + length b) buf"

fun reassemble_chunks :: "libs \<Rightarrow> file_meta \<Rightarrow> nat \<Rightarrow> file_chunk option list \<Rightarrow> bytes \<Rightarrow> nat \<Rightarrow> key_store
    \<Rightarrow> (bytes \<times> nat) ks_result" where
  "reassemble_chunks H m i [] buf written ks = (ks, Inr (buf, written))"
| "reassemble_chunks H m i (None # cs) buf written ks = (ks, Inl (Err (MissingReference i)))"
| "reassemble_chunks H m i (Some ref # cs) buf written ks =
     (case GetDataFromDisk H (fc_Key ref) ks of
        (ks, Inl _) \<Rightarrow> (ks, Inl (Err (ReadChunkFailed i)))
      | (ks, Inr chunkData) \<Rightarrow>
          if u32 (length chunkData) \<noteq> fc_Size ref then (ks, Inl (Err (ChunkSizeWrong i)))
          else if sha256 H chunkData \<noteq> fc_DataHash ref then (ks, Inl (Err (ChunkCorrupt (fc_Key ref))))
          else if length buf < i * fm_ChunkSize m then (ks, Inl (Panic SliceBounds))
          else reassemble_chunks H m (Suc i) cs (overlay buf (i * fm_ChunkSize m) chunkData)
                 (written + length chunkData) ks)"

definition ReassembleFileFromDisk :: "libs \<Rightarrow> bytes \<Rightarrow> key_store \<Rightarrow> bytes ks_result" where
  "ReassembleFileFromDisk H key ks =
     (case ReferenceFromMemory key ks of
        Inl e \<Rightarrow> (ks, Inl e)
      | Inr file \<Rightarrow>
          let m = fr_MetaData file in
     (case reassemble_chunks H m 0 (fr_Chunks file) (replicate (fm_TotalSize m) 0) 0 ks of
        (ks, Inl e) \<Rightarrow> (ks, Inl e)
      | (ks, Inr (buf, written)) \<Rightarrow>
          if written \<noteq> fm_TotalSize m then (ks, Inl (Err TotalSizeMismatch))
          else if sha256 H buf \<noteq> fm_FileHash m then (ks, Inl (Err FileHashMismatch))
          else (ks, Inr buf)))"

text \<open>\<open>HashFile\<close>: the reads of its loop count as one system call.\<close>

definition HashFile :: "libs \<Rightarrow> string \<Rightarrow> key_store \<Rightarrow> (bytes \<times> nat) ks_result" where
  "HashFile H path ks =
     (case on_disk (os_Stat path) ks of
        (ks, Absent) \<Rightarrow> (ks, Inl (Err OpenFailed))
      | (ks, StatError) \<Rightarrow> (ks, Inl (Err OpenFailed))
      | (ks, Present) \<Rightarrow>
     (case on_disk os_Access ks of
        (ks, False) \<Rightarrow> (ks, Inl (Err StatFailed))
      | (ks, True) \<Rightarrow>
          let size = (case file_at (ks_disk ks) path of None \<Rightarrow> 0 | Some b \<Rightarrow> length b) in
     (case on_disk (os_ReadFile path) ks of
        (ks, None) \<Rightarrow> (ks, Inl (Err HashFailed))
      | (ks, Some b) \<Rightarrow> (ks, Inr (sha256 H b, size)))))"

fun copy_chunks :: "libs \<Rightarrow> string \<Rightarrow> nat \<Rightarrow> file_chunk option list \<Rightarrow> nat \<Rightarrow> key_store \<Rightarrow> nat ks_result" where
  "copy_chunks H out i [] written ks = (ks, Inr written)"
| "copy_chunks H out i (None # cs) written ks = (ks, Inl (Err (MissingReference i)))"
| "copy_chunks H out i (Some ref # cs) written ks =
     (case GetDataFromDisk H (fc_Key ref) ks of
        (ks, Inl _) \<Rightarrow> (ks, Inl (Err (ReadChunkFailed i)))
      | (ks, Inr chunkData) \<Rightarrow>
          if u32 (length chunkData) \<noteq> fc_Size ref then (ks, Inl (Err (ChunkSizeWrong i)))
          else if sha256 H chunkData \<noteq> fc_DataHash ref then (ks, Inl (Err (ChunkCorrupt (fc_Key ref))))
          else (case on_disk (os_Append out chunkData) ks of
              (ks, False) \<Rightarrow> (ks, Inl (Err (OutputWriteFailed i)))
            | (ks, True) \<Rightarrow> copy_chunks H out (Suc i) cs (written + length chunkData) ks))"

definition CopyFileToPath :: "libs \<Rightarrow> bytes \<Rightarrow> string \<Rightarrow> key_store \<Rightarrow> unit ks_result" where
  "CopyFileToPath H key out ks =
     (case ReferenceFromMemory key ks of
        Inl e \<Rightarrow> (ks, Inl e)
      | Inr file \<Rightarrow>
     (case on_disk (os_WriteFile out []) ks of
        (ks, False) \<Rightarrow> (ks, Inl (Err CreateFailed))
      | (ks, True) \<Rightarrow>
     (case copy_chunks H out 0 (fr_Chunks file) 0 ks of
        (ks, Inl e) \<Rightarrow> (ks, Inl e)
      | (ks, Inr written) \<Rightarrow>
      if written \<noteq> fm_TotalSize (fr_MetaData file) then (ks, Inl (Err TotalSizeMismatch))
      else (case on_disk os_Access ks of
        (ks, False) \<Rightarrow> (ks, Inl (Err SyncFailed))
      | (ks, True) \<Rightarrow>
     (case HashFile H out ks of
        (ks, Inl e) \<Rightarrow> (ks, Inl e)
      | (ks, Inr (hash, len)) \<Rightarrow>
          if len \<noteq> fm_TotalSize (fr_MetaData file) then (ks, Inl (Err TotalSizeMismatch))
          else if hash \<noteq> fm_FileHash (fr_MetaData file) then (ks, Inl (Err FileHashMismatch))
          else (ks, Inr ()))))))"

text \<open>\<open>copyLocalData\<close>; \<open>is_dir\<close> tells directories.\<close>

definition copyLocalData :: "(string \<Rightarrow> bool) \<Rightarrow> string \<Rightarrow> string \<Rightarrow> key_store \<Rightarrow> unit ks_result" where
  "copyLocalData is_dir src dst ks =
     (let dst = (if is_dir dst then path_join dst (path_base src) else dst) in
      case on_disk (os_Stat src) ks of
        (ks, Absent) \<Rightarrow> (ks, Inl (Err OpenFailed))
      | (ks, StatError) \<Rightarrow> (ks, Inl (Err OpenFailed))
      | (ks, Present) \<Rightarrow>
     (case on_disk (os_WriteFile dst []) ks of
        (ks, False) \<Rightarrow> (ks, Inl (Err CreateFailed))
      | (ks, True) \<Rightarrow>
     (case on_disk (os_ReadFile src) ks of
        (ks, None) \<Rightarrow> (ks, Inl (Err CopyFailed))
      | (ks, Some b) \<Rightarrow>
     (case on_disk (os_Append dst b) ks of
        (ks, False) \<Rightarrow> (ks, Inl (Err CopyFailed))
      | (ks, True) \<Rightarrow> (ks, Inr ())))))"

end
