(* ===== verification/ChunkStore.thy ===== *)
theory ChunkStore
  imports KeyStore
begin

text \<open>
  The chunk layer of the key store. First what every chunk operation does on a disk that may fail or lie
  at any point (the footprint \<open>touches\<close> and one \<open>_cases\<close> lemma per operation); then, on a disk
  that works, the contract of a store with \<open>put\<close> and \<open>get\<close> as a locale, which the code's
  operations implement.
\<close>

section \<open>Paths of chunks and of metadata\<close>

lemma hex_encode_inj: "hex_encode a = hex_encode b \<longleftrightarrow> a = b"
  by (metis hex_decode_encode option.inject)

lemma chunkPath_inj [simp]: "chunkPath ks a = chunkPath ks b \<longleftrightarrow> a = b"
  by (simp add: chunkPath_def path_join_inj hex_encode_inj)

lemma metadata_path_inj [simp]: "metadata_path ks a = metadata_path ks b \<longleftrightarrow> a = b"
  by (simp add: metadata_path_def path_join_inj hex_encode_inj)

lemma path_join_last: "name \<noteq> '''' \<Longrightarrow> path_join dir name \<noteq> '''' \<and> last (path_join dir name) = last name"
  by (simp add: path_join_def)

lemma chunkPath_last: "chunkPath ks k \<noteq> '''' \<and> last (chunkPath ks k) = CHR ''t''"
  using path_join_last [of "hex_encode k @ FileExtension" "ks_storage ks"]
  by (simp add: chunkPath_def FileExtension_def)

lemma metadata_path_last: "metadata_path ks k \<noteq> '''' \<and> last (metadata_path ks k) = CHR ''l''"
  using path_join_last [of "hex_encode k @ ''.toml''" "metadata_dir ks"]
  by (simp add: metadata_path_def)

lemma chunk_paths [simp]:
  "chunkPath ks k \<noteq> ''''" "'''' \<noteq> chunkPath ks k"
  "metadata_path ks h \<noteq> chunkPath ks k" "chunkPath ks k \<noteq> metadata_path ks h"
  "metadata_path ks h \<noteq> ''''" "'''' \<noteq> metadata_path ks h"
  using chunkPath_last [of ks k] metadata_path_last [of ks h] by auto

lemma storage_cong:
  assumes "ks_storage ks' = ks_storage ks"
  shows "chunkPath ks' = chunkPath ks" "metadata_path ks' = metadata_path ks"
  using assms by (auto simp: chunkPath_def metadata_path_def metadata_dir_def fun_eq_iff)

section \<open>Footprints\<close>

text \<open>Between two states only files of \<open>P\<close> changed, and the configuration did not.\<close>

definition touches :: "string set \<Rightarrow> key_store \<Rightarrow> key_store \<Rightarrow> bool" where
  "touches P ks ks' \<longleftrightarrow> ks_storage ks' = ks_storage ks \<and> ks_metadata ks' = ks_metadata ks
     \<and> dk_fault (ks_disk ks') = dk_fault (ks_disk ks)
     \<and> (\<forall>p. p \<notin> P \<longrightarrow> file_at (ks_disk ks') p = file_at (ks_disk ks) p)"

text \<open>The system calls one by one: the maps are untouched, and only the named path can change.\<close>

definition quiet :: "string set \<Rightarrow> key_store \<Rightarrow> key_store \<Rightarrow> bool" where
  "quiet P ks ks' \<longleftrightarrow> touches P ks ks' \<and> ks_registry ks' = ks_registry ks
     \<and> ks_references ks' = ks_references ks"

lemma touches_refl [simp]: "touches P ks ks" and quiet_refl [simp]: "quiet P ks ks"
  by (simp_all add: touches_def quiet_def)

lemma touches_trans: "touches P a b \<Longrightarrow> touches P b c \<Longrightarrow> touches P a c"
  by (auto simp: touches_def)

lemma quiet_trans: "quiet P a b \<Longrightarrow> quiet P b c \<Longrightarrow> quiet P a c"
  by (auto simp: quiet_def intro: touches_trans)

lemma touches_mono: "touches P a b \<Longrightarrow> P \<subseteq> Q \<Longrightarrow> touches Q a b"
  by (auto simp: touches_def)

lemma quiet_mono: "quiet P a b \<Longrightarrow> P \<subseteq> Q \<Longrightarrow> quiet Q a b"
  by (auto simp: quiet_def intro: touches_mono)

lemma quiet_touches: "quiet P a b \<Longrightarrow> touches P a b"
  by (simp add: quiet_def)

named_theorems quiet_calls \<open>what a system call can change\<close>

lemma quiet_write [quiet_calls]: "on_disk (os_WriteFile p b) ks = (ks', r) \<Longrightarrow> p \<in> P \<Longrightarrow> quiet P ks ks'"
  by (auto simp: on_disk_def os_WriteFile_def quiet_def touches_def
      split: prod.splits fault.splits option.splits)

lemma quiet_append [quiet_calls]: "on_disk (os_Append p b) ks = (ks', r) \<Longrightarrow> p \<in> P \<Longrightarrow> quiet P ks ks'"
  using quiet_write by (simp add: on_disk_def os_Append_def)

lemma quiet_remove [quiet_calls]: "on_disk (os_Remove p) ks = (ks', r) \<Longrightarrow> p \<in> P \<Longrightarrow> quiet P ks ks'"
  by (auto simp: on_disk_def os_Remove_def quiet_def touches_def split: if_splits)

lemma quiet_rename [quiet_calls]:
  "on_disk (os_Rename p q) ks = (ks', r) \<Longrightarrow> p \<in> P \<Longrightarrow> q \<in> P \<Longrightarrow> quiet P ks ks'"
  by (auto simp: on_disk_def os_Rename_def quiet_def touches_def split: if_splits option.splits)

lemma quiet_read [quiet_calls]:
  "on_disk (os_ReadFile p) ks = (ks', r) \<Longrightarrow> quiet P ks ks'"
  "on_disk (os_ReadAt p i n) ks = (ks', s) \<Longrightarrow> quiet P ks ks'"
  "on_disk os_Access ks = (ks', t) \<Longrightarrow> quiet P ks ks'"
  "on_disk (os_Stat p) ks = (ks', u) \<Longrightarrow> quiet P ks ks'"
  "on_disk (os_ReadDir p) ks = (ks', v) \<Longrightarrow> quiet P ks ks'"
  by (auto simp: on_disk_def os_ReadFile_def os_ReadAt_def os_Access_def os_Stat_def os_ReadDir_def
      quiet_def touches_def split: if_splits option.splits fault.splits)

section \<open>The chunk operations under every fault\<close>

text \<open>The chunk as \<open>WriteChunkToDisk\<close> registers it.\<close>

definition placed :: "libs \<Rightarrow> key_store \<Rightarrow> file_chunk \<Rightarrow> bytes \<Rightarrow> file_chunk" where
  "placed H ks c b = c\<lparr>fc_DataHash := sha256 H b, fc_Protocol := ''file'', fc_Location := chunkPath ks (fc_Key c)\<rparr>"

lemma WriteChunk_cases:
  assumes "WriteChunkToDisk H c b ks = (ks', r)"
  shows "touches {chunkPath ks (fc_Key c)} ks ks' \<and> ks_references ks' = ks_references ks
    \<and> ((\<exists>e. r = Inl (Err e) \<and> ks_registry ks' = ks_registry ks)
      \<or> (r = Inr (placed H ks c b) \<and> u32 (length b) = fc_Size c
         \<and> ks_registry ks' = AList.update (fc_Key c) (placed H ks c b) (ks_registry ks)))"
proof (cases "u32 (length b) = fc_Size c")
  case False
  then show ?thesis using assms by (auto simp: WriteChunkToDisk_def)
next
  case True
  let ?p = "chunkPath ks (fc_Key c)"
  obtain ks1 w where w: "on_disk (os_WriteFile ?p b) ks = (ks1, w)" by fastforce
  obtain ks2 v where v: "on_disk (os_ReadFile ?p) ks1 = (ks2, v)" by fastforce
  have q: "quiet {?p} ks ks1" "quiet {?p} ks1 ks2"
    using quiet_write [OF w] quiet_read(1) [OF v] by simp_all
  note q = q quiet_trans [OF q]
  show ?thesis
  proof (cases w)
    case False
    then show ?thesis using assms True w q by (auto simp: WriteChunkToDisk_def Let_def quiet_def)
  next
    case w': True
    show ?thesis
    proof (cases v)
      case None
      then show ?thesis using assms True w w' v q by (auto simp: WriteChunkToDisk_def Let_def quiet_def)
    next
      case (Some d)
      then show ?thesis using assms True w w' v q
        by (auto simp: WriteChunkToDisk_def Let_def quiet_def placed_def touches_def split: if_splits)
    qed
  qed
qed

lemma deleteData_cases:
  assumes "deleteDataFromDisk k ks = (ks', r)"
  shows "touches (fc_Location ` set_option (map_of (ks_registry ks) k)) ks ks' \<and> ks_references ks' = ks_references ks
    \<and> ((\<exists>e. r = Inl (Err e) \<and> ks_registry ks' = ks_registry ks)
      \<or> (r = Inr () \<and> ks_registry ks' = AList.delete k (ks_registry ks)))"
proof (cases "map_of (ks_registry ks) k")
  case None
  then show ?thesis using assms by (auto simp: deleteDataFromDisk_def)
next
  case (Some c)
  obtain ks1 w where w: "on_disk (os_Remove (fc_Location c)) ks = (ks1, w)" by fastforce
  have "quiet {fc_Location c} ks ks1" using quiet_remove [OF w] by simp
  then show ?thesis using assms Some w
    by (cases w) (auto simp: deleteDataFromDisk_def quiet_def touches_def)
qed

lemma GetData_cases:
  assumes "GetDataFromDisk H k ks = (ks', r)"
  shows "quiet {} ks ks' \<and>
    ((\<exists>e. r = Inl (Err e))
     \<or> (\<exists>c data. r = Inr data \<and> map_of (ks_registry ks) k = Some c \<and> sha256 H data = fc_DataHash c))"
proof (cases "map_of (ks_registry ks) k")
  case None
  then show ?thesis using assms by (auto simp: GetDataFromDisk_def)
next
  case (Some c)
  obtain ks1 w where w: "on_disk (os_ReadFile (fc_Location c)) ks = (ks1, w)" by fastforce
  have "quiet {} ks ks1" using quiet_read(1) [OF w] by simp
  then show ?thesis using assms Some w
    by (cases w) (auto simp: GetDataFromDisk_def split: if_splits)
qed

section \<open>The registry invariant\<close>

text \<open>A registered chunk lies where \<open>chunkPath\<close> puts its key, or nowhere (\<open>StoreKey\<close>).\<close>

definition registry_ok :: "key_store \<Rightarrow> bool" where
  "registry_ok ks \<longleftrightarrow> (\<forall>k c. map_of (ks_registry ks) k = Some c
      \<longrightarrow> fc_Location c = chunkPath ks k \<or> fc_Location c = '''')"

definition own_paths :: "key_store \<Rightarrow> string set" where
  "own_paths ks = insert '''' (range (chunkPath ks) \<union> range (metadata_path ks))"

lemma registry_okD:
  "registry_ok ks \<Longrightarrow> map_of (ks_registry ks) k = Some c
     \<Longrightarrow> fc_Location c = '''' \<or> fc_Location c = chunkPath ks k"
  by (auto simp: registry_ok_def)

lemma registry_okI:
  "(\<And>k c. map_of (ks_registry ks) k = Some c
      \<Longrightarrow> fc_Location c = '''' \<or> fc_Location c = chunkPath ks k) \<Longrightarrow> registry_ok ks"
  by (auto simp: registry_ok_def)

text \<open>What every operation guarantees: only files of the store change, and the invariant stays.\<close>

definition tidy :: "key_store \<Rightarrow> key_store \<Rightarrow> bool" where
  "tidy ks ks' \<longleftrightarrow> touches (own_paths ks) ks ks' \<and> registry_ok ks'"

lemma own_paths_touched: "touches P ks ks' \<Longrightarrow> own_paths ks' = own_paths ks"
  by (simp add: touches_def own_paths_def storage_cong [of ks' ks])

lemma tidy_refl: "registry_ok ks \<Longrightarrow> tidy ks ks"
  by (simp add: tidy_def)

lemma tidy_trans: "tidy a b \<Longrightarrow> tidy b c \<Longrightarrow> tidy a c"
  by (auto simp: tidy_def own_paths_touched intro: touches_trans)

lemma tidy_ok: "tidy a b \<Longrightarrow> registry_ok b"
  by (simp add: tidy_def)

lemma quiet_tidy: "quiet P ks ks' \<Longrightarrow> P \<subseteq> own_paths ks \<Longrightarrow> registry_ok ks \<Longrightarrow> tidy ks ks'"
  using storage_cong(1) [of ks' ks] touches_mono [of P ks ks' "own_paths ks"]
  by (simp add: tidy_def quiet_def registry_ok_def touches_def)

lemma location_own: "registry_ok ks \<Longrightarrow> map_of (ks_registry ks) k = Some c \<Longrightarrow> fc_Location c \<in> own_paths ks"
  by (auto simp: registry_ok_def own_paths_def)

lemma WriteChunk_tidy:
  assumes "WriteChunkToDisk H c b ks = (ks', r)" and "registry_ok ks"
  shows "tidy ks ks'"
proof -
  note * = WriteChunk_cases [OF assms(1)]
  have t: "touches (own_paths ks) ks ks'" using * by (auto simp: own_paths_def intro: touches_mono)
  then have "ks_storage ks' = ks_storage ks" by (simp add: touches_def)
  note cong = storage_cong [OF this]
  have "registry_ok ks'"
  proof (rule registry_okI)
    fix k d assume "map_of (ks_registry ks') k = Some d"
    then show "fc_Location d = '''' \<or> fc_Location d = chunkPath ks' k"
      using * registry_okD [OF assms(2), of k d] cong
      by (auto simp: update_conv' placed_def split: if_splits)
  qed
  then show ?thesis using t by (simp add: tidy_def)
qed

lemma deleteData_tidy:
  assumes "deleteDataFromDisk k ks = (ks', r)" and "registry_ok ks"
  shows "tidy ks ks'"
proof -
  note * = deleteData_cases [OF assms(1)]
  have "fc_Location ` set_option (map_of (ks_registry ks) k) \<subseteq> own_paths ks"
    using location_own [OF assms(2)] by auto
  then have t: "touches (own_paths ks) ks ks'" using * touches_mono by blast
  then have "ks_storage ks' = ks_storage ks" by (simp add: touches_def)
  note cong = storage_cong [OF this]
  have "registry_ok ks'"
  proof (rule registry_okI)
    fix k' d assume "map_of (ks_registry ks') k' = Some d"
    then show "fc_Location d = '''' \<or> fc_Location d = chunkPath ks' k'"
      using * registry_okD [OF assms(2), of k' d] cong by (auto simp: delete_conv' split: if_splits)
  qed
  then show ?thesis using t by (simp add: tidy_def)
qed

lemma delete_chunks_tidy: "registry_ok ks \<Longrightarrow> tidy ks (delete_chunks keys ks)"
proof (induction keys arbitrary: ks)
  case Nil
  then show ?case by (simp add: delete_chunks_def tidy_refl)
next
  case (Cons k keys)
  have t: "tidy ks (fst (deleteDataFromDisk k ks))"
    using Cons.prems by (intro deleteData_tidy [OF surjective_pairing])
  then have "tidy (fst (deleteDataFromDisk k ks)) (delete_chunks keys (fst (deleteDataFromDisk k ks)))"
    by (intro Cons.IH tidy_ok)
  then show ?case using t tidy_trans by (simp add: delete_chunks_def)
qed

lemma StoreKey_tidy: "registry_ok ks \<Longrightarrow> tidy ks (StoreKey H k v ks)"
  by (auto simp: tidy_def touches_def registry_ok_def StoreKey_def NewFileChunk_def update_conv'
      chunkPath_def)

section \<open>A disk that works: the contract of a chunk store\<close>

text \<open>
  What the file layer relies on: after \<open>put c b\<close> the key of \<open>c\<close> holds \<open>final c b\<close> and every other key
  what it held.
\<close>

locale chunk_store =
  fixes key :: "'c \<Rightarrow> 'k" and put :: "'c \<Rightarrow> 'b \<Rightarrow> 's \<Rightarrow> 's" and get :: "'k \<Rightarrow> 's \<Rightarrow> 'v option"
    and ok :: "'s \<Rightarrow> bool" and fits :: "'c \<Rightarrow> 'b \<Rightarrow> bool" and final :: "'c \<Rightarrow> 'b \<Rightarrow> 'v"
  assumes ok_put: "ok s \<Longrightarrow> fits c b \<Longrightarrow> ok (put c b s)"
    and get_put: "ok s \<Longrightarrow> fits c b \<Longrightarrow> get (key c) (put c b s) = Some (final c b)"
    and get_other: "ok s \<Longrightarrow> fits c b \<Longrightarrow> k \<noteq> key c \<Longrightarrow> get k (put c b s) = get k s"
begin

definition put_all :: "('c \<times> 'b) list \<Rightarrow> 's \<Rightarrow> 's" where
  "put_all cbs s = fold (\<lambda>(c, b). put c b) cbs s"

lemma put_all_simps [simp]:
  "put_all [] s = s" "put_all ((c, b) # cbs) s = put_all cbs (put c b s)"
  "put_all (xs @ ys) s = put_all ys (put_all xs s)"
  by (simp_all add: put_all_def)

lemma put_all_ok: "ok s \<Longrightarrow> (\<forall>(c, b) \<in> set cbs. fits c b) \<Longrightarrow> ok (put_all cbs s)"
  by (induction cbs arbitrary: s) (auto simp: ok_put)

lemma get_put_all_other:
  "ok s \<Longrightarrow> (\<forall>(c, b) \<in> set cbs. fits c b) \<Longrightarrow> k \<notin> key ` fst ` set cbs \<Longrightarrow> get k (put_all cbs s) = get k s"
  by (induction cbs arbitrary: s) (auto simp: ok_put get_other)

text \<open>Writing \<open>cb 0, \<dots>, cb (n - 1)\<close>: the last write to a key wins.\<close>

lemma put_all_upt:
  assumes "ok s" and "\<And>i. fits (fst (cb i)) (snd (cb i))"
  shows "ok (put_all (map cb [0..<n]) s)"
    and "i < n \<Longrightarrow> (\<And>j. i < j \<Longrightarrow> j < n \<Longrightarrow> key (fst (cb j)) \<noteq> key (fst (cb i)))
      \<Longrightarrow> get (key (fst (cb i))) (put_all (map cb [0..<n]) s) = Some (final (fst (cb i)) (snd (cb i)))"
    and "k \<notin> (\<lambda>i. key (fst (cb i))) ` {..<n} \<Longrightarrow> get k (put_all (map cb [0..<n]) s) = get k s"
proof -
  have fit: "\<forall>(c, b)\<in>set (map cb js). fits c b" for js
    using assms(2) by (auto simp: case_prod_beta)
  show "ok (put_all (map cb [0..<n]) s)" by (rule put_all_ok [OF assms(1) fit])
  show "get (key (fst (cb i))) (put_all (map cb [0..<n]) s) = Some (final (fst (cb i)) (snd (cb i)))"
    if "i < n" and last: "\<And>j. i < j \<Longrightarrow> j < n \<Longrightarrow> key (fst (cb j)) \<noteq> key (fst (cb i))"
  proof -
    define s1 where "s1 = put_all (map cb [0..<i]) s"
    have ok1: "ok s1" unfolding s1_def by (rule put_all_ok [OF assms(1) fit])
    have "[0..<i + (n - i)] = [0..<i] @ [i..<i + (n - i)]" by (rule upt_add_eq_append) simp
    then have "[0..<n] = [0..<i] @ [i] @ [Suc i..<n]" using that(1) by (simp add: upt_conv_Cons)
    then have "put_all (map cb [0..<n]) s = put_all (map cb [Suc i..<n]) (put (fst (cb i)) (snd (cb i)) s1)"
      by (cases "cb i") (simp add: s1_def)
    moreover have "key (fst (cb i)) \<notin> key ` fst ` set (map cb [Suc i..<n])"
    proof
      assume "key (fst (cb i)) \<in> key ` fst ` set (map cb [Suc i..<n])"
      then obtain j where "j \<in> set [Suc i..<n]" "key (fst (cb j)) = key (fst (cb i))"
        unfolding set_map by force
      then show False using last [of j] by simp
    qed
    ultimately show ?thesis
      using get_put_all_other [OF ok_put [OF ok1 assms(2)] fit] get_put [OF ok1 assms(2)] by simp
  qed
  show "get k (put_all (map cb [0..<n]) s) = get k s" if "k \<notin> (\<lambda>i. key (fst (cb i))) ` {..<n}"
    using that by (intro get_put_all_other [OF assms(1) fit]) auto
qed

end

text \<open>The chunk registered under a key, with the content of its file.\<close>

definition chunk_at :: "bytes \<Rightarrow> key_store \<Rightarrow> (file_chunk \<times> bytes) option" where
  "chunk_at k ks =
     (case map_of (ks_registry ks) k of None \<Rightarrow> None
      | Some c \<Rightarrow> map_option (Pair c) (file_at (ks_disk ks) (fc_Location c)))"

definition store_ok :: "string \<Rightarrow> key_store \<Rightarrow> bool" where
  "store_ok dir ks \<longleftrightarrow> ks_storage ks = dir \<and> reliable (ks_disk ks) \<and> registry_ok ks"

definition in_dir :: "string \<Rightarrow> key_store" where
  "in_dir dir = \<lparr>ks_references = [], ks_registry = [], ks_storage = dir, ks_metadata = dir,
     ks_disk = \<lparr>dk_files = [], dk_fault = \<lambda>_. Works, dk_time = 0\<rparr>\<rparr>"

lemma reliable_touches: "touches P ks ks' \<Longrightarrow> reliable (ks_disk ks) \<Longrightarrow> reliable (ks_disk ks')"
  by (simp add: touches_def reliable_def)

lemma store_ok_tidy: "store_ok dir ks \<Longrightarrow> tidy ks ks' \<Longrightarrow> store_ok dir ks'"
  using reliable_touches by (auto simp: store_ok_def tidy_def touches_def reliable_def)

named_theorems on_reliable \<open>system calls of the key store on a disk on which nothing fails\<close>

lemma on_disk_reliable [on_reliable]:
  assumes "reliable (ks_disk ks)"
  shows "on_disk (os_WriteFile p b) ks = (ks\<lparr>ks_disk := put_file p b (tick (ks_disk ks))\<rparr>, True)"
    "on_disk (os_ReadFile p) ks = (ks\<lparr>ks_disk := tick (ks_disk ks)\<rparr>, file_at (ks_disk ks) p)"
    "on_disk (os_ReadAt p pos n) ks
       = (ks\<lparr>ks_disk := tick (ks_disk ks)\<rparr>, map_option (\<lambda>b. take n (drop pos b)) (file_at (ks_disk ks) p))"
    "on_disk os_Access ks = (ks\<lparr>ks_disk := tick (ks_disk ks)\<rparr>, True)"
  using assms by (simp_all add: on_disk_def os_reliable)

lemma WriteChunk_reliable:
  assumes "reliable (ks_disk ks)" and "fc_Size c = u32 (length b)"
  shows "WriteChunkToDisk H c b ks =
    (ks\<lparr>ks_disk := tick (put_file (chunkPath ks (fc_Key c)) b (tick (ks_disk ks))),
        ks_registry := AList.update (fc_Key c) (placed H ks c b) (ks_registry ks)\<rparr>,
     Inr (placed H ks c b))"
  using assms by (simp add: WriteChunkToDisk_def Let_def on_reliable placed_def)

lemma placed_cong: "ks_storage ks = ks_storage ks' \<Longrightarrow> placed H ks = placed H ks'"
  by (simp add: placed_def fun_eq_iff storage_cong(1) [of ks ks'])

lemma WriteChunk_ok:
  assumes "store_ok dir ks" and "fc_Size c = u32 (length b)"
  shows "store_ok dir (fst (WriteChunkToDisk H c b ks))"
    and "snd (WriteChunkToDisk H c b ks) = Inr (placed H (in_dir dir) c b)"
    and "chunk_at k (fst (WriteChunkToDisk H c b ks))
       = (if k = fc_Key c then Some (placed H (in_dir dir) c b, b) else chunk_at k ks)"
proof -
  have r: "reliable (ks_disk ks)" "registry_ok ks" "ks_storage ks = ks_storage (in_dir dir)"
    using assms(1) by (simp_all add: store_ok_def in_dir_def)
  note w = WriteChunk_reliable [OF r(1) assms(2), of H]
  show "store_ok dir (fst (WriteChunkToDisk H c b ks))"
    using WriteChunk_tidy [OF w r(2)] w store_ok_tidy [OF assms(1)] by simp
  show "snd (WriteChunkToDisk H c b ks) = Inr (placed H (in_dir dir) c b)"
    using w placed_cong [OF r(3)] by simp
  show "chunk_at k (fst (WriteChunkToDisk H c b ks))
       = (if k = fc_Key c then Some (placed H (in_dir dir) c b, b) else chunk_at k ks)"
  proof (cases "k = fc_Key c")
    case True
    then show ?thesis using storage_cong(1) [OF r(3)] unfolding w placed_cong [OF r(3)]
      by (simp add: chunk_at_def placed_def update_conv')
  next
    case False
    then have "fc_Location d \<noteq> chunkPath ks (fc_Key c)" if "map_of (ks_registry ks) k = Some d" for d
      using registry_okD [OF r(2) that] by auto
    then show ?thesis using False unfolding w
      by (auto simp: chunk_at_def update_conv' split: option.splits)
  qed
qed

text \<open>\<open>WriteFileToDisk\<close> writes the chunks one after the other; \<open>LoadAndStoreFile\<close> reads before each.\<close>

definition ticked :: "key_store \<Rightarrow> key_store" where
  "ticked ks = ks\<lparr>ks_disk := tick (ks_disk ks)\<rparr>"

lemma ticked_simps [simp]:
  "store_ok dir (ticked ks) = store_ok dir ks" "chunk_at k (ticked ks) = chunk_at k ks"
  by (simp_all add: ticked_def store_ok_def registry_ok_def chunk_at_def chunkPath_def split: option.split)

interpretation written: chunk_store fc_Key "\<lambda>c b ks. fst (WriteChunkToDisk H c b ks)" chunk_at
  "store_ok dir" "\<lambda>c b. fc_Size c = u32 (length b)" "\<lambda>c b. (placed H (in_dir dir) c b, b)" for H dir
  by unfold_locales (simp_all add: WriteChunk_ok)

interpretation loaded: chunk_store fc_Key "\<lambda>c b ks. fst (WriteChunkToDisk H c b (ticked ks))" chunk_at
  "store_ok dir" "\<lambda>c b. fc_Size c = u32 (length b)" "\<lambda>c b. (placed H (in_dir dir) c b, b)" for H dir
  by unfold_locales (simp_all add: WriteChunk_ok)

lemma GetData_reliable:
  assumes "store_ok dir ks"
  shows "chunk_at k ks = Some (c, b) \<Longrightarrow> sha256 H b = fc_DataHash c
    \<Longrightarrow> GetDataFromDisk H k ks = (ticked ks, Inr b)"
  using assms by (auto simp: GetDataFromDisk_def store_ok_def on_reliable ticked_def chunk_at_def
      split: option.splits)

end
