(* ===== verification/StoreFile.thy ===== *)
theory StoreFile
  imports ChunkStore
begin

text \<open>
  The file layer of the key store on every disk, whatever fails: which files the operations can
  touch, what stays invariant, and what a successful read means.
\<close>

section \<open>Every disk\<close>

lemma write_metadata_cases:
  assumes "write_metadata H p f ks = (ks', r)"
  shows "quiet {p} ks ks' \<and> ((\<exists>e. r = Inl (Err e)) \<or> r = Inr ())"
proof -
  obtain ks1 w where w: "on_disk (os_WriteFile p []) ks = (ks1, w)" by fastforce
  have q: "quiet {p} ks ks1" using quiet_write [OF w] by simp
  show ?thesis
  proof (cases "w \<and> toml_encode H f \<noteq> None")
    case False
    then show ?thesis using assms w q by (cases w) (auto simp: write_metadata_def)
  next
    case True
    then obtain b where b: "toml_encode H f = Some b" by blast
    obtain ks2 v where v: "on_disk (os_WriteFile p b) ks1 = (ks2, v)" by fastforce
    then have "quiet {p} ks ks2" using quiet_trans [OF q] quiet_write [OF v] by simp
    then show ?thesis using assms w v b True by (cases v) (auto simp: write_metadata_def)
  qed
qed

lemma write_metadata_tidy:
  assumes "write_metadata H (metadata_path ks0 h) f ks = (ks', r)" and "registry_ok ks"
    and "ks_storage ks0 = ks_storage ks"
  shows "tidy ks ks'"
  using quiet_tidy [OF _ _ assms(2)] write_metadata_cases [OF assms(1)]
  by (auto simp: own_paths_def storage_cong(2) [OF assms(3)])

lemma live_chunks_error: "live_chunks reg cs = Inl e \<Longrightarrow> \<exists>k. e = Err (MissingLocalChunk k)"
  by (induction cs arbitrary: e rule: live_chunks.induct)
    (fastforce simp: map_sum_def split: sum.splits option.splits)+

lemma registry_ok_references [simp]:
  "registry_ok (ks\<lparr>ks_references := refs\<rparr>) = registry_ok ks"
  "own_paths (ks\<lparr>ks_references := refs\<rparr>) = own_paths ks"
  "tidy ks (ks\<lparr>ks_references := refs\<rparr>) = registry_ok ks"
  by (auto simp: registry_ok_def own_paths_def chunkPath_def metadata_path_def metadata_dir_def
      tidy_def touches_def)

lemma updateReference_cases:
  assumes "updateReference H f ks = (ks', r)" and "registry_ok ks"
  shows "tidy ks ks' \<and> ks_registry ks' = ks_registry ks \<and>
    ((\<exists>e. r = Inl (Err e))
     \<or> (\<exists>cs. live_chunks (ks_registry ks) (fr_Chunks f) = Inr cs \<and> r = Inr (f\<lparr>fr_Chunks := cs\<rparr>)
         \<and> ks_references ks' = AList.update (fm_FileHash (fr_MetaData f)) (f\<lparr>fr_Chunks := cs\<rparr>) (ks_references ks)))"
proof (cases "live_chunks (ks_registry ks) (fr_Chunks f)")
  case (Inl e)
  then show ?thesis using assms live_chunks_error [OF Inl] by (auto simp: updateReference_def tidy_refl)
next
  case (Inr cs)
  define f' where "f' = f\<lparr>fr_Chunks := cs\<rparr>"
  define h where "h = fm_FileHash (fr_MetaData f)"
  define ks1 where "ks1 = ks\<lparr>ks_references := AList.update h f' (ks_references ks)\<rparr>"
  obtain ks2 w where w: "on_disk os_Access ks1 = (ks2, w)" by fastforce
  obtain ks3 v where v: "write_metadata H (metadata_path ks2 h) f' ks2 = (ks3, v)" by fastforce
  have q: "quiet {} ks1 ks2" using quiet_read(3) [OF w] .
  have t1: "tidy ks ks1" using assms(2) by (simp add: ks1_def)
  have t2: "tidy ks ks2" using tidy_trans [OF t1 quiet_tidy [OF q]] tidy_ok [OF t1] by simp
  have t3: "tidy ks ks3" using tidy_trans [OF t2 write_metadata_tidy [OF v]] tidy_ok [OF t2] by simp
  have m: "quiet {metadata_path ks2 h} ks2 ks3" "(\<exists>e. v = Inl (Err e)) \<or> v = Inr ()"
    using write_metadata_cases [OF v] by auto
  have u: "updateReference H f ks =
      (if \<not> w then (ks2, Inl (Err MkdirFailed)) else (ks3, case v of Inl e \<Rightarrow> Inl e | Inr _ \<Rightarrow> Inr f'))"
    using Inr w v by (cases v) (simp_all add: updateReference_def ks1_def f'_def h_def Let_def)
  show ?thesis using assms(1) t2 t3 m q Inr unfolding u
    by (auto simp: quiet_def ks1_def f'_def h_def split: if_splits)
qed

lemma write_references_tidy:
  "write_references H refs ks = (ks', r) \<Longrightarrow> registry_ok ks
     \<Longrightarrow> tidy ks ks' \<and> ks_registry ks' = ks_registry ks \<and> ks_references ks' = ks_references ks
       \<and> ((\<exists>e. r = Inl (Err e)) \<or> r = Inr ())"
proof (induction refs arbitrary: ks)
  case (Cons x refs)
  obtain h f where x: "x = (h, f)" by fastforce
  obtain ks1 v where v: "write_metadata H (metadata_path ks h) f ks = (ks1, v)" by fastforce
  note c = write_metadata_cases [OF v] and t = write_metadata_tidy [OF v Cons.prems(2) refl]
  show ?case
  proof (cases v)
    case (Inl e)
    then show ?thesis using Cons.prems c t x v by (auto simp: quiet_def)
  next
    case (Inr u)
    then have "write_references H refs ks1 = (ks', r)" using Cons.prems(1) x v by simp
    then show ?thesis using Cons.IH [OF _ tidy_ok [OF t]] tidy_trans [OF t] c by (auto simp: quiet_def)
  qed
qed (simp add: tidy_refl)

lemma WriteAllReferences_tidy:
  assumes "WriteAllReferencesToDisk H ks = (ks', r)" and "registry_ok ks"
  shows "tidy ks ks' \<and> ks_registry ks' = ks_registry ks \<and> ks_references ks' = ks_references ks
       \<and> ((\<exists>e. r = Inl (Err e)) \<or> r = Inr ())"
proof -
  obtain ks1 w where w: "on_disk os_Access ks = (ks1, w)" by fastforce
  have q: "quiet {} ks ks1" using quiet_read(3) [OF w] .
  then have t: "tidy ks ks1" using assms(2) by (intro quiet_tidy) auto
  show ?thesis
  proof (cases w)
    case False
    then show ?thesis using assms(1) w q t by (auto simp: WriteAllReferencesToDisk_def quiet_def)
  next
    case True
    then have "write_references H (ks_references ks1) ks1 = (ks', r)"
      using assms(1) w by (simp add: WriteAllReferencesToDisk_def)
    then show ?thesis using write_references_tidy tidy_ok [OF t] tidy_trans [OF t] q
      by (fastforce simp: quiet_def)
  qed
qed

text \<open>What the read-back of \<open>WriteChunkToDisk\<close> establishes.\<close>

lemma WriteChunk_read_back:
  assumes "WriteChunkToDisk H c b ks = (ks', Inr c')"
    and "dk_fault (ks_disk ks) (Suc (dk_time (ks_disk ks))) = Works"
  shows "\<exists>d. file_at (ks_disk ks') (fc_Location c') = Some d \<and> length d = length b \<and> sha256 H d = sha256 H b"
proof -
  let ?p = "chunkPath ks (fc_Key c)"
  obtain ks1 w where w: "on_disk (os_WriteFile ?p b) ks = (ks1, w)" by fastforce
  have t: "next_fault (ks_disk ks1) = Works" using w assms(2)
    by (auto simp: on_disk_def os_WriteFile_def next_fault_def tick_def put_file_def
        split: prod.splits fault.splits option.splits)
  have r: "on_disk (os_ReadFile ?p) ks1 = (ticked ks1, file_at (ks_disk ks1) ?p)"
    using t by (simp add: on_disk_def os_ReadFile_def ticked_def)
  show ?thesis using assms(1) w r
    by (cases "file_at (ks_disk ks1) ?p"; cases w)
      (auto simp: WriteChunkToDisk_def Let_def ticked_def split: if_splits)
qed

text \<open>The two chunk loops. \<open>settled\<close>: the files and maps are in order and no reference was added.\<close>

definition settled :: "key_store \<Rightarrow> key_store \<Rightarrow> bool" where
  "settled ks ks' \<longleftrightarrow> tidy ks ks' \<and> ks_references ks' = ks_references ks"

lemma settled_refl: "registry_ok ks \<Longrightarrow> settled ks ks"
  by (simp add: settled_def tidy_refl)

lemma settled_trans: "settled a b \<Longrightarrow> settled b c \<Longrightarrow> settled a c"
  by (auto simp: settled_def intro: tidy_trans)

lemma settled_ok: "settled a b \<Longrightarrow> registry_ok b"
  using tidy_ok by (auto simp: settled_def)

lemma quiet_settled: "quiet {} ks ks' \<Longrightarrow> registry_ok ks \<Longrightarrow> settled ks ks'"
  using quiet_tidy [of "{}"] by (auto simp: settled_def quiet_def)

lemma WriteChunk_settled:
  "WriteChunkToDisk H c b ks = (ks', r) \<Longrightarrow> registry_ok ks \<Longrightarrow> settled ks ks'"
  using WriteChunk_tidy WriteChunk_cases by (fastforce simp: settled_def)

lemma delete_chunks_references: "ks_references (delete_chunks keys ks) = ks_references ks"
proof (induction keys arbitrary: ks)
  case (Cons k keys)
  then show ?case using deleteData_cases [of k ks, OF surjective_pairing] by (simp add: delete_chunks_def)
qed (simp add: delete_chunks_def)

lemma delete_chunks_settled: "registry_ok ks \<Longrightarrow> settled ks (delete_chunks keys ks)"
  using delete_chunks_tidy by (simp add: settled_def delete_chunks_references)

definition no_panic :: "('e, 'a) go \<Rightarrow> bool" where
  "no_panic r \<longleftrightarrow> (case r of Inl (Err e) \<Rightarrow> True | Inl _ \<Rightarrow> False | Inr _ \<Rightarrow> True)"

lemma no_panic_simps [simp]: "no_panic (Inl x) \<longleftrightarrow> (\<exists>e. x = Err e)" "no_panic (Inr a)"
  by (simp_all add: no_panic_def split: failure.splits)

lemma write_chunks_settled:
  "write_chunks H m d is tot acc ks = (ks', r) \<Longrightarrow> registry_ok ks
     \<Longrightarrow> settled ks ks' \<and> ((\<forall>i\<in>set is. i * fm_ChunkSize m \<le> fm_TotalSize m) \<longrightarrow> no_panic r)"
proof (induction "is" arbitrary: tot acc ks)
  case (Cons i "is")
  let ?s = "i * fm_ChunkSize m"
  let ?e = "min (?s + fm_ChunkSize m) (fm_TotalSize m)"
  show ?case
  proof (cases "?e < ?s")
    case True
    have "ks' = ks" using Cons.prems(1) unfolding write_chunks.simps Let_def if_P [OF True] by simp
    moreover have "\<not> ?s \<le> fm_TotalSize m" using True by linarith
    ultimately show ?thesis using Cons.prems(2) by (auto simp: settled_refl)
  next
    case False
    define b where "b = take (?e - ?s) (drop ?s d)"
    define c where "c = \<lparr>fc_Key = sha1 H (fm_FileHash m @ [word_of_nat i]), fc_FileName = fm_FileName m,
        fc_Size = u32 (length b), fc_FileIndex = i, fc_Location = '''', fc_Protocol = ''file'',
        fc_DataHash = sha256 H b\<rparr>"
    obtain ks1 w where w: "WriteChunkToDisk H c b ks = (ks1, w)" by fastforce
    have t: "settled ks ks1" by (rule WriteChunk_settled [OF w Cons.prems(2)])
    have eq: "write_chunks H m d (i # is) tot acc ks =
        (case w of Inl _ \<Rightarrow> (delete_chunks (map fc_Key acc) ks1, Inl (Err (StoreChunkFailed i)))
         | Inr c' \<Rightarrow> write_chunks H m d is (tot + u32 (length b)) (acc @ [c']) ks1)"
      using w unfolding write_chunks.simps Let_def if_not_P [OF False] b_def c_def
      by (cases w) simp_all
    show ?thesis
    proof (cases w)
      case (Inl e)
      then show ?thesis
        using Cons.prems(1) eq settled_trans [OF t delete_chunks_settled [OF settled_ok [OF t]]] by auto
    next
      case (Inr c')
      then have "write_chunks H m d is (tot + u32 (length b)) (acc @ [c']) ks1 = (ks', r)"
        using Cons.prems(1) unfolding eq by simp
      then show ?thesis using Cons.IH [OF _ settled_ok [OF t]] settled_trans [OF t] by auto
    qed
  qed
qed (auto simp: settled_refl)

lemma load_chunks_settled:
  "load_chunks H m path is tot acc ks = (ks', r) \<Longrightarrow> registry_ok ks \<Longrightarrow> settled ks ks'"
proof (induction "is" arbitrary: tot acc ks)
  case (Cons i "is")
  let ?n = "if i + 1 = fm_TotalChunks m then u32 (u64 (fm_TotalSize m + 2 ^ 64 - tot)) else fm_ChunkSize m"
  obtain ks1 v where v: "on_disk (os_ReadAt path tot ?n) ks = (ks1, v)" by fastforce
  have t1: "settled ks ks1" using quiet_settled [OF quiet_read(2) [OF v]] Cons.prems(2) .
  show ?case
  proof (cases "fm_ChunkSize m < ?n \<or> v = None \<or> v = Some []")
    case True
    then show ?thesis using Cons.prems v t1 settled_refl by (auto simp: Let_def split: if_splits)
  next
    case False
    then obtain b where b: "v = Some b" "b \<noteq> []" "\<not> fm_ChunkSize m < ?n" by auto
    define c where "c = updateKey H (NewFileChunk H b ''file'') (fm_FileHash m) (fm_FileName m) i"
    obtain ks2 w where w: "WriteChunkToDisk H c b ks1 = (ks2, w)" by fastforce
    have t: "settled ks ks2" by (rule settled_trans [OF t1 WriteChunk_settled [OF w settled_ok [OF t1]]])
    have eq: "load_chunks H m path (i # is) tot acc ks =
        (case w of Inl _ \<Rightarrow> (delete_chunks (map fc_Key acc) ks2, Inl (Err (StoreChunkFailed i)))
         | Inr c' \<Rightarrow> load_chunks H m path is (tot + length b) (acc @ [c']) ks2)"
      using b w v unfolding c_def by (simp add: Let_def split: sum.splits)
    show ?thesis
    proof (cases w)
      case (Inl e)
      then show ?thesis
        using Cons.prems(1) eq settled_trans [OF t delete_chunks_settled [OF settled_ok [OF t]]] by auto
    next
      case (Inr c')
      then have "load_chunks H m path is (tot + length b) (acc @ [c']) ks2 = (ks', r)"
        using Cons.prems(1) unfolding eq by simp
      then show ?thesis using Cons.IH [OF _ settled_ok [OF t]] settled_trans [OF t] by auto
    qed
  qed
qed (simp add: settled_refl)

lemma updateReference_tidy:
  "updateReference H f ks = (ks', r) \<Longrightarrow> registry_ok ks \<Longrightarrow> tidy ks ks' \<and> no_panic r"
  using updateReference_cases by fastforce

lemma delete_after: "tidy ks ks' \<Longrightarrow> tidy ks (delete_chunks keys ks')"
  using tidy_trans [OF _ delete_chunks_tidy [OF tidy_ok]] .

text \<open>The end of both storing functions, after the loop.\<close>

lemma finish_store_tidy:
  assumes "tidy ks ks1" and "updateReference H f ks1 = (ks2, u)"
  shows "tidy ks ks2" and "no_panic u"
  using updateReference_tidy [OF assms(2) tidy_ok [OF assms(1)]] tidy_trans [OF assms(1)] by auto

lemma WriteFileToDisk_tidy:
  assumes "WriteFileToDisk H now name d perm ks = (ks', r)" and "registry_ok ks"
  shows "tidy ks ks'"
proof (cases "prepareMetaData now name d perm :: (ks_error, file_meta) go")
  case (Inl e)
  then show ?thesis using assms by (auto simp: WriteFileToDisk_def tidy_refl)
next
  case (Inr m0)
  define m where "m = m0\<lparr>fm_FileHash := sha256 H d\<rparr>"
  obtain ks1 w where w: "write_chunks H m d [0..<fm_TotalChunks m] 0 [] ks = (ks1, w)" by fastforce
  have t: "tidy ks ks1" using write_chunks_settled [OF w assms(2)] by (simp add: settled_def)
  show ?thesis
  proof (cases w)
    case (Inl e)
    then show ?thesis using assms(1) Inr w t by (simp add: WriteFileToDisk_def m_def)
  next
    case (Inr x)
    obtain n cs where x: "x = (n, cs)" by fastforce
    obtain ks2 u where u: "updateReference H \<lparr>fr_MetaData = m, fr_Chunks = map Some cs\<rparr> ks1 = (ks2, u)"
      by fastforce
    show ?thesis
      using assms(1) \<open>prepareMetaData now name d perm = Inr m0\<close> w Inr x u t
        delete_after finish_store_tidy(1) [OF t u]
      by (auto simp: WriteFileToDisk_def m_def [symmetric] Let_def split: if_splits sum.splits)
  qed
qed

lemma LoadAndStoreFile_tidy:
  assumes "LoadAndStoreFile H now perm path ks = (ks', r)" and "registry_ok ks"
  shows "tidy ks ks'"
proof -
  obtain ks1 a where a: "on_disk (os_Stat path) ks = (ks1, a)" by fastforce
  obtain ks2 b where b: "on_disk os_Access ks1 = (ks2, b)" by fastforce
  obtain ks3 c where c: "on_disk (os_ReadFile path) ks2 = (ks3, c)" by fastforce
  obtain ks4 d where d: "on_disk os_Access ks3 = (ks4, d)" by fastforce
  have t1: "settled ks ks1" using quiet_settled [OF quiet_read(4) [OF a] assms(2)] .
  have t2: "settled ks ks2"
    using settled_trans [OF t1 quiet_settled [OF quiet_read(3) [OF b] settled_ok [OF t1]]] .
  have t3: "settled ks ks3"
    using settled_trans [OF t2 quiet_settled [OF quiet_read(1) [OF c] settled_ok [OF t2]]] .
  have t4: "settled ks ks4"
    using settled_trans [OF t3 quiet_settled [OF quiet_read(3) [OF d] settled_ok [OF t3]]] .
  define size where "size = (case file_at (ks_disk ks2) path of None \<Rightarrow> 0 | Some b \<Rightarrow> length b)"
  show ?thesis
  proof (cases "a = Present \<and> b \<and> c \<noteq> None \<and> d")
    case False
    then show ?thesis using assms(1) a b c d t1 t2 t3 t4
      by (cases a; cases b; cases c; cases d) (auto simp: LoadAndStoreFile_def settled_def Let_def)
  next
    case True
    then obtain content where content: "c = Some content" by auto
    show ?thesis
    proof (cases "total_chunks size (CalculateChunkSize size) :: (ks_error, nat) go")
      case (Inl e)
      then show ?thesis using assms(1) a b c d True content t4
        by (auto simp: LoadAndStoreFile_def settled_def Let_def size_def)
    next
      case (Inr n)
      define m where "m = blank_meta\<lparr>fm_FileName := path_base path, fm_TotalSize := size, fm_Modified := now,
          fm_Permissions := perm, fm_ChunkSize := CalculateChunkSize size,
          fm_FileHash := sha256 H content, fm_TotalChunks := n\<rparr>"
      obtain ks5 w where w: "load_chunks H m path [0..<n] 0 [] ks4 = (ks5, w)" by fastforce
      have eq: "LoadAndStoreFile H now perm path ks =
        (case w of Inl e \<Rightarrow> (ks5, Inl e)
         | Inr (n, cs) \<Rightarrow>
             if n \<noteq> size then (delete_chunks (map fc_Key cs) ks5, Inl (Err ProcessedBytesMismatch))
             else (case updateReference H \<lparr>fr_MetaData = m, fr_Chunks = map Some cs\<rparr> ks5 of
                (ks, Inl _) \<Rightarrow> (delete_chunks (map fc_Key cs) ks, Inl (Err StoreMetadataFailed))
              | (ks, Inr file) \<Rightarrow> (ks, Inr file)))"
        using a b c d True content Inr w unfolding LoadAndStoreFile_def Let_def
        by (simp add: m_def [symmetric] size_def [symmetric] split: sum.split)
      have t5: "tidy ks ks5"
        using settled_trans [OF t4 load_chunks_settled [OF w settled_ok [OF t4]]] by (simp add: settled_def)
      show ?thesis
      proof (cases w)
        case (Inl e)
        then show ?thesis using assms(1) t5 unfolding eq by simp
      next
        case (Inr x)
        obtain k cs where x: "x = (k, cs)" by fastforce
        obtain ks6 u where u: "updateReference H \<lparr>fr_MetaData = m, fr_Chunks = map Some cs\<rparr> ks5 = (ks6, u)"
          by fastforce
        show ?thesis using assms(1) Inr x u t5 delete_after finish_store_tidy(1) [OF t5 u] unfolding eq
          by (auto split: if_splits sum.splits)
      qed
    qed
  qed
qed

section \<open>Reading back, on every disk\<close>

lemma length_overlay [simp]: "start \<le> length buf \<Longrightarrow> length (overlay buf start b) = length buf"
  by (auto simp: overlay_def)

lemma reassemble_chunks_cases:
  "reassemble_chunks H m i cs buf n ks = (ks', r) \<Longrightarrow>
     quiet {} ks ks'
     \<and> (\<forall>buf' n'. r = Inr (buf', n') \<longrightarrow> length buf' = length buf)
     \<and> ((\<forall>j<length cs. (i + j) * fm_ChunkSize m \<le> length buf) \<longrightarrow> no_panic r)"
proof (induction H m i cs buf n ks rule: reassemble_chunks.induct)
  case (3 H m i ref cs buf n ks)
  obtain ks1 g where g: "GetDataFromDisk H (fc_Key ref) ks = (ks1, g)" by fastforce
  have q: "quiet {} ks ks1" using GetData_cases [OF g] by blast
  show ?case
  proof (cases g)
    case (Inl e)
    then show ?thesis using 3(2) g q by auto
  next
    case (Inr b)
    show ?thesis
    proof (cases "u32 (length b) \<noteq> fc_Size ref \<or> sha256 H b \<noteq> fc_DataHash ref \<or> length buf < i * fm_ChunkSize m")
      case True
      then show ?thesis using 3(2) g q Inr by (auto split: if_splits)
    next
      case False
      then have rec: "reassemble_chunks H m (Suc i) cs (overlay buf (i * fm_ChunkSize m) b) (n + length b) ks1 = (ks', r)"
        using 3(2) g Inr by simp
      have shift: "\<forall>j<length cs. (Suc i + j) * fm_ChunkSize m \<le> length buf"
        if "\<forall>j<length (Some ref # cs). (i + j) * fm_ChunkSize m \<le> length buf"
        using that by (auto simp: less_Suc_eq_0_disj dest: spec [of _ "Suc _"])
      have c: "\<not> u32 (length b) \<noteq> fc_Size ref" "\<not> sha256 H b \<noteq> fc_DataHash ref"
        "\<not> length buf < i * fm_ChunkSize m" using False by blast+
      then have "length (overlay buf (i * fm_ChunkSize m) b) = length buf" by simp
      note IH = 3(1) [OF g [symmetric] Inr c rec, unfolded this]
      have "quiet {} ks ks'" using IH quiet_trans [OF q] by blast
      then show ?thesis using IH shift by blast
    qed
  qed
qed auto

lemma Reassemble_cases:
  assumes "ReassembleFileFromDisk H key ks = (ks', r)"
  shows "quiet {} ks ks' \<and> (\<forall>b. r = Inr b \<longrightarrow>
      (\<exists>f. map_of (ks_references ks) key = Some f \<and> sha256 H b = fm_FileHash (fr_MetaData f)
         \<and> length b = fm_TotalSize (fr_MetaData f)))
    \<and> ((\<forall>f j. map_of (ks_references ks) key = Some f \<longrightarrow> j < length (fr_Chunks f)
          \<longrightarrow> j * fm_ChunkSize (fr_MetaData f) \<le> fm_TotalSize (fr_MetaData f)) \<longrightarrow> no_panic r)"
proof (cases "map_of (ks_references ks) key")
  case None
  then show ?thesis using assms by (auto simp: ReassembleFileFromDisk_def ReferenceFromMemory_def)
next
  case (Some f)
  let ?m = "fr_MetaData f"
  obtain ks1 g where g: "reassemble_chunks H ?m 0 (fr_Chunks f) (replicate (fm_TotalSize ?m) 0) 0 ks = (ks1, g)"
    by fastforce
  note c = reassemble_chunks_cases [OF g]
  show ?thesis
  proof (cases g)
    case (Inl e)
    then show ?thesis using assms Some g c
      by (auto simp: ReassembleFileFromDisk_def ReferenceFromMemory_def Let_def)
  next
    case (Inr x)
    obtain buf n where x: "x = (buf, n)" by fastforce
    have "length buf = fm_TotalSize ?m" using c Inr x by simp
    then show ?thesis using assms Some g c Inr x
      by (auto simp: ReassembleFileFromDisk_def ReferenceFromMemory_def Let_def split: if_splits)
  qed
qed

lemma HashFile_quiet:
  assumes "HashFile H path ks = (ks', r)"
  shows "quiet {} ks ks'"
proof -
  obtain ks1 a where a: "on_disk (os_Stat path) ks = (ks1, a)" by fastforce
  obtain ks2 b where b: "on_disk os_Access ks1 = (ks2, b)" by fastforce
  obtain ks3 c where c: "on_disk (os_ReadFile path) ks2 = (ks3, c)" by fastforce
  have q1: "quiet {} ks ks1" using quiet_read(4) [OF a] .
  have q2: "quiet {} ks ks2" using quiet_trans [OF q1 quiet_read(3) [OF b]] .
  have q3: "quiet {} ks ks3" using quiet_trans [OF q2 quiet_read(1) [OF c]] .
  show ?thesis using assms a b c q1 q2 q3
    by (cases a; cases b; cases c) (simp_all add: HashFile_def Let_def)
qed

lemma copy_chunks_quiet:
  "copy_chunks H out i cs n ks = (ks', r) \<Longrightarrow> quiet {out} ks ks' \<and> no_panic r"
proof (induction H out i cs n ks rule: copy_chunks.induct)
  case (3 H out i ref cs n ks)
  obtain ks1 g where g: "GetDataFromDisk H (fc_Key ref) ks = (ks1, g)" by fastforce
  have q: "quiet {out} ks ks1" using GetData_cases [OF g] quiet_mono [of "{}"] by blast
  show ?case
  proof (cases g)
    case (Inl e)
    then show ?thesis using 3(2) g q by auto
  next
    case (Inr b)
    obtain ks2 w where w: "on_disk (os_Append out b) ks1 = (ks2, w)" by fastforce
    have q2: "quiet {out} ks ks2" using quiet_trans [OF q quiet_append [OF w]] by simp
    show ?thesis
    proof (cases "u32 (length b) \<noteq> fc_Size ref \<or> sha256 H b \<noteq> fc_DataHash ref \<or> \<not> w")
      case True
      then show ?thesis using 3(2) g q q2 w Inr by (auto split: if_splits)
    next
      case False
      then have "copy_chunks H out (Suc i) cs (n + length b) ks2 = (ks', r)"
        using 3(2) g Inr w by simp
      then show ?thesis using 3(1) [OF g [symmetric] Inr _ _ w [symmetric]] False quiet_trans [OF q2] by auto
    qed
  qed
qed auto

lemma HashFile_no_panic: "HashFile H path ks = (ks', r) \<Longrightarrow> no_panic r"
  by (auto simp: HashFile_def Let_def split: prod.splits stat.splits bool.splits option.splits)

lemma CopyFileToPath_quiet:
  assumes "CopyFileToPath H key out ks = (ks', r)"
  shows "quiet {out} ks ks' \<and> no_panic r"
proof (cases "map_of (ks_references ks) key")
  case None
  then show ?thesis using assms by (auto simp: CopyFileToPath_def ReferenceFromMemory_def)
next
  case (Some f)
  obtain ks1 w where w: "on_disk (os_WriteFile out []) ks = (ks1, w)" by fastforce
  obtain ks2 c where c: "copy_chunks H out 0 (fr_Chunks f) 0 ks1 = (ks2, c)" by fastforce
  obtain ks3 s where s: "on_disk os_Access ks2 = (ks3, s)" by fastforce
  obtain ks4 h where h: "HashFile H out ks3 = (ks4, h)" by fastforce
  have q1: "quiet {out} ks ks1" using quiet_write [OF w] by simp
  have q2: "quiet {out} ks ks2" using quiet_trans [OF q1] copy_chunks_quiet [OF c] by blast
  have q3: "quiet {out} ks ks3" using quiet_trans [OF q2 quiet_read(3) [OF s]] .
  have q4: "quiet {out} ks ks4"
    using quiet_trans [OF q3 quiet_mono [OF HashFile_quiet [OF h]]] by simp
  show ?thesis
    using assms Some w c s h q1 q2 q3 q4 copy_chunks_quiet [OF c] HashFile_no_panic [OF h]
    by (auto simp: CopyFileToPath_def ReferenceFromMemory_def split: bool.splits sum.splits if_splits prod.splits)
qed

section \<open>Properties\<close>

text \<open>A store with nothing in it but files of the user's, and a trivial library, for concrete instances.\<close>

definition demo_libs :: libs where
  "demo_libs = \<lparr>sha1 = id, sha256 = id, sha512 = id, toml_encode = \<lambda>_. Some [], toml_decode = \<lambda>_. None\<rparr>"

definition demo_store :: "(string \<times> bytes) list \<Rightarrow> key_store" where
  "demo_store files = (in_dir ''s'')\<lparr>ks_disk := \<lparr>dk_files = files, dk_fault = \<lambda>_. Works, dk_time = 0\<rparr>\<rparr>"

lemma demo_store_ok [simp]:
  "store_ok ''s'' (demo_store files)" "registry_ok (demo_store files)" "reliable (ks_disk (demo_store files))"
  "ks_references (demo_store files) = []" "ks_registry (demo_store files) = []"
  "file_at (ks_disk (demo_store files)) p = map_of files p"
  by (simp_all add: store_ok_def demo_store_def in_dir_def reliable_def registry_ok_def file_at_def)

lemma demo_user_path: "''u'' \<notin> own_paths ks"
proof
  assume "''u'' \<in> own_paths ks"
  then consider k where "''u'' = chunkPath ks k" | k where "''u'' = metadata_path ks k"
    by (auto simp: own_paths_def)
  then show False
  proof cases
    case 1
    show ?thesis using chunkPath_last [of ks k] unfolding 1 [symmetric] by simp
  next
    case 2
    show ?thesis using metadata_path_last [of ks k] unfolding 2 [symmetric] by simp
  qed
qed

text \<open>
  Writing a chunk, whatever the disk does: only the chunk's own file can change, an error leaves the
  registry as it was, and success registers the chunk at its own path under its own key with the hash
  of the data. Where the read-back was honest, a success also means that the file on disk has
  the length and the hash of the data, so that a write the disk garbled is noticed.
\<close>

lemma WriteChunk_verified:
  assumes "WriteChunkToDisk H c b ks = (ks', r)"
  shows "touches {chunkPath ks (fc_Key c)} ks ks' \<and> ks_references ks' = ks_references ks
    \<and> (case r of
         Inl e \<Rightarrow> (\<exists>x. e = Err x) \<and> ks_registry ks' = ks_registry ks
       | Inr c' \<Rightarrow> c' = placed H ks c b
           \<and> ks_registry ks' = AList.update (fc_Key c) c' (ks_registry ks)
           \<and> (dk_fault (ks_disk ks) (Suc (dk_time (ks_disk ks))) = Works \<longrightarrow>
               (\<exists>d. file_at (ks_disk ks') (fc_Location c') = Some d
                  \<and> length d = length b \<and> sha256 H d = sha256 H b)))"
proof (cases r)
  case (Inl e)
  then show ?thesis using WriteChunk_cases [OF assms] by auto
next
  case (Inr c')
  then show ?thesis using WriteChunk_cases [OF assms] WriteChunk_read_back [OF assms [unfolded Inr]] by auto
qed

text \<open>
  C25. The footprint of the key store, whatever the disk does: no operation changes a file other than
  the chunk files and metadata files of its own directory (and the output file, for the copy), and all keep the
  invariant of the registry that makes this so, also on every error path and cleanup.
\<close>

theorem store_footprint:
  assumes "registry_ok ks"
  shows "tidy ks (fst (WriteChunkToDisk H c b ks)) \<and> tidy ks (fst (deleteDataFromDisk k ks))
    \<and> tidy ks (StoreKey H k b ks) \<and> tidy ks (fst (GetDataFromDisk H k ks))
    \<and> tidy ks (fst (updateReference H f ks)) \<and> tidy ks (fst (WriteAllReferencesToDisk H ks))
    \<and> tidy ks (fst (WriteFileToDisk H now name b perms ks)) \<and> tidy ks (fst (LoadAndStoreFile H now perm path ks))
    \<and> tidy ks (fst (ReassembleFileFromDisk H h ks))
    \<and> touches {out} ks (fst (CopyFileToPath H h out ks)) \<and> registry_ok (fst (CopyFileToPath H h out ks))"
proof (intro conjI)
  note pair = surjective_pairing
  have quiet: "tidy ks ks'" if "quiet {} ks ks'" for ks'
    using that assms by (intro quiet_tidy) auto
  show "tidy ks (fst (WriteChunkToDisk H c b ks))" by (rule WriteChunk_tidy [OF pair assms])
  show "tidy ks (fst (deleteDataFromDisk k ks))" by (rule deleteData_tidy [OF pair assms])
  show "tidy ks (StoreKey H k b ks)" by (rule StoreKey_tidy [OF assms])
  show "tidy ks (fst (GetDataFromDisk H k ks))"
    using GetData_cases [of H k ks, OF pair] by (intro quiet) blast
  show "tidy ks (fst (updateReference H f ks))" using updateReference_tidy [OF pair assms] by blast
  show "tidy ks (fst (WriteAllReferencesToDisk H ks))" using WriteAllReferences_tidy [OF pair assms] by blast
  show "tidy ks (fst (WriteFileToDisk H now name b perms ks))" by (rule WriteFileToDisk_tidy [OF pair assms])
  show "tidy ks (fst (LoadAndStoreFile H now perm path ks))" by (rule LoadAndStoreFile_tidy [OF pair assms])
  show "tidy ks (fst (ReassembleFileFromDisk H h ks))"
    using Reassemble_cases [of H h ks, OF pair] by (intro quiet) blast
  have "quiet {out} ks (fst (CopyFileToPath H h out ks))"
    using CopyFileToPath_quiet [of H h out ks, OF pair] by blast
  then show "touches {out} ks (fst (CopyFileToPath H h out ks))" "registry_ok (fst (CopyFileToPath H h out ks))"
    using assms storage_cong(1) [of "fst (CopyFileToPath H h out ks)" ks]
    by (simp_all add: quiet_def touches_def registry_ok_def)
qed

theorem store_footprint_witness:
  "file_at (ks_disk (fst (WriteFileToDisk demo_libs 0 ''f'' [1, 2] 0 (demo_store [(''u'', [9])])))) ''u'' = Some [9]"
proof -
  let ?ks = "demo_store [(''u'', [9])]"
  show ?thesis
    using demo_user_path [of ?ks] store_footprint [of ?ks] demo_store_ok(2) by (simp add: tidy_def touches_def)
qed

end
