(* ===== verification/StoreRefine.thy ===== *)
theory StoreRefine
  imports StoreFile
begin

text \<open>
  Storing and reassembling files on a disk that works: both storing functions leave every chunk where
  the reference says, reassembling gives the content back, and the store as a whole refines a map
  from file hashes to contents.
\<close>

section \<open>A disk that works\<close>

text \<open>The \<open>i\<close>-th piece of a content cut into pieces of \<open>c\<close> bytes.\<close>

definition piece :: "nat \<Rightarrow> bytes \<Rightarrow> nat \<Rightarrow> bytes" where
  "piece c content i = take c (drop (i * c) content)"

lemma piece_simps:
  "length (piece c content i) = min c (length content - i * c)"
  "i * c < length content \<Longrightarrow> 0 < c \<Longrightarrow> piece c content i \<noteq> []"
  by (auto simp: piece_def)

text \<open>The cut a file gets: \<open>n\<close> pieces of \<open>c\<close> bytes, the last one not empty and possibly short.\<close>

definition cut :: "nat \<Rightarrow> nat \<Rightarrow> nat \<Rightarrow> bool" where
  "cut c n s \<longleftrightarrow> 0 < c \<and> c < 2 ^ 32 \<and> 0 < n \<and> (n - 1) * c < s \<and> s \<le> n * c \<and> s < 2 ^ 64"

lemma cut_bounds:
  assumes "cut c n s" and "i < n"
  shows "i * c < s" and "i + 1 \<noteq> n \<Longrightarrow> Suc i * c \<le> s" and "i + 1 = n \<Longrightarrow> s - i * c \<le> c"
proof -
  have "i * c \<le> (n - 1) * c" using assms(2) by (intro mult_le_mono1) linarith
  also have "(n - 1) * c < s" using assms(1) by (simp add: cut_def)
  finally show "i * c < s" .
  show "Suc i * c \<le> s" if "i + 1 \<noteq> n"
  proof -
    have "Suc i * c \<le> (n - 1) * c" using assms(2) that by (intro mult_le_mono1) linarith
    also have "(n - 1) * c < s" using assms(1) by (simp add: cut_def)
    finally show ?thesis by simp
  qed
  show "s - i * c \<le> c" if "i + 1 = n"
    using assms(1) that [symmetric] by (auto simp: cut_def)
qed

lemma file_at_WriteChunk:
  assumes "p \<noteq> chunkPath ks (fc_Key c)"
  shows "file_at (ks_disk (fst (WriteChunkToDisk H c b ks))) p = file_at (ks_disk ks) p"
  using WriteChunk_cases [of H c b ks, OF surjective_pairing] assms by (simp add: touches_def)

definition loaded_chunk :: "libs \<Rightarrow> file_meta \<Rightarrow> bytes \<Rightarrow> nat \<Rightarrow> file_chunk \<times> bytes" where
  "loaded_chunk H m content i =
     (let b = piece (fm_ChunkSize m) content i
      in (updateKey H (NewFileChunk H b ''file'') (fm_FileHash m) (fm_FileName m) i, b))"

lemma loaded_chunk_fits [simp]:
  "fc_Size (fst (loaded_chunk H m content i)) = u32 (length (snd (loaded_chunk H m content i)))"
  by (simp add: loaded_chunk_def Let_def updateKey_def NewFileChunk_def)

text \<open>\<open>placed\<close>, on a pair.\<close>

definition at_home :: "libs \<Rightarrow> string \<Rightarrow> file_chunk \<times> bytes \<Rightarrow> file_chunk" where
  "at_home H dir cb = placed H (in_dir dir) (fst cb) (snd cb)"

lemma load_chunks_reliable:
  assumes "store_ok dir ks" and "file_at (ks_disk ks) path = Some content"
    and "path \<notin> range (chunkPath (in_dir dir))"
    and "cut (fm_ChunkSize m) (fm_TotalChunks m) (length content)" and "fm_TotalSize m = length content"
    and "i \<le> fm_TotalChunks m"
  shows "load_chunks H m path [i..<fm_TotalChunks m] (min (i * fm_ChunkSize m) (length content)) acc ks
     = (loaded.put_all H (map (loaded_chunk H m content) [i..<fm_TotalChunks m]) ks,
        Inr (length content, acc @ map (at_home H dir \<circ> loaded_chunk H m content) [i..<fm_TotalChunks m]))"
  using assms(6,1,2)
proof (induction arbitrary: acc ks rule: inc_induct)
  case base
  then show ?case using assms(4) by (simp add: cut_def min.absorb2)
next
  case (step i)
  define c where "c = fm_ChunkSize m"
  define n where "n = fm_TotalChunks m"
  define b where "b = piece c content i"
  define ch where "ch = updateKey H (NewFileChunk H b ''file'') (fm_FileHash m) (fm_FileName m) i"
  define k where "k = (if i + 1 = n then u32 (u64 (length content + 2 ^ 64 - i * c)) else c)"
  have cut: "cut c n (length content)" using assms(4) by (simp add: c_def n_def)
  note bounds = cut_bounds [OF cut step(2) [folded n_def]]
  have upt: "[i..<n] = i # [Suc i..<n]" using step(2) by (simp add: n_def upt_rec)
  have start: "min (i * c) (length content) = i * c" using bounds(1) by simp
  have "length content + 2 ^ 64 - i * c = (length content - i * c) + 2 ^ 64" using bounds(1) by simp
  then have "u64 (length content + 2 ^ 64 - i * c) = u64 (length content - i * c)"
    unfolding u64_def by (simp only: mod_add_self2)
  then have k: "k = (if i + 1 = n then length content - i * c else c)"
    using cut bounds(3) by (auto simp: k_def cut_def)
  have kc: "\<not> c < k" and read: "take k (drop (i * c) content) = b"
    using k bounds(3) by (auto simp: b_def piece_def)
  have "b \<noteq> []" unfolding b_def using bounds(1) cut by (intro piece_simps(2)) (auto simp: cut_def)
  have next_pos: "i * c + length b = min (Suc i * c) (length content)"
    using bounds(1) by (auto simp: b_def piece_simps)
  have rel: "reliable (ks_disk ks)" using step(4) by (simp add: store_ok_def)
  have rd: "on_disk (os_ReadAt path (i * c) k) ks = (ticked ks, Some b)"
    using rel step(5) read by (simp add: on_reliable ticked_def)
  have fits: "fc_Size ch = u32 (length b)" by (simp add: ch_def updateKey_def NewFileChunk_def)
  have pair: "loaded_chunk H m content i = (ch, b)"
    by (simp add: loaded_chunk_def Let_def ch_def b_def c_def)
  have ok: "store_ok dir (ticked ks)" using step(4) by simp
  define ks1 where "ks1 = fst (WriteChunkToDisk H ch b (ticked ks))"
  note w = WriteChunk_ok [OF ok fits, where H = H, folded ks1_def]
  have W: "WriteChunkToDisk H ch b (ticked ks) = (ks1, Inr (placed H (in_dir dir) ch b))"
    using w(2) by (simp add: ks1_def prod_eq_iff)
  have "chunkPath (ticked ks) = chunkPath (in_dir dir)"
    using step(4) by (intro storage_cong(1)) (simp add: ticked_def store_ok_def in_dir_def)
  then have "path \<noteq> chunkPath (ticked ks) (fc_Key ch)" using assms(3) by auto
  then have src: "file_at (ks_disk ks1) path = Some content"
    using step(5) file_at_WriteChunk by (simp add: ks1_def ticked_def)
  have "load_chunks H m path (i # [Suc i..<n]) (i * c) acc ks
      = load_chunks H m path [Suc i..<n] (i * c + length b) (acc @ [placed H (in_dir dir) ch b]) ks1"
    unfolding load_chunks.simps Let_def assms(5) c_def [symmetric] n_def [symmetric] k_def [symmetric]
      if_not_P [OF kc] rd using W \<open>b \<noteq> []\<close> by (simp add: ch_def)
  also have "\<dots> = (loaded.put_all H (map (loaded_chunk H m content) [Suc i..<n]) ks1,
        Inr (length content, (acc @ [placed H (in_dir dir) ch b])
          @ map (at_home H dir \<circ> loaded_chunk H m content) [Suc i..<n]))"
    unfolding next_pos using step(3) [OF w(1) src] by (simp add: c_def n_def)
  finally show ?case unfolding upt [unfolded n_def] start [unfolded c_def]
    by (simp add: pair at_home_def ks1_def n_def c_def)
qed

definition written_chunk :: "libs \<Rightarrow> file_meta \<Rightarrow> bytes \<Rightarrow> nat \<Rightarrow> file_chunk \<times> bytes" where
  "written_chunk H m content i =
     (let b = piece (fm_ChunkSize m) content i
      in (\<lparr>fc_Key = sha1 H (fm_FileHash m @ [word_of_nat i]), fc_FileName = fm_FileName m,
           fc_Size = u32 (length b), fc_FileIndex = i, fc_Location = '''', fc_Protocol = ''file'',
           fc_DataHash = sha256 H b\<rparr>, b))"

lemma written_chunk_fits [simp]:
  "fc_Size (fst (written_chunk H m content i)) = u32 (length (snd (written_chunk H m content i)))"
  by (simp add: written_chunk_def Let_def)

lemma write_chunks_reliable:
  assumes "store_ok dir ks" and "cut (fm_ChunkSize m) (fm_TotalChunks m) (length content)"
    and "fm_TotalSize m = length content" and "i \<le> fm_TotalChunks m"
  shows "write_chunks H m content [i..<fm_TotalChunks m] (min (i * fm_ChunkSize m) (length content)) acc ks
     = (written.put_all H (map (written_chunk H m content) [i..<fm_TotalChunks m]) ks,
        Inr (length content, acc @ map (at_home H dir \<circ> written_chunk H m content) [i..<fm_TotalChunks m]))"
  using assms(4,1)
proof (induction arbitrary: acc ks rule: inc_induct)
  case base
  then show ?case using assms(2) by (simp add: cut_def min.absorb2)
next
  case (step i)
  define c where "c = fm_ChunkSize m"
  define n where "n = fm_TotalChunks m"
  define b where "b = piece c content i"
  define ch where "ch = fst (written_chunk H m content i)"
  have cut: "cut c n (length content)" using assms(2) by (simp add: c_def n_def)
  note bounds = cut_bounds [OF cut step(2) [folded n_def]]
  have upt: "[i..<n] = i # [Suc i..<n]" using step(2) by (simp add: n_def upt_rec)
  have start: "min (i * c) (length content) = i * c" using bounds(1) by simp
  have guard: "\<not> min (i * c + c) (length content) < i * c" using bounds(1) by simp
  have slice: "take (min (i * c + c) (length content) - i * c) (drop (i * c) content) = b"
    using bounds(1) by (auto simp: b_def piece_def min_def)
  have "length b < 2 ^ 32" using cut by (simp add: b_def piece_simps cut_def min.strict_coboundedI1)
  then have next_pos: "i * c + u32 (length b) = min (Suc i * c) (length content)"
    using bounds(1) by (auto simp: b_def piece_simps)
  have fits: "fc_Size ch = u32 (length b)" by (simp add: ch_def written_chunk_def Let_def b_def c_def)
  have pair: "written_chunk H m content i = (ch, b)"
    by (simp add: written_chunk_def Let_def ch_def b_def c_def)
  define ks1 where "ks1 = fst (WriteChunkToDisk H ch b ks)"
  note w = WriteChunk_ok [OF step(4) fits, where H = H, folded ks1_def]
  have W: "WriteChunkToDisk H ch b ks = (ks1, Inr (placed H (in_dir dir) ch b))"
    using w(2) by (simp add: ks1_def prod_eq_iff)
  have ch: "\<lparr>fc_Key = sha1 H (fm_FileHash m @ [word_of_nat i]), fc_FileName = fm_FileName m,
      fc_Size = u32 (length b), fc_FileIndex = i, fc_Location = '''', fc_Protocol = ''file'',
      fc_DataHash = sha256 H b\<rparr> = ch"
    by (simp add: ch_def written_chunk_def Let_def b_def c_def)
  have "write_chunks H m content (i # [Suc i..<n]) (i * c) acc ks
      = write_chunks H m content [Suc i..<n] (i * c + u32 (length b)) (acc @ [placed H (in_dir dir) ch b]) ks1"
    unfolding write_chunks.simps Let_def assms(3) c_def [symmetric] if_not_P [OF guard] slice ch W by simp
  also have "\<dots> = (written.put_all H (map (written_chunk H m content) [Suc i..<n]) ks1,
        Inr (length content, (acc @ [placed H (in_dir dir) ch b])
          @ map (at_home H dir \<circ> written_chunk H m content) [Suc i..<n]))"
    unfolding next_pos using step(3) [OF w(1)] by (simp add: c_def n_def)
  finally show ?case unfolding upt [unfolded n_def] start [unfolded c_def]
    by (simp add: pair at_home_def ks1_def n_def c_def)
qed

text \<open>Both loops leave every chunk in place when the keys are distinct.\<close>

definition file_chunks :: "libs \<Rightarrow> string \<Rightarrow> (nat \<Rightarrow> file_chunk \<times> bytes) \<Rightarrow> nat \<Rightarrow> file_chunk option list" where
  "file_chunks H dir cb n = map (\<lambda>i. Some (at_home H dir (cb i))) [0..<n]"

text \<open>All chunks of a cut are where the registry and the disk should have them.\<close>

definition holds :: "libs \<Rightarrow> string \<Rightarrow> (nat \<Rightarrow> file_chunk \<times> bytes) \<Rightarrow> nat \<Rightarrow> key_store \<Rightarrow> bool" where
  "holds H dir cb n ks \<longleftrightarrow> (\<forall>i<n. chunk_at (fc_Key (fst (cb i))) ks = Some (at_home H dir (cb i), snd (cb i)))"

lemma loaded_holds:
  assumes "store_ok dir ks" and "\<And>i. fc_Size (fst (cb i)) = u32 (length (snd (cb i)))"
  shows "store_ok dir (loaded.put_all H (map cb [0..<n]) ks)"
    and "(\<And>i j. i < j \<Longrightarrow> j < n \<Longrightarrow> fc_Key (fst (cb j)) \<noteq> fc_Key (fst (cb i)))
      \<Longrightarrow> holds H dir cb n (loaded.put_all H (map cb [0..<n]) ks)"
    and "k \<notin> (\<lambda>i. fc_Key (fst (cb i))) ` {..<n}
      \<Longrightarrow> chunk_at k (loaded.put_all H (map cb [0..<n]) ks) = chunk_at k ks"
  using loaded.put_all_upt [of dir ks cb, OF assms] by (auto simp: holds_def at_home_def)

lemma written_holds:
  assumes "store_ok dir ks" and "\<And>i. fc_Size (fst (cb i)) = u32 (length (snd (cb i)))"
  shows "store_ok dir (written.put_all H (map cb [0..<n]) ks)"
    and "(\<And>i j. i < j \<Longrightarrow> j < n \<Longrightarrow> fc_Key (fst (cb j)) \<noteq> fc_Key (fst (cb i)))
      \<Longrightarrow> holds H dir cb n (written.put_all H (map cb [0..<n]) ks)"
    and "k \<notin> (\<lambda>i. fc_Key (fst (cb i))) ` {..<n}
      \<Longrightarrow> chunk_at k (written.put_all H (map cb [0..<n]) ks) = chunk_at k ks"
  using written.put_all_upt [of dir ks cb, OF assms] by (auto simp: holds_def at_home_def)

section \<open>Reading back what is in place\<close>

lemma GetData_chunk_at:
  assumes "store_ok dir ks" and "GetDataFromDisk H k ks = (ks', r)"
  shows "store_ok dir ks' \<and> (\<forall>k. chunk_at k ks' = chunk_at k ks)
    \<and> (case chunk_at k ks of None \<Rightarrow> \<exists>e. r = Inl (Err e)
       | Some (c, b) \<Rightarrow> r = (if sha256 H b = fc_DataHash c then Inr b else Inl (Err (ChunkCorrupt k))))"
proof (cases "map_of (ks_registry ks) k")
  case None
  then show ?thesis using assms by (auto simp: GetDataFromDisk_def chunk_at_def)
next
  case (Some c)
  have "on_disk (os_ReadFile (fc_Location c)) ks = (ticked ks, file_at (ks_disk ks) (fc_Location c))"
    using assms(1) by (simp add: store_ok_def on_reliable ticked_def)
  moreover have "chunk_at k ks = map_option (Pair c) (file_at (ks_disk ks) (fc_Location c))"
    using Some by (simp add: chunk_at_def)
  ultimately show ?thesis using assms Some
    by (cases "file_at (ks_disk ks) (fc_Location c)") (auto simp: GetDataFromDisk_def)
qed

text \<open>Reassembling depends on the chunks the reference names, and on nothing else of the store.\<close>

lemma reassemble_chunks_frame:
  "store_ok dir ks1 \<Longrightarrow> store_ok dir ks2
    \<Longrightarrow> (\<And>c. Some c \<in> set cs \<Longrightarrow> chunk_at (fc_Key c) ks1 = chunk_at (fc_Key c) ks2)
    \<Longrightarrow> snd (reassemble_chunks H m i cs buf n ks1) = snd (reassemble_chunks H m i cs buf n ks2)"
proof (induction cs arbitrary: i buf n ks1 ks2)
  case (Cons r cs)
  show ?case
  proof (cases r)
    case (Some c)
    obtain ks1' g1 where g1: "GetDataFromDisk H (fc_Key c) ks1 = (ks1', g1)" by fastforce
    obtain ks2' g2 where g2: "GetDataFromDisk H (fc_Key c) ks2 = (ks2', g2)" by fastforce
    note c1 = GetData_chunk_at [OF Cons.prems(1) g1] and c2 = GetData_chunk_at [OF Cons.prems(2) g2]
    have "chunk_at (fc_Key c) ks1 = chunk_at (fc_Key c) ks2" using Cons.prems(3) Some by simp
    then have g: "(\<exists>e e'. g1 = Inl e \<and> g2 = Inl e') \<or> (\<exists>b. g1 = Inr b \<and> g2 = Inr b)"
      using c1 c2 by (auto split: option.splits)
    have rec: "snd (reassemble_chunks H m j cs buf n ks1') = snd (reassemble_chunks H m j cs buf n ks2')" for j buf n
      using c1 c2 Cons.prems(3) by (intro Cons.IH) auto
    show ?thesis using Some g1 g2 g rec by auto
  qed simp
qed simp

lemma Reassemble_frame:
  assumes "store_ok dir ks1" and "store_ok dir ks2"
    and "map_of (ks_references ks1) h = map_of (ks_references ks2) h"
    and "\<And>f c. map_of (ks_references ks1) h = Some f \<Longrightarrow> Some c \<in> set (fr_Chunks f)
      \<Longrightarrow> chunk_at (fc_Key c) ks1 = chunk_at (fc_Key c) ks2"
  shows "snd (ReassembleFileFromDisk H h ks1) = snd (ReassembleFileFromDisk H h ks2)"
proof (cases "map_of (ks_references ks1) h")
  case None
  then show ?thesis using assms(3) by (simp add: ReassembleFileFromDisk_def ReferenceFromMemory_def)
next
  case (Some f)
  let ?r = "reassemble_chunks H (fr_MetaData f) 0 (fr_Chunks f) (replicate (fm_TotalSize (fr_MetaData f)) 0) 0"
  have "snd (?r ks1) = snd (?r ks2)"
    using assms(4) [OF Some] by (intro reassemble_chunks_frame [OF assms(1,2)]) auto
  then show ?thesis using Some assms(3)
    by (auto simp: ReassembleFileFromDisk_def ReferenceFromMemory_def Let_def
        split: prod.splits sum.splits)
qed

lemma overlay_piece:
  assumes "length buf = length content" and "take (i * c) buf = take (i * c) content"
    and "i * c \<le> length content"
  shows "take (Suc i * c) (overlay buf (i * c) (piece c content i)) = take (Suc i * c) content"
proof -
  let ?b = "piece c content i"
  have fits: "take (length buf - i * c) ?b = ?b" using assms(1) by (intro take_all) (simp add: piece_simps)
  have all: "take (i * c) content @ ?b = take (Suc i * c) content"
    unfolding piece_def mult_Suc add.commute [of c] take_add ..
  have "overlay buf (i * c) ?b = take (Suc i * c) content @ drop (i * c + length ?b) buf"
    unfolding overlay_def assms(2) fits all [symmetric] by (rule append_assoc [symmetric])
  moreover have "drop (i * c + length ?b) buf = [] \<or> length (take (Suc i * c) content) = Suc i * c"
    using assms(1,3) by (auto simp: piece_simps min_def)
  ultimately show ?thesis by auto
qed

text \<open>\<open>r i\<close> are references whose keys hold the pieces of \<open>content\<close>.\<close>

definition names_pieces :: "libs \<Rightarrow> nat \<Rightarrow> nat \<Rightarrow> bytes \<Rightarrow> (nat \<Rightarrow> file_chunk) \<Rightarrow> key_store \<Rightarrow> bool" where
  "names_pieces H c n content r ks \<longleftrightarrow> (\<forall>i<n. \<exists>stored.
     chunk_at (fc_Key (r i)) ks = Some (stored, piece c content i)
     \<and> fc_DataHash stored = sha256 H (piece c content i)
     \<and> fc_DataHash (r i) = sha256 H (piece c content i)
     \<and> fc_Size (r i) = u32 (length (piece c content i)))"

lemma reassemble_chunks_reliable:
  assumes "names_pieces H (fm_ChunkSize m) n content r ks" and "store_ok dir ks"
    and "cut (fm_ChunkSize m) n (length content)" and "i \<le> n"
    and "length buf = length content"
    and "take (i * fm_ChunkSize m) buf = take (i * fm_ChunkSize m) content"
  shows "snd (reassemble_chunks H m i (map (Some \<circ> r) [i..<n]) buf (min (i * fm_ChunkSize m) (length content)) ks)
    = Inr (content, length content)"
  using assms(4,1,2,5,6)
proof (induction arbitrary: buf ks rule: inc_induct)
  case base
  have "length content \<le> n * fm_ChunkSize m" using assms(3) by (simp add: cut_def)
  then show ?case using base by (simp add: min.absorb2)
next
  case (step i)
  define c where "c = fm_ChunkSize m"
  define b where "b = piece c content i"
  have start: "i * c < length content" using cut_bounds(1) [OF assms(3) step(2)] by (simp add: c_def)
  obtain st where st: "chunk_at (fc_Key (r i)) ks = Some (st, b)" "fc_DataHash st = sha256 H b"
    "fc_DataHash (r i) = sha256 H b" "fc_Size (r i) = u32 (length b)"
    using step(4) step(2) by (auto simp: names_pieces_def b_def c_def)
  have g: "GetDataFromDisk H (fc_Key (r i)) ks = (ticked ks, Inr b)"
    using GetData_reliable [OF step(5) st(1)] st(2) by simp
  have upt: "[i..<n] = i # [Suc i..<n]" using step(2) by (simp add: upt_rec)
  have next_pos: "min (i * c) (length content) + length b = min (Suc i * c) (length content)"
    using start by (auto simp: b_def piece_simps)
  have guard: "\<not> length buf < i * c" using start step(6) by simp
  have "take (Suc i * c) (overlay buf (i * c) b) = take (Suc i * c) content"
    unfolding b_def using step(6,7) start by (intro overlay_piece) (auto simp: c_def)
  then have IH: "snd (reassemble_chunks H m (Suc i) (map (Some \<circ> r) [Suc i..<n]) (overlay buf (i * c) b)
      (min (Suc i * c) (length content)) (ticked ks)) = Inr (content, length content)"
    using step(4-6) guard unfolding c_def by (intro step(3)) (auto simp: names_pieces_def)
  show ?case unfolding upt using g st IH guard next_pos by (simp add: o_def flip: c_def)
qed

lemma Reassemble_reliable:
  assumes "store_ok dir ks" and "map_of (ks_references ks) h = Some f"
    and "fr_Chunks f = map (Some \<circ> r) [0..<n]"
    and "names_pieces H (fm_ChunkSize (fr_MetaData f)) n content r ks"
    and "cut (fm_ChunkSize (fr_MetaData f)) n (length content)"
    and "fm_TotalSize (fr_MetaData f) = length content" and "fm_FileHash (fr_MetaData f) = sha256 H content"
  shows "snd (ReassembleFileFromDisk H h ks) = Inr content"
proof -
  let ?m = "fr_MetaData f"
  obtain ks' x where x: "reassemble_chunks H ?m 0 (fr_Chunks f) (replicate (fm_TotalSize ?m) 0) 0 ks = (ks', x)"
    by fastforce
  moreover have "x = Inr (content, length content)"
    using reassemble_chunks_reliable [OF assms(4,1,5), of 0 "replicate (fm_TotalSize ?m) 0"] assms(3,6) x
    by simp
  ultimately show ?thesis using assms(2,6,7) by (simp add: ReassembleFileFromDisk_def ReferenceFromMemory_def)
qed

text \<open>A successful loop has read every chunk, and counts their lengths; \<open>held\<close> is what the store has under the key of \<open>r i\<close>.\<close>

definition held :: "(nat \<Rightarrow> file_chunk) \<Rightarrow> key_store \<Rightarrow> nat \<Rightarrow> bytes" where
  "held r ks i = (case chunk_at (fc_Key (r i)) ks of None \<Rightarrow> [] | Some (st, b) \<Rightarrow> b)"

definition readable :: "libs \<Rightarrow> file_chunk \<Rightarrow> bytes \<Rightarrow> key_store \<Rightarrow> bool" where
  "readable H ref b ks \<longleftrightarrow> (\<exists>st. chunk_at (fc_Key ref) ks = Some (st, b)
     \<and> fc_DataHash st = sha256 H b \<and> fc_DataHash ref = sha256 H b \<and> fc_Size ref = u32 (length b))"

lemma readable_held: "readable H (r i) b ks \<Longrightarrow> held r ks i = b" for r :: "nat \<Rightarrow> file_chunk"
  by (auto simp: readable_def held_def)

lemma reassemble_chunks_read:
  "snd (reassemble_chunks H m i (map (Some \<circ> r) [i..<n]) buf w ks) = Inr (buf', w') \<Longrightarrow> store_ok dir ks \<Longrightarrow> i \<le> n
    \<Longrightarrow> (\<forall>j. i \<le> j \<and> j < n \<longrightarrow> readable H (r j) (held r ks j) ks) \<and> w' = w + (\<Sum>j = i..<n. length (held r ks j))"
proof (induction "n - i" arbitrary: i buf w ks)
  case (Suc k)
  have upt: "[i..<n] = i # [Suc i..<n]" using Suc(2) by (simp add: upt_rec)
  obtain ks1 g where g: "GetDataFromDisk H (fc_Key (r i)) ks = (ks1, g)" by fastforce
  then obtain b where b: "g = Inr b" "u32 (length b) = fc_Size (r i)" "sha256 H b = fc_DataHash (r i)"
    and rec: "snd (reassemble_chunks H m (Suc i) (map (Some \<circ> r) [Suc i..<n]) (overlay buf (i * fm_ChunkSize m) b)
        (w + length b) ks1) = Inr (buf', w')"
    using Suc(3) unfolding upt by (cases g) (auto split: if_splits simp: o_def)
  have d: "store_ok dir ks1" "\<And>k. chunk_at k ks1 = chunk_at k ks"
    "\<exists>st. chunk_at (fc_Key (r i)) ks = Some (st, b) \<and> fc_DataHash st = sha256 H b"
    using GetData_chunk_at [OF Suc(4) g] b(1) by (auto split: option.splits if_splits)
  then have i: "readable H (r i) b ks" using b by (auto simp: readable_def)
  have same: "held r ks1 j = held r ks j" "readable H (r j) c ks1 = readable H (r j) c ks" for j c
    by (simp_all add: held_def readable_def d(2))
  have IH: "\<forall>j. Suc i \<le> j \<and> j < n \<longrightarrow> readable H (r j) (held r ks j) ks"
    "w' = w + length b + (\<Sum>j = Suc i..<n. length (held r ks j))"
    using Suc(1) [OF _ rec d(1)] Suc(2) unfolding same by simp_all
  have "readable H (r j) (held r ks j) ks" if "i \<le> j" "j < n" for j
    using that IH(1) i readable_held [where r = r, OF i] by (cases "j = i") auto
  moreover have "w' = w + (\<Sum>j = i..<n. length (held r ks j))"
    using IH(2) Suc(2) readable_held [where r = r, OF i] by (simp add: sum.atLeast_Suc_lessThan)
  ultimately show ?case by blast
qed auto

text \<open>Chunks of the lengths of a cut are the pieces of their concatenation.\<close>

lemma cut_concat:
  assumes "cut c n s" and "\<And>i. i < n \<Longrightarrow> length (d i) = min c (s - i * c)"
  shows "length (concat (map d [0..<n])) = s" and "i < n \<Longrightarrow> piece c (concat (map d [0..<n])) i = d i"
proof -
  have len: "k \<le> n \<Longrightarrow> length (concat (map d [0..<k])) = min (k * c) s" for k
  proof (induction k)
    case (Suc k)
    then show ?case using assms(2) [of k] cut_bounds(1) [OF assms(1), of k] by auto
  qed simp
  have all: "s \<le> n * c" using assms(1) by (simp add: cut_def)
  then show "length (concat (map d [0..<n])) = s" using len [of n] by simp
  assume i: "i < n"
  then have "[0..<n] = [0..<i] @ i # [Suc i..<n]"
    by (metis less_imp_add_positive less_imp_le_nat upt_add_eq_append upt_conv_Cons zero_le)
  then have "concat (map d [0..<n]) = concat (map d [0..<i]) @ d i @ concat (map d [Suc i..<n])" by simp
  moreover have "length (concat (map d [0..<i])) = i * c"
    using len [of i] cut_bounds(1) [OF assms(1) i] i by simp
  moreover have "length (d i) = c \<or> n = Suc i"
    using assms(2) [OF i] cut_bounds(2) [OF assms(1) i] by (cases "n = Suc i") (auto simp: min_def)
  moreover have "length (d i) \<le> c" using assms(2) [OF i] by simp
  ultimately show "piece c (concat (map d [0..<n])) i = d i" by (auto simp: piece_def)
qed

lemma cut_sum:
  assumes "cut c n s"
  shows "(\<Sum>i<n. min c (s - i * c)) = s"
proof -
  have "length (concat (map (\<lambda>i. replicate (min c (s - i * c)) (0 :: byte)) [0..<n])) = s"
    by (rule cut_concat(1) [OF assms]) (rule length_replicate)
  then show ?thesis by (simp add: length_concat o_def interv_sum_list_conv_sum_set_nat atLeast0LessThan)
qed

text \<open>The recorded chunks have the lengths of a cut.\<close>

definition laid_out :: "file_reference \<Rightarrow> bool" where
  "laid_out f \<longleftrightarrow> (let m = fr_MetaData f; n = length (fr_Chunks f) in
     cut (fm_ChunkSize m) n (fm_TotalSize m) \<and> (\<forall>i<n. \<exists>ref. fr_Chunks f ! i = Some ref
       \<and> fc_Size ref = min (fm_ChunkSize m) (fm_TotalSize m - i * fm_ChunkSize m)))"

lemma Reassemble_laid_out:
  assumes ok: "store_ok dir ks" and f: "map_of (ks_references ks) h = Some f" and laid: "laid_out f"
  shows "snd (ReassembleFileFromDisk H h ks) = Inr b \<longleftrightarrow>
    (\<exists>bs. list_all2 (\<lambda>ref d. \<exists>c. ref = Some c \<and> readable H c d ks \<and> length d = fc_Size c) (fr_Chunks f) bs
       \<and> b = concat bs \<and> sha256 H b = fm_FileHash (fr_MetaData f))"
proof -
  define m where "m = fr_MetaData f"
  define n where "n = length (fr_Chunks f)"
  define r where "r i = the (fr_Chunks f ! i)" for i
  define p where "p i = min (fm_ChunkSize m) (fm_TotalSize m - i * fm_ChunkSize m)" for i
  have cut: "cut (fm_ChunkSize m) n (fm_TotalSize m)"
    and at: "\<And>i. i < n \<Longrightarrow> fr_Chunks f ! i = Some (r i) \<and> fc_Size (r i) = p i"
    using laid by (auto simp: laid_out_def Let_def m_def n_def r_def p_def)
  have cs: "fr_Chunks f = map (Some \<circ> r) [0..<n]" using at by (intro nth_equalityI) (simp_all add: n_def)
  have loop: "snd (reassemble_chunks H m 0 (map (Some \<circ> r) [0..<n]) (replicate (fm_TotalSize m) 0) 0 ks)
      = Inr (concat (map d [0..<n]), fm_TotalSize m)"
    if d: "\<And>i. i < n \<Longrightarrow> readable H (r i) (d i) ks \<and> length (d i) = p i" for d
  proof -
    have c: "length (concat (map d [0..<n])) = fm_TotalSize m" "\<And>i. i < n \<Longrightarrow> piece (fm_ChunkSize m) (concat (map d [0..<n])) i = d i"
      using cut_concat [OF cut, of d] d by (simp_all add: p_def)
    have "names_pieces H (fm_ChunkSize m) n (concat (map d [0..<n])) r ks"
      using d c(2) by (fastforce simp: names_pieces_def readable_def)
    from reassemble_chunks_reliable [OF this ok, of 0 "replicate (fm_TotalSize m) 0"] cut c(1) show ?thesis by simp
  qed
  show ?thesis
  proof
    assume "snd (ReassembleFileFromDisk H h ks) = Inr b"
    then obtain w where w: "snd (reassemble_chunks H m 0 (map (Some \<circ> r) [0..<n]) (replicate (fm_TotalSize m) 0) 0 ks) = Inr (b, w)"
      and total: "w = fm_TotalSize m" and hash: "sha256 H b = fm_FileHash m"
      using f by (auto simp: ReassembleFileFromDisk_def ReferenceFromMemory_def Let_def cs simp flip: m_def
          split: prod.splits sum.splits if_splits)
    define d where "d = held r ks"
    have d: "\<And>i. i < n \<Longrightarrow> readable H (r i) (d i) ks" "fm_TotalSize m = (\<Sum>i<n. length (d i))"
      using reassemble_chunks_read [OF w ok] total by (simp_all add: d_def atLeast0LessThan)
    have ge: "p i \<le> length (d i)" if "i < n" for i
      using d(1) [OF that] at [OF that] by (auto simp: readable_def u32_def)
    have len: "length (d i) = p i" if "i < n" for i
    proof (rule ccontr)
      assume "length (d i) \<noteq> p i"
      then have "p i < length (d i)" using ge [OF that] by simp
      then have "(\<Sum>i<n. p i) < (\<Sum>i<n. length (d i))"
        using ge that by (intro sum_strict_mono_ex1) auto
      then show False using cut_sum [OF cut] d(2) by (simp add: p_def)
    qed
    have "b = concat (map d [0..<n])" using loop [of d] d(1) len w by simp
    moreover have "list_all2 (\<lambda>ref x. \<exists>c. ref = Some c \<and> readable H c x ks \<and> length x = fc_Size c) (fr_Chunks f) (map d [0..<n])"
      using d(1) len at by (simp add: cs list_all2_conv_all_nth)
    ultimately show "\<exists>bs. list_all2 (\<lambda>ref d. \<exists>c. ref = Some c \<and> readable H c d ks \<and> length d = fc_Size c) (fr_Chunks f) bs
       \<and> b = concat bs \<and> sha256 H b = fm_FileHash (fr_MetaData f)" using hash by (auto simp: m_def)
  next
    assume "\<exists>bs. list_all2 (\<lambda>ref d. \<exists>c. ref = Some c \<and> readable H c d ks \<and> length d = fc_Size c) (fr_Chunks f) bs
       \<and> b = concat bs \<and> sha256 H b = fm_FileHash (fr_MetaData f)"
    then obtain bs where bs: "list_all2 (\<lambda>ref d. \<exists>c. ref = Some c \<and> readable H c d ks \<and> length d = fc_Size c) (fr_Chunks f) bs"
      "b = concat bs" "sha256 H b = fm_FileHash m" by (auto simp: m_def)
    then have "length bs = n" by (simp add: list_all2_lengthD n_def)
    then have b: "map ((!) bs) [0..<n] = bs" by (metis map_nth)
    have "readable H (r i) (bs ! i) ks \<and> length (bs ! i) = p i" if "i < n" for i
      using list_all2_nthD [OF bs(1), of i] at [OF that] that by (auto simp: n_def)
    from loop [of "(!) bs", OF this] obtain ks' where
      "reassemble_chunks H m 0 (fr_Chunks f) (replicate (fm_TotalSize m) 0) 0 ks = (ks', Inr (b, fm_TotalSize m))"
      unfolding b cs bs(2) by (metis surjective_pairing)
    then show "snd (ReassembleFileFromDisk H h ks) = Inr b"
      using f bs(3) by (simp add: ReassembleFileFromDisk_def ReferenceFromMemory_def flip: m_def)
  qed
qed

text \<open>
  C24. Integrity of reading. Whatever the disk does, reassembling changes nothing, and what it returns has the recorded length
  and the recorded SHA-256, so that two successful reads of a reference, on any two disks, agree unless they
  collide under SHA-256; and it does not panic if the recorded chunk size fits the number of chunks. On a disk that
  works, for a reference whose chunk sizes are those of a cut of the file, it succeeds exactly when every
  chunk file holds data of the recorded length and hash and the whole has the recorded hash, and returns their
  concatenation; otherwise it returns an error.
\<close>

theorem Reassemble_integrity:
  assumes "map_of (ks_references ks) h = Some f"
  shows "case ReassembleFileFromDisk H h ks of (ks', r) \<Rightarrow> quiet {} ks ks'
    \<and> (\<forall>b. r = Inr b \<longrightarrow> length b = fm_TotalSize (fr_MetaData f) \<and> sha256 H b = fm_FileHash (fr_MetaData f))
    \<and> ((\<forall>j<length (fr_Chunks f). j * fm_ChunkSize (fr_MetaData f) \<le> fm_TotalSize (fr_MetaData f)) \<longrightarrow> no_panic r)
    \<and> (store_ok dir ks \<longrightarrow> laid_out f \<longrightarrow>
        ((\<exists>b. r = Inr b) \<or> (\<exists>e. r = Inl (Err e)))
        \<and> (\<forall>b. r = Inr b \<longleftrightarrow>
            (\<exists>bs. list_all2 (\<lambda>ref d. \<exists>c. ref = Some c \<and> readable H c d ks \<and> length d = fc_Size c) (fr_Chunks f) bs
               \<and> b = concat bs \<and> sha256 H b = fm_FileHash (fr_MetaData f))))"
proof -
  let ?m = "fr_MetaData f"
  obtain ks' r where r: "ReassembleFileFromDisk H h ks = (ks', r)" by fastforce
  note c = Reassemble_cases [OF r]
  have fit: "j * fm_ChunkSize ?m \<le> fm_TotalSize ?m" if "laid_out f" "j < length (fr_Chunks f)" for j
    using that cut_bounds(1) [of "fm_ChunkSize ?m" "length (fr_Chunks f)" "fm_TotalSize ?m" j]
    by (simp add: laid_out_def Let_def)
  have whole: "(\<forall>j<length (fr_Chunks f). j * fm_ChunkSize ?m \<le> fm_TotalSize ?m) \<longrightarrow> no_panic r" using c assms by simp
  have ends: "(\<exists>b. r = Inr b) \<or> (\<exists>e. r = Inl (Err e))" if "laid_out f"
  proof (cases r)
    case (Inl x)
    moreover have "no_panic r" using whole fit [OF that] by blast
    ultimately show ?thesis by (cases x) (simp_all add: no_panic_def)
  qed simp
  have exact: "r = Inr b \<longleftrightarrow> (\<exists>bs. list_all2 (\<lambda>ref d. \<exists>c. ref = Some c \<and> readable H c d ks \<and> length d = fc_Size c) (fr_Chunks f) bs
      \<and> b = concat bs \<and> sha256 H b = fm_FileHash ?m)" if "store_ok dir ks" "laid_out f" for b
    using Reassemble_laid_out [OF that(1) assms that(2), of H b] unfolding r snd_conv .
  have "\<forall>b. r = Inr b \<longrightarrow> length b = fm_TotalSize ?m \<and> sha256 H b = fm_FileHash ?m" and "quiet {} ks ks'"
    using c assms by auto
  then show ?thesis unfolding r prod.case using whole ends exact by blast
qed

text \<open>A file of one chunk, of which the disk holds \<open>b\<close>.\<close>

definition one_chunk_store :: "bytes \<Rightarrow> key_store" where
  "one_chunk_store b =
     (let p = chunkPath (demo_store []) [5];
          c = \<lparr>fc_Key = [5], fc_FileName = ''n'', fc_Size = 2, fc_FileIndex = 0, fc_Location = p, fc_Protocol = ''file'',
               fc_DataHash = [7, 8]\<rparr>;
          m = blank_meta\<lparr>fm_FileHash := [7, 8], fm_TotalSize := 2, fm_ChunkSize := 2, fm_TotalChunks := 1\<rparr>
      in (demo_store [(p, b)])\<lparr>ks_references := [([7, 8], \<lparr>fr_MetaData = m, fr_Chunks = [Some c]\<rparr>)], ks_registry := [([5], c)]\<rparr>)"

theorem Reassemble_integrity_witness:
  "snd (ReassembleFileFromDisk demo_libs [7, 8] (one_chunk_store [7, 8])) = Inr [7, 8]
   \<and> (\<exists>e. snd (ReassembleFileFromDisk demo_libs [7, 8] (one_chunk_store [7, 9])) = Inl (Err e))"
proof -
  let ?s = one_chunk_store
  obtain f c where f: "\<And>b. map_of (ks_references (?s b)) [7, 8] = Some f" "fr_Chunks f = [Some c]" "laid_out f"
    "fm_FileHash (fr_MetaData f) = [7, 8]"
    and c: "fc_Size c = 2" "fc_DataHash c = [7, 8]" "\<And>b. chunk_at (fc_Key c) (?s b) = Some (c, b)"
    by (simp add: one_chunk_store_def Let_def laid_out_def cut_def chunk_at_def del: split_paired_All)
  have ok: "store_ok ''s'' (?s b)" for b
    by (simp add: one_chunk_store_def Let_def store_ok_def demo_store_def in_dir_def reliable_def registry_ok_def
        chunkPath_def)
  have r: "readable demo_libs c d (?s b) \<longleftrightarrow> d = b \<and> d = [7, 8]" for b d
    using c by (auto simp: readable_def demo_libs_def u32_def)
  have sha: "sha256 demo_libs b = b" for b by (simp add: demo_libs_def)
  have run: "((\<exists>b'. x = Inr b') \<or> (\<exists>e. x = Inl (Err e))) \<and> (x = Inr b' \<longleftrightarrow> b = [7, 8] \<and> b' = [7, 8])"
    if x: "ReassembleFileFromDisk demo_libs [7, 8] (?s b) = (ks', x)" for b b' ks' x
  proof -
    have "x = Inr b' \<longleftrightarrow> (\<exists>bs. list_all2 (\<lambda>ref d. \<exists>c. ref = Some c \<and> readable demo_libs c d (?s b) \<and> length d = fc_Size c) (fr_Chunks f) bs
        \<and> b' = concat bs \<and> sha256 demo_libs b' = fm_FileHash (fr_MetaData f))"
      and ends: "(\<exists>b'. x = Inr b') \<or> (\<exists>e. x = Inl (Err e))"
      using Reassemble_integrity [where H = demo_libs and dir = "''s''", OF f(1) [of b]] ok [of b] f(3) unfolding x prod.case by blast+
    then have "x = Inr b' \<longleftrightarrow> b = [7, 8] \<and> b' = [7, 8]"
      unfolding f(2) sha list_all2_Cons1 list_all2_Nil f(4) using c(1) by (auto simp: r)
    then show ?thesis using ends by blast
  qed
  obtain s1 x1 s2 x2 where x: "ReassembleFileFromDisk demo_libs [7, 8] (?s [7, 8]) = (s1, x1)"
    "ReassembleFileFromDisk demo_libs [7, 8] (?s [7, 9]) = (s2, x2)" by fastforce
  have "x1 = Inr [7, 8]" using run [OF x(1), of "[7, 8]"] by simp
  moreover have "\<exists>e. x2 = Inl (Err e)" using run [OF x(2), of "[7, 8]"] run [OF x(2)] by fastforce
  ultimately show ?thesis unfolding x by simp
qed

section \<open>Storing a file on a disk that works\<close>

lemma live_chunks_current:
  "(\<And>c. Some c \<in> set cs \<Longrightarrow> map_of reg (fc_Key c) = Some c) \<Longrightarrow> live_chunks reg cs = Inr cs"
  by (induction reg cs rule: live_chunks.induct) auto

lemma chunk_at_same_files:
  assumes "registry_ok ks" and "ks_registry ks' = ks_registry ks"
    and "\<And>k. file_at (ks_disk ks') (chunkPath ks k) = file_at (ks_disk ks) (chunkPath ks k)"
    and "file_at (ks_disk ks') '''' = file_at (ks_disk ks) ''''"
  shows "chunk_at k ks' = chunk_at k ks"
proof (cases "map_of (ks_registry ks) k")
  case (Some c)
  then show ?thesis using registry_okD [OF assms(1) Some] assms(2-4) by (auto simp: chunk_at_def)
qed (simp add: chunk_at_def assms(2))

lemma updateReference_reliable:
  assumes "store_ok dir ks" and "live_chunks (ks_registry ks) (fr_Chunks f) = Inr cs"
    and "toml_encode H (f\<lparr>fr_Chunks := cs\<rparr>) \<noteq> None"
  obtains ks' where "updateReference H f ks = (ks', Inr (f\<lparr>fr_Chunks := cs\<rparr>))"
    and "store_ok dir ks'" and "\<And>k. chunk_at k ks' = chunk_at k ks"
    and "map_of (ks_references ks')
      = (map_of (ks_references ks))(fm_FileHash (fr_MetaData f) \<mapsto> f\<lparr>fr_Chunks := cs\<rparr>)"
    and "file_at (ks_disk ks') = (file_at (ks_disk ks))
      (metadata_path ks (fm_FileHash (fr_MetaData f)) := toml_encode H (f\<lparr>fr_Chunks := cs\<rparr>))"
proof -
  obtain t where t: "toml_encode H (f\<lparr>fr_Chunks := cs\<rparr>) = Some t" using assms(3) by blast
  define h where "h = fm_FileHash (fr_MetaData f)"
  define mp where "mp = metadata_path ks h"
  define ks' where "ks' = ks\<lparr>ks_references := AList.update h (f\<lparr>fr_Chunks := cs\<rparr>) (ks_references ks),
      ks_disk := put_file mp t (tick (put_file mp [] (tick (tick (ks_disk ks)))))\<rparr>"
  have rel: "reliable (ks_disk ks)" and ok: "registry_ok ks" using assms(1) by (simp_all add: store_ok_def)
  have path: "metadata_path (ks\<lparr>ks_references := R, ks_disk := d\<rparr>) h = mp" for R d
    by (simp add: mp_def metadata_path_def metadata_dir_def)
  have u: "updateReference H f ks = (ks', Inr (f\<lparr>fr_Chunks := cs\<rparr>))"
    using assms(2) rel t path
    by (simp add: updateReference_def write_metadata_def on_reliable Let_def ks'_def flip: h_def)
  show thesis
  proof (rule that [OF u])
    show "store_ok dir ks'" using updateReference_cases [OF u ok] store_ok_tidy [OF assms(1)] by blast
    show "chunk_at k ks' = chunk_at k ks" for k
      by (rule chunk_at_same_files [OF ok]) (simp_all add: ks'_def mp_def)
    show "map_of (ks_references ks') = (map_of (ks_references ks))
        (fm_FileHash (fr_MetaData f) \<mapsto> f\<lparr>fr_Chunks := cs\<rparr>)"
      by (simp add: ks'_def h_def update_conv')
    show "file_at (ks_disk ks') = (file_at (ks_disk ks))
        (metadata_path ks (fm_FileHash (fr_MetaData f)) := toml_encode H (f\<lparr>fr_Chunks := cs\<rparr>))"
      by (simp add: ks'_def t mp_def h_def fun_eq_iff)
  qed
qed

text \<open>The registry gains at most the keys \<open>K\<close>, and keeps one entry per key.\<close>

definition reg_grows :: "bytes set \<Rightarrow> key_store \<Rightarrow> key_store \<Rightarrow> bool" where
  "reg_grows K ks ks' \<longleftrightarrow> dom (map_of (ks_registry ks')) \<subseteq> dom (map_of (ks_registry ks)) \<union> K
     \<and> (distinct (map fst (ks_registry ks)) \<longrightarrow> distinct (map fst (ks_registry ks')))"

lemma WriteChunk_grows: "reg_grows {fc_Key c} ks (fst (WriteChunkToDisk H c b ks))"
  using WriteChunk_cases [of H c b ks, OF surjective_pairing]
  by (auto simp: reg_grows_def distinct_update update_conv' split: if_splits)

lemma put_all_grows:
  "reg_grows ((\<lambda>(c, b). fc_Key c) ` set cbs) ks (loaded.put_all H cbs ks)"
  "reg_grows ((\<lambda>(c, b). fc_Key c) ` set cbs) ks (written.put_all H cbs ks)"
proof -
  have t: "ks_registry (ticked ks) = ks_registry ks" for ks by (simp add: ticked_def)
  have step: "reg_grows K (fst (WriteChunkToDisk H c b ks)) s \<Longrightarrow> reg_grows (insert (fc_Key c) K) ks s" for K c b ks s
    using WriteChunk_grows [of c ks H b] unfolding reg_grows_def by blast
  show "reg_grows ((\<lambda>(c, b). fc_Key c) ` set cbs) ks (loaded.put_all H cbs ks)"
  proof (induction cbs arbitrary: ks)
    case (Cons cb cbs)
    obtain c b where cb: "cb = (c, b)" by (cases cb)
    have "reg_grows (insert (fc_Key c) ((\<lambda>(c, b). fc_Key c) ` set cbs)) (ticked ks) (loaded.put_all H (cb # cbs) ks)"
      using step [OF Cons.IH] by (simp add: cb)
    then show ?case by (simp add: reg_grows_def t cb)
  qed (simp add: reg_grows_def)
  show "reg_grows ((\<lambda>(c, b). fc_Key c) ` set cbs) ks (written.put_all H cbs ks)"
  proof (induction cbs arbitrary: ks)
    case (Cons cb cbs)
    obtain c b where cb: "cb = (c, b)" by (cases cb)
    then show ?case using step [OF Cons.IH] by simp
  qed (simp add: reg_grows_def)
qed

lemma put_all_upt_grows:
  "reg_grows ((\<lambda>i. fc_Key (fst (cb i))) ` {..<n}) ks (loaded.put_all H (map cb [0..<n]) ks)"
  "reg_grows ((\<lambda>i. fc_Key (fst (cb i))) ` {..<n}) ks (written.put_all H (map cb [0..<n]) ks)"
proof -
  have "(\<lambda>(c, b). fc_Key c) ` set (map cb [0..<n]) = (\<lambda>i. fc_Key (fst (cb i))) ` {..<n}"
    by (auto simp: case_prod_beta atLeast0LessThan image_image)
  then show "reg_grows ((\<lambda>i. fc_Key (fst (cb i))) ` {..<n}) ks (loaded.put_all H (map cb [0..<n]) ks)"
    "reg_grows ((\<lambda>i. fc_Key (fst (cb i))) ` {..<n}) ks (written.put_all H (map cb [0..<n]) ks)"
    using put_all_grows [of "map cb [0..<n]" ks H] by simp_all
qed

text \<open>What storing a file in \<open>n\<close> chunks \<open>cb\<close> does to the store.\<close>

definition stores :: "libs \<Rightarrow> string \<Rightarrow> (nat \<Rightarrow> file_chunk \<times> bytes) \<Rightarrow> nat \<Rightarrow> file_meta
    \<Rightarrow> key_store \<Rightarrow> key_store \<Rightarrow> bool" where
  "stores H dir cb n m ks ks' \<longleftrightarrow> store_ok dir ks' \<and> holds H dir cb n ks'
     \<and> (\<forall>k. k \<notin> (\<lambda>i. fc_Key (fst (cb i))) ` {..<n} \<longrightarrow> chunk_at k ks' = chunk_at k ks)
     \<and> map_of (ks_references ks') = (map_of (ks_references ks))
         (fm_FileHash m \<mapsto> \<lparr>fr_MetaData = m, fr_Chunks = file_chunks H dir cb n\<rparr>)
     \<and> reg_grows ((\<lambda>i. fc_Key (fst (cb i))) ` {..<n}) ks ks'
     \<and> (\<forall>p. p \<notin> range (chunkPath ks) \<longrightarrow> file_at (ks_disk ks') p = ((file_at (ks_disk ks))
         (metadata_path ks (fm_FileHash m) := toml_encode H \<lparr>fr_MetaData = m, fr_Chunks = file_chunks H dir cb n\<rparr>)) p)"

lemma holds_live:
  assumes "holds H dir cb n ks"
  shows "live_chunks (ks_registry ks) (file_chunks H dir cb n) = Inr (file_chunks H dir cb n)"
proof (rule live_chunks_current)
  fix c assume "Some c \<in> set (file_chunks H dir cb n)"
  then obtain i where "i < n" "c = at_home H dir (cb i)" by (auto simp: file_chunks_def)
  then have "chunk_at (fc_Key c) ks = Some (c, snd (cb i))"
    using assms by (simp add: holds_def at_home_def placed_def)
  then show "map_of (ks_registry ks) (fc_Key c) = Some c"
    by (auto simp: chunk_at_def split: option.splits)
qed

lemma file_chunks_whole [simp]: "None \<notin> set (file_chunks H dir cb n)"
  by (auto simp: file_chunks_def)

lemma finish_store_reliable:
  assumes "store_ok dir ks1" and "holds H dir cb n ks1"
    and "\<And>k. k \<notin> (\<lambda>i. fc_Key (fst (cb i))) ` {..<n} \<Longrightarrow> chunk_at k ks1 = chunk_at k ks"
    and "ks_references ks1 = ks_references ks" and "\<And>f. None \<notin> set (fr_Chunks f) \<Longrightarrow> toml_encode H f \<noteq> None"
    and "ks_storage ks = dir" and "reg_grows ((\<lambda>i. fc_Key (fst (cb i))) ` {..<n}) ks ks1" and "\<And>p. p \<notin> range (chunkPath ks) \<Longrightarrow> file_at (ks_disk ks1) p = file_at (ks_disk ks) p"
  obtains ks' where "updateReference H \<lparr>fr_MetaData = m, fr_Chunks = file_chunks H dir cb n\<rparr> ks1
      = (ks', Inr \<lparr>fr_MetaData = m, fr_Chunks = file_chunks H dir cb n\<rparr>)"
    and "stores H dir cb n m ks ks'"
proof -
  let ?f = "\<lparr>fr_MetaData = m, fr_Chunks = file_chunks H dir cb n\<rparr>"
  have live: "live_chunks (ks_registry ks1) (fr_Chunks ?f) = Inr (file_chunks H dir cb n)"
    using holds_live [OF assms(2)] by simp
  obtain ks' where ks': "updateReference H ?f ks1 = (ks', Inr ?f)" "store_ok dir ks'"
    "\<And>k. chunk_at k ks' = chunk_at k ks1"
    "map_of (ks_references ks') = (map_of (ks_references ks1))(fm_FileHash m \<mapsto> ?f)"
    "file_at (ks_disk ks') = (file_at (ks_disk ks1))(metadata_path ks1 (fm_FileHash m) := toml_encode H ?f)"
    using updateReference_reliable [OF assms(1) live, of H] assms(5) by auto
  have "metadata_path ks1 = metadata_path ks"
    using assms(1,6) by (intro storage_cong(2)) (simp add: store_ok_def)
  moreover have "ks_registry ks' = ks_registry ks1"
    using updateReference_cases [OF ks'(1)] assms(1) by (simp add: store_ok_def)
  then have "reg_grows ((\<lambda>i. fc_Key (fst (cb i))) ` {..<n}) ks ks'" using assms(7) by (simp add: reg_grows_def)
  ultimately have "stores H dir cb n m ks ks'" unfolding stores_def
    using ks'(2-5) assms(2-4,8) by (auto simp: holds_def)
  with ks'(1) show thesis by (rule that)
qed

lemma chunk_cut:
  assumes "0 < s" and "s < 2 ^ 47"
  obtains n where "total_chunks s (CalculateChunkSize s) = (Inr n :: ('e, nat) go)"
    and "cut (CalculateChunkSize s) n s" and "{..<n} = {i. i * CalculateChunkSize s < s}"
proof -
  let ?c = "CalculateChunkSize s"
  note a = chunk_arithmetic_cases [OF assms(2), where 'e = 'e]
  obtain n where n: "total_chunks s ?c = (Inr n :: ('e, nat) go)" "0 < n" "(n - 1) * ?c < s" "s \<le> n * ?c"
    using a assms(1) by blast
  have c: "0 < ?c \<and> ?c < 2 ^ 32"
    using a assms(1) by (cases "s < MinChunkSize") (auto simp: MinChunkSize_def MaxChunkSize_def)
  then have cut: "cut ?c n s" using n assms(2) by (simp add: cut_def)
  have "i < n" if "i * ?c < s" for i
  proof (rule ccontr)
    assume "\<not> i < n"
    then have "n * ?c \<le> i * ?c" by (intro mult_le_mono1) simp
    then show False using n(4) that by linarith
  qed
  then show thesis using that [OF n(1) cut] cut_bounds(1) [OF cut] by blast
qed

text \<open>The metadata \<open>LoadAndStoreFile\<close> makes of a file, and the one of \<open>WriteFileToDisk\<close>.\<close>

definition loaded_meta :: "libs \<Rightarrow> int \<Rightarrow> nat \<Rightarrow> string \<Rightarrow> bytes \<Rightarrow> nat \<Rightarrow> file_meta" where
  "loaded_meta H now perm path content n =
     blank_meta\<lparr>fm_FileName := path_base path, fm_TotalSize := length content, fm_Modified := now,
       fm_Permissions := perm, fm_ChunkSize := CalculateChunkSize (length content),
       fm_FileHash := sha256 H content, fm_TotalChunks := n\<rparr>"

lemma on_disk_ticked:
  assumes "reliable (ks_disk ks)"
  shows "on_disk os_Access ks = (ticked ks, True)"
    "on_disk (os_ReadFile p) ks = (ticked ks, file_at (ks_disk ks) p)"
    "file_at (ks_disk ks) p \<noteq> None \<Longrightarrow> on_disk (os_Stat p) ks = (ticked ks, Present)"
    "reliable (ks_disk (ticked ks))"
  using assms by (simp_all add: os_reliable on_disk_def os_Stat_def ticked_def)

lemma WriteChunk_references [simp]:
  "ks_references (fst (WriteChunkToDisk H c b ks)) = ks_references ks"
  using WriteChunk_cases [of H c b ks, OF surjective_pairing] by blast

lemma ticked_fields [simp]:
  "ks_references (ticked ks) = ks_references ks" "file_at (ks_disk (ticked ks)) = file_at (ks_disk ks)"
  by (simp_all add: ticked_def)

lemma put_all_references [simp]:
  "ks_references (loaded.put_all H cbs ks) = ks_references ks"
  "ks_references (written.put_all H cbs ks) = ks_references ks"
  by (induction cbs arbitrary: ks) auto

lemma put_all_files:
  assumes "p \<notin> range (chunkPath ks)"
  shows "file_at (ks_disk (loaded.put_all H cbs ks)) p = file_at (ks_disk ks) p"
    and "file_at (ks_disk (written.put_all H cbs ks)) p = file_at (ks_disk ks) p"
proof -
  have step: "chunkPath (fst (WriteChunkToDisk H c b ks)) = chunkPath ks" "chunkPath (ticked ks) = chunkPath ks" for c b ks
    using WriteChunk_cases [of H c b ks, OF surjective_pairing]
    by (auto intro: storage_cong(1) simp: touches_def ticked_def)
  have "\<forall>k. p \<noteq> chunkPath ks k" using assms by blast
  then show "file_at (ks_disk (loaded.put_all H cbs ks)) p = file_at (ks_disk ks) p"
    and "file_at (ks_disk (written.put_all H cbs ks)) p = file_at (ks_disk ks) p"
    by (induction cbs arbitrary: ks) (auto simp: step file_at_WriteChunk)
qed

lemma LoadAndStoreFile_reliable:
  assumes "store_ok dir ks" and "file_at (ks_disk ks) path = Some content"
    and "path \<notin> range (chunkPath (in_dir dir))" and "content \<noteq> []" and "length content < 2 ^ 47"
    and "inj_on (\<lambda>i. sha1 H (sha256 H content @ le64 i)) {i. i * CalculateChunkSize (length content) < length content}"
    and "\<And>f. None \<notin> set (fr_Chunks f) \<Longrightarrow> toml_encode H f \<noteq> None"
  obtains n ks' m where "m = loaded_meta H now perm path content n"
    and "LoadAndStoreFile H now perm path ks
      = (ks', Inr \<lparr>fr_MetaData = m, fr_Chunks = file_chunks H dir (loaded_chunk H m content) n\<rparr>)"
    and "stores H dir (loaded_chunk H m content) n m ks ks'"
    and "cut (CalculateChunkSize (length content)) n (length content)"
proof -
  let ?c = "CalculateChunkSize (length content)"
  obtain n where n: "total_chunks (length content) ?c = (Inr n :: (ks_error, nat) go)"
    "cut ?c n (length content)" "{..<n} = {i. i * ?c < length content}"
    using chunk_cut assms(4,5) by (metis length_greater_0_conv)
  define m where "m = loaded_meta H now perm path content n"
  let ?cb = "loaded_chunk H m content"
  have m: "fm_ChunkSize m = ?c" "fm_TotalChunks m = n" "fm_TotalSize m = length content"
    "fm_FileHash m = sha256 H content" by (simp_all add: m_def loaded_meta_def)
  define ks1 where "ks1 = ticked (ticked (ticked (ticked ks)))"
  have ok1: "store_ok dir ks1" and src1: "file_at (ks_disk ks1) path = Some content"
    using assms(1,2) by (simp_all add: ks1_def)
  have key: "fc_Key (fst (?cb i)) = sha1 H (sha256 H content @ le64 i)" for i
    by (simp add: loaded_chunk_def Let_def updateKey_def m)
  define ks2 where "ks2 = loaded.put_all H (map ?cb [0..<n]) ks1"
  have "load_chunks H m path [0..<n] 0 [] ks1 = (ks2, Inr (length content, map (at_home H dir \<circ> ?cb) [0..<n]))"
    using load_chunks_reliable [OF ok1 src1 assms(3), of m 0 H "[]"] n(2) by (simp add: m ks2_def)
  note load = this
  note h = loaded_holds [OF ok1, where cb = ?cb and H = H and n = n, folded ks2_def]
  have h2: "holds H dir ?cb n ks2" 
  proof (rule h(2))
    show "fc_Key (fst (?cb j)) \<noteq> fc_Key (fst (?cb i))" if "i < j" "j < n" for i j
      using inj_onD [OF assms(6), of j i] that unfolding key by (auto simp flip: n(3))
  qed simp
  moreover have "chunk_at k ks2 = chunk_at k ks" if "k \<notin> (\<lambda>i. fc_Key (fst (?cb i))) ` {..<n}" for k
    using h(3) [OF _ that] by (simp add: ks1_def)
  moreover have "ks_references ks2 = ks_references ks"
    by (simp add: ks2_def ks1_def)
  moreover have files: "file_at (ks_disk ks2) p = file_at (ks_disk ks) p" if "p \<notin> range (chunkPath ks)" for p
  proof -
    have "chunkPath ks1 = chunkPath ks" by (rule storage_cong(1)) (simp add: ks1_def ticked_def)
    then show ?thesis unfolding ks2_def using that by (simp add: put_all_files(1)) (simp add: ks1_def)
  qed
  moreover have "reg_grows ((\<lambda>i. fc_Key (fst (?cb i))) ` {..<n}) ks ks2"
    using put_all_upt_grows(1) [of ?cb n ks1 H] by (simp add: reg_grows_def ks2_def ks1_def ticked_def)
  ultimately obtain ks' where u: "updateReference H \<lparr>fr_MetaData = m, fr_Chunks = file_chunks H dir ?cb n\<rparr> ks2
      = (ks', Inr \<lparr>fr_MetaData = m, fr_Chunks = file_chunks H dir ?cb n\<rparr>)" "stores H dir ?cb n m ks ks'"
    using finish_store_reliable [OF _ h2, of ks m] h(1) assms(1,7) files by (auto simp: store_ok_def)
  have rel: "reliable (ks_disk ks)" using assms(1) by (simp add: store_ok_def)
  have "LoadAndStoreFile H now perm path ks
      = (ks', Inr \<lparr>fr_MetaData = m, fr_Chunks = file_chunks H dir ?cb n\<rparr>)"
    unfolding LoadAndStoreFile_def
    using rel assms(2) n(1) load u(1) unfolding ks1_def m_def loaded_meta_def
    by (simp add: on_disk_ticked Let_def file_chunks_def o_def map_map)
  with m_def show thesis using u(2) n(2) by (rule that)
qed

definition written_meta :: "libs \<Rightarrow> int \<Rightarrow> string \<Rightarrow> bytes \<Rightarrow> int \<Rightarrow> nat \<Rightarrow> file_meta" where
  "written_meta H now name content permissions n =
     blank_meta\<lparr>fm_Permissions := (if permissions = 0 then default_permissions else nat (permissions mod 2 ^ 32)),
       fm_TotalSize := length content, fm_TTL := 24 * 60 * 60, fm_FileName := name, fm_Modified := now,
       fm_ChunkSize := CalculateChunkSize (length content), fm_TotalChunks := n,
       fm_FileHash := sha256 H content\<rparr>"

lemma prepareMetaData_cut:
  assumes "length content < 2 ^ 47"
    and "total_chunks (length content) (CalculateChunkSize (length content)) = (Inr n :: (ks_error, nat) go)"
  shows "\<exists>m0. prepareMetaData now name content permissions = (Inr m0 :: (ks_error, file_meta) go)
    \<and> m0\<lparr>fm_FileHash := sha256 H content\<rparr> = written_meta H now name content permissions n"
proof -
  have "u64 (length content) = length content" using assms(1) by simp
  then show ?thesis using assms(2) by (simp add: prepareMetaData_def Let_def written_meta_def)
qed

text \<open>The loop of \<open>WriteFileToDisk\<close>, whatever the keys.\<close>

lemma WriteFileToDisk_loop:
  assumes "store_ok dir ks" and "content \<noteq> []" and "length content < 2 ^ 47"
  obtains n m where "m = written_meta H now name content permissions n"
    and "cut (CalculateChunkSize (length content)) n (length content)"
    and "{..<n} = {i. i * CalculateChunkSize (length content) < length content}"
    and "WriteFileToDisk H now name content permissions ks =
      (case updateReference H \<lparr>fr_MetaData = m, fr_Chunks = file_chunks H dir (written_chunk H m content) n\<rparr>
          (written.put_all H (map (written_chunk H m content) [0..<n]) ks) of
         (ks', Inl _) \<Rightarrow> (delete_chunks (map (\<lambda>i. fc_Key (at_home H dir (written_chunk H m content i))) [0..<n]) ks',
                        Inl (Err StoreMetadataFailed))
       | (ks', Inr f) \<Rightarrow> (ks', Inr f))"
proof -
  let ?c = "CalculateChunkSize (length content)"
  obtain n where n: "total_chunks (length content) ?c = (Inr n :: (ks_error, nat) go)"
    "cut ?c n (length content)" "{..<n} = {i. i * ?c < length content}"
    using chunk_cut assms(2,3) by (metis length_greater_0_conv)
  define m where "m = written_meta H now name content permissions n"
  let ?cb = "written_chunk H m content"
  have m: "fm_ChunkSize m = ?c" "fm_TotalChunks m = n" "fm_TotalSize m = length content"
    by (simp_all add: m_def written_meta_def)
  obtain m0 where m0: "prepareMetaData now name content permissions = (Inr m0 :: (ks_error, file_meta) go)"
    "m0\<lparr>fm_FileHash := sha256 H content\<rparr> = m"
    using prepareMetaData_cut [OF assms(3) n(1)] unfolding m_def by blast
  have w: "write_chunks H m content [0..<n] 0 [] ks
      = (written.put_all H (map ?cb [0..<n]) ks, Inr (length content, map (at_home H dir \<circ> ?cb) [0..<n]))"
    using write_chunks_reliable [OF assms(1), of m content 0 H "[]"] n(2) m by simp
  show thesis
    by (rule that [OF m_def n(2,3)])
      (simp add: WriteFileToDisk_def m0 Let_def w m file_chunks_def o_def)
qed

lemma WriteFileToDisk_reliable:
  assumes "store_ok dir ks" and "content \<noteq> []" and "length content < 2 ^ 47"
    and "inj_on (\<lambda>i. sha1 H (sha256 H content @ [word_of_nat i])) {i. i * CalculateChunkSize (length content) < length content}"
    and "\<And>f. None \<notin> set (fr_Chunks f) \<Longrightarrow> toml_encode H f \<noteq> None"
  obtains n ks' m where "m = written_meta H now name content permissions n"
    and "WriteFileToDisk H now name content permissions ks
      = (ks', Inr \<lparr>fr_MetaData = m, fr_Chunks = file_chunks H dir (written_chunk H m content) n\<rparr>)"
    and "stores H dir (written_chunk H m content) n m ks ks'"
    and "cut (CalculateChunkSize (length content)) n (length content)"
proof -
  obtain n m where n: "m = written_meta H now name content permissions n"
    "cut (CalculateChunkSize (length content)) n (length content)"
    "{..<n} = {i. i * CalculateChunkSize (length content) < length content}"
    and w: "WriteFileToDisk H now name content permissions ks =
      (case updateReference H \<lparr>fr_MetaData = m, fr_Chunks = file_chunks H dir (written_chunk H m content) n\<rparr>
          (written.put_all H (map (written_chunk H m content) [0..<n]) ks) of
         (ks', Inl _) \<Rightarrow> (delete_chunks (map (\<lambda>i. fc_Key (at_home H dir (written_chunk H m content i))) [0..<n]) ks',
                        Inl (Err StoreMetadataFailed))
       | (ks', Inr f) \<Rightarrow> (ks', Inr f))"
    using WriteFileToDisk_loop [OF assms(1-3)] .
  let ?cb = "written_chunk H m content"
  define ks1 where "ks1 = written.put_all H (map ?cb [0..<n]) ks"
  have key: "fc_Key (fst (?cb i)) = sha1 H (sha256 H content @ [word_of_nat i])" for i
    by (simp add: written_chunk_def Let_def n(1) written_meta_def)
  note h = written_holds [OF assms(1), where cb = ?cb and H = H and n = n, folded ks1_def]
  have h2: "holds H dir ?cb n ks1" 
  proof (rule h(2))
    show "fc_Key (fst (?cb j)) \<noteq> fc_Key (fst (?cb i))" if "i < j" "j < n" for i j
      using inj_onD [OF assms(4), of j i] that unfolding key by (auto simp flip: n(3))
  qed simp
  obtain ks' where "updateReference H \<lparr>fr_MetaData = m, fr_Chunks = file_chunks H dir ?cb n\<rparr> ks1
      = (ks', Inr \<lparr>fr_MetaData = m, fr_Chunks = file_chunks H dir ?cb n\<rparr>)" "stores H dir ?cb n m ks ks'"
    using finish_store_reliable [OF _ h2, of ks m] h(1,3) assms(1,5) put_all_files(2) put_all_upt_grows(2)
    by (auto simp: ks1_def store_ok_def)
  then show thesis using that n w by (simp add: ks1_def)
qed

section \<open>The store as a map from hashes to contents\<close>

definition contents :: "libs \<Rightarrow> key_store \<Rightarrow> bytes \<Rightarrow> bytes option" where
  "contents H ks h = (case snd (ReassembleFileFromDisk H h ks) of Inl _ \<Rightarrow> None | Inr b \<Rightarrow> Some b)"

text \<open>No file stored under another hash uses one of the keys.\<close>

definition unused_keys :: "bytes set \<Rightarrow> bytes \<Rightarrow> key_store \<Rightarrow> bool" where
  "unused_keys keys hash ks \<longleftrightarrow> (\<forall>h f c. map_of (ks_references ks) h = Some f \<longrightarrow> h \<noteq> hash
     \<longrightarrow> Some c \<in> set (fr_Chunks f) \<longrightarrow> fc_Key c \<notin> keys)"

lemma unused_keys_mono: "unused_keys K h ks \<Longrightarrow> K' \<subseteq> K \<Longrightarrow> unused_keys K' h ks"
  unfolding unused_keys_def by blast

lemma stores_contents:
  assumes "stores H dir cb n m ks ks'" and "store_ok dir ks"
    and "unused_keys ((\<lambda>i. fc_Key (fst (cb i))) ` {..<n}) (fm_FileHash m) ks"
    and "cut (fm_ChunkSize m) n (length content)" and "fm_TotalSize m = length content"
    and "fm_FileHash m = sha256 H content"
    and "\<And>i. snd (cb i) = piece (fm_ChunkSize m) content i"
    and "\<And>i. fc_Size (fst (cb i)) = u32 (length (snd (cb i)))"
  shows "contents H ks' = (contents H ks)(sha256 H content \<mapsto> content)"
proof
  fix h
  have ok: "store_ok dir ks'" and refs: "map_of (ks_references ks') = (map_of (ks_references ks))
         (fm_FileHash m \<mapsto> \<lparr>fr_MetaData = m, fr_Chunks = file_chunks H dir cb n\<rparr>)"
    and holds: "holds H dir cb n ks'"
    and other: "\<And>k. k \<notin> (\<lambda>i. fc_Key (fst (cb i))) ` {..<n} \<Longrightarrow> chunk_at k ks' = chunk_at k ks"
    using assms(1) by (auto simp: stores_def)
  show "contents H ks' h = ((contents H ks)(sha256 H content \<mapsto> content)) h"
  proof (cases "h = fm_FileHash m")
    case True
    let ?r = "\<lambda>i. at_home H dir (cb i)"
    have "names_pieces H (fm_ChunkSize m) n content ?r ks'"
      using holds assms(7,8) by (auto simp: names_pieces_def holds_def at_home_def placed_def)
    then have "snd (ReassembleFileFromDisk H h ks') = Inr content"
      using assms(4-6) True
      by (intro Reassemble_reliable [OF ok, of h "\<lparr>fr_MetaData = m, fr_Chunks = file_chunks H dir cb n\<rparr>" ?r n])
        (simp_all add: refs file_chunks_def)
    then show ?thesis using True assms(6) by (simp add: contents_def)
  next
    case False
    have "snd (ReassembleFileFromDisk H h ks') = snd (ReassembleFileFromDisk H h ks)"
    proof (rule Reassemble_frame [OF ok assms(2)])
      show "map_of (ks_references ks') h = map_of (ks_references ks) h" using False refs by simp
      show "chunk_at (fc_Key c) ks' = chunk_at (fc_Key c) ks"
        if "map_of (ks_references ks') h = Some f" "Some c \<in> set (fr_Chunks f)" for f c
        using that False refs assms(3) by (intro other) (simp add: unused_keys_def)
    qed
    then show ?thesis using False assms(6) by (simp add: contents_def)
  qed
qed

section \<open>Copying a file out\<close>

lemma names_pieces_frame:
  "names_pieces H c n content r ks \<Longrightarrow> (\<And>k. chunk_at k ks' = chunk_at k ks) \<Longrightarrow> names_pieces H c n content r ks'"
  by (simp add: names_pieces_def)

text \<open>Writing outside the store leaves its chunks alone.\<close>

lemma outside_write:
  fixes b :: bytes
  assumes "store_ok dir ks" and "out \<notin> own_paths ks"
  defines "ks' \<equiv> ks\<lparr>ks_disk := put_file out b (tick (ks_disk ks))\<rparr>"
  shows "store_ok dir ks'" and "chunk_at k ks' = chunk_at k ks" and "own_paths ks' = own_paths ks"
    and "file_at (ks_disk ks') out = Some b"
proof -
  have ok: "registry_ok ks" using assms(1) by (simp add: store_ok_def)
  have out: "out \<noteq> ''''" "chunkPath ks k \<noteq> out" for k using assms(2) by (auto simp: own_paths_def)
  show "store_ok dir ks'" using assms(1)
    by (auto simp: ks'_def store_ok_def registry_ok_def chunkPath_def)
  show "chunk_at k ks' = chunk_at k ks"
    by (rule chunk_at_same_files [OF ok]) (use out in \<open>auto simp: ks'_def\<close>)
  show "own_paths ks' = own_paths ks"
    by (simp add: ks'_def own_paths_def chunkPath_def metadata_path_def metadata_dir_def)
  show "file_at (ks_disk ks') out = Some b" by (simp add: ks'_def)
qed

lemma own_paths_ticked [simp]: "own_paths (ticked ks) = own_paths ks"
  by (simp add: ticked_def own_paths_def chunkPath_def metadata_path_def metadata_dir_def)

lemma copy_chunks_reliable:
  assumes "names_pieces H c n content r ks" and "store_ok dir ks" and "cut c n (length content)"
    and "i \<le> n" and "out \<notin> own_paths ks" and "file_at (ks_disk ks) out = Some (take (i * c) content)"
  shows "\<exists>ks'. copy_chunks H out i (map (Some \<circ> r) [i..<n]) (min (i * c) (length content)) ks
      = (ks', Inr (length content)) \<and> reliable (ks_disk ks') \<and> file_at (ks_disk ks') out = Some content"
  using assms(4,1,2,5,6)
proof (induction arbitrary: ks rule: inc_induct)
  case base
  have "length content \<le> n * c" using assms(3) by (simp add: cut_def)
  then show ?case using base by (simp add: min.absorb2 store_ok_def)
next
  case (step i)
  define b where "b = piece c content i"
  have start: "i * c < length content" using cut_bounds(1) [OF assms(3) step(2)] .
  obtain st where st: "chunk_at (fc_Key (r i)) ks = Some (st, b)" "fc_DataHash st = sha256 H b"
    "fc_DataHash (r i) = sha256 H b" "fc_Size (r i) = u32 (length b)"
    using step(4) step(2) by (auto simp: names_pieces_def b_def)
  have g: "GetDataFromDisk H (fc_Key (r i)) ks = (ticked ks, Inr b)"
    using GetData_reliable [OF step(5) st(1)] st(2) by simp
  have upt: "[i..<n] = i # [Suc i..<n]" using step(2) by (simp add: upt_rec)
  have next_pos: "min (i * c) (length content) + length b = min (Suc i * c) (length content)"
    using start by (auto simp: b_def piece_simps)
  have all: "take (i * c) content @ b = take (Suc i * c) content"
    unfolding b_def piece_def mult_Suc add.commute [of c] take_add ..
  let ?ks1 = "(ticked ks)\<lparr>ks_disk := put_file out (take (Suc i * c) content) (tick (ks_disk (ticked ks)))\<rparr>"
  have "reliable (ks_disk (ticked ks))" using step(5) by (simp add: store_ok_def ticked_def)
  then have a: "on_disk (os_Append out b) (ticked ks) = (?ks1, True)"
    using step(7) by (simp add: on_disk_def os_reliable all)
  have ok: "store_ok dir (ticked ks)" "out \<notin> own_paths (ticked ks)" using step(5,6) by simp_all
  note w = outside_write [OF ok, where b = "take (Suc i * c) content"]
  have names: "names_pieces H c n content r ?ks1"
    using step(4) by (rule names_pieces_frame) (simp only: w(2) ticked_simps)
  have out1: "out \<notin> own_paths ?ks1" unfolding w(3) using ok(2) .
  show ?case using step(3) [OF names w(1) out1 w(4)] g st a next_pos unfolding upt by (simp add: o_def)
qed

lemma CopyFileToPath_reliable:
  assumes "store_ok dir ks" and "map_of (ks_references ks) h = Some f"
    and "fr_Chunks f = map (Some \<circ> r) [0..<n]"
    and "names_pieces H c n content r ks" and "cut c n (length content)"
    and "fm_TotalSize (fr_MetaData f) = length content" and "fm_FileHash (fr_MetaData f) = sha256 H content"
    and "out \<notin> own_paths ks"
  shows "\<exists>ks'. CopyFileToPath H h out ks = (ks', Inr ()) \<and> file_at (ks_disk ks') out = Some content"
proof -
  let ?ks1 = "ks\<lparr>ks_disk := put_file out [] (tick (ks_disk ks))\<rparr>"
  note w = outside_write [OF assms(1,8), where b = "[]"]
  have created: "on_disk (os_WriteFile out []) ks = (?ks1, True)"
    using assms(1) by (simp add: store_ok_def on_reliable)
  have names: "names_pieces H c n content r ?ks1"
    using assms(4) by (rule names_pieces_frame) (simp add: w(2))
  obtain ks2 where ks2: "copy_chunks H out 0 (fr_Chunks f) 0 ?ks1 = (ks2, Inr (length content))"
    "reliable (ks_disk ks2)" "file_at (ks_disk ks2) out = Some content"
    using copy_chunks_reliable [OF names w(1) assms(5), of 0 out] w(3,4) assms(3,8) by auto
  have "HashFile H out (ticked ks2)
      = (ticked (ticked (ticked (ticked ks2))), Inr (sha256 H content, length content))"
    using ks2(2,3) by (simp add: HashFile_def on_disk_ticked Let_def)
  then show ?thesis using assms(2,6,7) created ks2
    by (simp add: CopyFileToPath_def ReferenceFromMemory_def on_disk_ticked)
qed

lemma stores_copy:
  assumes "stores H dir cb n m ks ks'"
    and "cut (fm_ChunkSize m) n (length content)" and "fm_TotalSize m = length content"
    and "fm_FileHash m = sha256 H content"
    and "\<And>i. snd (cb i) = piece (fm_ChunkSize m) content i"
    and "\<And>i. fc_Size (fst (cb i)) = u32 (length (snd (cb i)))"
    and "out \<notin> own_paths ks'"
  shows "\<exists>ks''. CopyFileToPath H (sha256 H content) out ks' = (ks'', Inr ())
    \<and> file_at (ks_disk ks'') out = Some content"
proof -
  let ?f = "\<lparr>fr_MetaData = m, fr_Chunks = file_chunks H dir cb n\<rparr>"
  have s: "store_ok dir ks'" "map_of (ks_references ks') (sha256 H content) = Some ?f" "holds H dir cb n ks'"
    using assms(1,4) by (auto simp: stores_def)
  have names: "names_pieces H (fm_ChunkSize m) n content (\<lambda>i. at_home H dir (cb i)) ks'"
    using s(3) assms(5,6) by (auto simp: names_pieces_def holds_def at_home_def placed_def)
  have chunks: "fr_Chunks ?f = map (Some \<circ> (\<lambda>i. at_home H dir (cb i))) [0..<n]"
    by (simp add: file_chunks_def)
  show ?thesis
    using CopyFileToPath_reliable [OF s(1,2) chunks names assms(2)] assms(3,4,7) by simp
qed

section \<open>Properties\<close>

text \<open>The chunk indices of a file of \<open>s\<close> bytes.\<close>

definition indices :: "nat \<Rightarrow> nat set" where
  "indices s = {i. i * CalculateChunkSize s < s}"

text \<open>
  C23. The key store refines a map from file hashes to contents. On a disk that works, storing a file with
  \<open>LoadAndStoreFile\<close> succeeds for every non-empty file (below 128 TiB) whose chunk keys do not
  collide, and then the map that reassembling computes is the old one with the content entered
  under its SHA-256 hash: the file reads back, and all other files read as before. Copying the file out
  puts the same content at the output path.
\<close>

theorem LoadAndStoreFile_refines_map:
  assumes "store_ok dir ks" and "file_at (ks_disk ks) path = Some content"
    and "path \<notin> range (chunkPath (in_dir dir))" and "content \<noteq> []" and "length content < 2 ^ 47"
    and "inj_on (\<lambda>i. sha1 H (sha256 H content @ le64 i)) (indices (length content))"
    and "unused_keys ((\<lambda>i. sha1 H (sha256 H content @ le64 i)) ` indices (length content)) (sha256 H content) ks"
    and "\<And>f. None \<notin> set (fr_Chunks f) \<Longrightarrow> toml_encode H f \<noteq> None"
  shows "\<exists>ks' f. LoadAndStoreFile H now perm path ks = (ks', Inr f) \<and> store_ok dir ks'
    \<and> contents H ks' = (contents H ks)(sha256 H content \<mapsto> content)
    \<and> (\<forall>out. out \<notin> own_paths ks' \<longrightarrow> (\<exists>ks''. CopyFileToPath H (sha256 H content) out ks' = (ks'', Inr ())
          \<and> file_at (ks_disk ks'') out = Some content))"
proof -
  obtain n ks' m where m: "m = loaded_meta H now perm path content n"
    and s: "LoadAndStoreFile H now perm path ks
      = (ks', Inr \<lparr>fr_MetaData = m, fr_Chunks = file_chunks H dir (loaded_chunk H m content) n\<rparr>)"
      "stores H dir (loaded_chunk H m content) n m ks ks'"
    and cut: "cut (CalculateChunkSize (length content)) n (length content)"
    using LoadAndStoreFile_reliable [OF assms(1-5) assms(6) [unfolded indices_def] assms(8)] .
  let ?cb = "loaded_chunk H m content"
  have f: "fm_ChunkSize m = CalculateChunkSize (length content)" "fm_TotalSize m = length content"
    "fm_FileHash m = sha256 H content" by (simp_all add: m loaded_meta_def)
  have cb: "snd (?cb i) = piece (fm_ChunkSize m) content i"
    "fc_Key (fst (?cb i)) = sha1 H (sha256 H content @ le64 i)" for i
    by (simp_all add: loaded_chunk_def Let_def updateKey_def f)
  have "{..<n} \<subseteq> indices (length content)" using cut_bounds(1) [OF cut] by (auto simp: indices_def)
  then have unused: "unused_keys ((\<lambda>i. fc_Key (fst (?cb i))) ` {..<n}) (fm_FileHash m) ks"
    unfolding cb f by (intro unused_keys_mono [OF assms(7)] image_mono)
  show ?thesis
    using s stores_contents [OF s(2) assms(1) unused cut [folded f(1)] f(2,3) cb(1) loaded_chunk_fits]
      stores_copy [OF s(2) cut [folded f(1)] f(2,3) cb(1) loaded_chunk_fits]
    by (auto simp: stores_def)
qed

text \<open>
  C26. Round trip of \<open>WriteFileToDisk\<close>: on a disk that works, content of any name and permissions whose
  chunk keys do not collide is stored, reads back under its hash without disturbing the
  other files, and is what copying it out produces.
\<close>

theorem WriteFileToDisk_round_trip:
  assumes "store_ok dir ks" and "content \<noteq> []" and "length content < 2 ^ 47"
    and "inj_on (\<lambda>i. sha1 H (sha256 H content @ [word_of_nat i])) (indices (length content))"
    and "unused_keys ((\<lambda>i. sha1 H (sha256 H content @ [word_of_nat i])) ` indices (length content)) (sha256 H content) ks"
    and "\<And>f. None \<notin> set (fr_Chunks f) \<Longrightarrow> toml_encode H f \<noteq> None"
  shows "\<exists>ks' f. WriteFileToDisk H now name content permissions ks = (ks', Inr f) \<and> store_ok dir ks'
    \<and> contents H ks' = (contents H ks)(sha256 H content \<mapsto> content)
    \<and> (\<forall>out. out \<notin> own_paths ks' \<longrightarrow> (\<exists>ks''. CopyFileToPath H (sha256 H content) out ks' = (ks'', Inr ())
          \<and> file_at (ks_disk ks'') out = Some content))"
proof -
  obtain n ks' m where m: "m = written_meta H now name content permissions n"
    and s: "WriteFileToDisk H now name content permissions ks
      = (ks', Inr \<lparr>fr_MetaData = m, fr_Chunks = file_chunks H dir (written_chunk H m content) n\<rparr>)"
      "stores H dir (written_chunk H m content) n m ks ks'"
    and cut: "cut (CalculateChunkSize (length content)) n (length content)"
    using WriteFileToDisk_reliable [OF assms(1-3) assms(4) [unfolded indices_def] assms(6)] .
  let ?cb = "written_chunk H m content"
  have f: "fm_ChunkSize m = CalculateChunkSize (length content)" "fm_TotalSize m = length content"
    "fm_FileHash m = sha256 H content" by (simp_all add: m written_meta_def)
  have cb: "snd (?cb i) = piece (fm_ChunkSize m) content i"
    "fc_Key (fst (?cb i)) = sha1 H (sha256 H content @ [word_of_nat i])" for i
    by (simp_all add: written_chunk_def Let_def f)
  have "{..<n} \<subseteq> indices (length content)" using cut_bounds(1) [OF cut] by (auto simp: indices_def)
  then have unused: "unused_keys ((\<lambda>i. fc_Key (fst (?cb i))) ` {..<n}) (fm_FileHash m) ks"
    unfolding cb f by (intro unused_keys_mono [OF assms(5)] image_mono)
  show ?thesis
    using s stores_contents [OF s(2) assms(1) unused cut [folded f(1)] f(2,3) cb(1) written_chunk_fits]
      stores_copy [OF s(2) cut [folded f(1)] f(2,3) cb(1) written_chunk_fits]
    by (auto simp: stores_def)
qed

section \<open>When the metadata cannot be written\<close>

lemma deleteData_reliable:
  assumes "store_ok dir ks" and "chunk_at k ks = Some (c, b)" and "fc_Location c = chunkPath ks k"
  shows "deleteDataFromDisk k ks =
    (ks\<lparr>ks_disk := drop_file (chunkPath ks k) (tick (ks_disk ks)), ks_registry := AList.delete k (ks_registry ks)\<rparr>, Inr ())"
  using assms
  by (auto simp: deleteDataFromDisk_def chunk_at_def store_ok_def on_disk_def os_reliable split: option.splits)

lemma delete_chunks_reliable:
  assumes "store_ok dir ks" and "distinct keys"
    and "\<And>k. k \<in> set keys \<Longrightarrow> \<exists>c b. chunk_at k ks = Some (c, b) \<and> fc_Location c = chunkPath ks k"
  shows "map_of (ks_registry (delete_chunks keys ks)) = (map_of (ks_registry ks)) |` (- set keys)
    \<and> (\<forall>k \<in> set keys. file_at (ks_disk (delete_chunks keys ks)) (chunkPath (delete_chunks keys ks) k) = None)
    \<and> (\<forall>p. p \<notin> chunkPath ks ` set keys \<longrightarrow> file_at (ks_disk (delete_chunks keys ks)) p = file_at (ks_disk ks) p)
    \<and> store_ok dir (delete_chunks keys ks)"
  using assms
proof (induction keys arbitrary: ks)
  case Nil
  then show ?case by (simp add: delete_chunks_def)
next
  case (Cons k keys)
  obtain c b where c: "chunk_at k ks = Some (c, b)" "fc_Location c = chunkPath ks k"
    using Cons.prems(3) [of k] by auto
  define ks1 where "ks1 = fst (deleteDataFromDisk k ks)"
  note d = deleteData_reliable [OF Cons.prems(1) c]
  have ks1: "ks1 = ks\<lparr>ks_disk := drop_file (chunkPath ks k) (tick (ks_disk ks)),
      ks_registry := AList.delete k (ks_registry ks)\<rparr>" by (simp add: ks1_def d)
  have path: "chunkPath ks1 = chunkPath ks" by (rule storage_cong(1)) (simp add: ks1)
  have ok: "store_ok dir ks1" unfolding ks1_def
    using Cons.prems(1) by (intro store_ok_tidy [OF Cons.prems(1) deleteData_tidy [OF surjective_pairing]])
      (simp add: store_ok_def)
  have still: "\<exists>c b. chunk_at k' ks1 = Some (c, b) \<and> fc_Location c = chunkPath ks1 k'" if "k' \<in> set keys" for k'
  proof -
    have "k' \<noteq> k" using that Cons.prems(2) by auto
    then show ?thesis using Cons.prems(3) [of k'] that
      unfolding path by (auto simp: chunk_at_def ks1 delete_conv' split: option.splits)
  qed
  have step: "delete_chunks (k # keys) ks = delete_chunks keys ks1"
    by (simp add: delete_chunks_def ks1_def)
  note IH = Cons.IH [OF ok _ still, simplified path]
  have path2: "chunkPath (delete_chunks keys ks1) = chunkPath ks"
    using IH Cons.prems(1,2) by (intro storage_cong(1)) (auto simp: store_ok_def)
  have effect: "map_of (ks_registry ks1) = (map_of (ks_registry ks))(k := None)"
    "file_at (ks_disk ks1) = (file_at (ks_disk ks))(chunkPath ks k := None)"
    by (simp_all add: ks1 delete_conv')
  have "chunkPath ks k \<notin> chunkPath ks ` set keys" using Cons.prems(2) by auto
  then show ?case unfolding step path2 using IH Cons.prems(2)
    by (auto simp: path2 effect restrict_map_def fun_eq_iff)
qed

lemma updateReference_encode_fails:
  assumes "store_ok dir ks" and "live_chunks (ks_registry ks) (fr_Chunks f) = Inr cs"
    and "toml_encode H (f\<lparr>fr_Chunks := cs\<rparr>) = None"
  defines "h \<equiv> fm_FileHash (fr_MetaData f)"
  shows "updateReference H f ks =
    (ks\<lparr>ks_references := AList.update h (f\<lparr>fr_Chunks := cs\<rparr>) (ks_references ks),
        ks_disk := put_file (metadata_path ks h) [] (tick (tick (ks_disk ks)))\<rparr>, Inl (Err EncodeFailed))"
proof -
  have rel: "reliable (ks_disk ks)" using assms(1) by (simp add: store_ok_def)
  have path: "metadata_path (ks\<lparr>ks_references := R, ks_disk := d\<rparr>) h = metadata_path ks h" for R d
    by (simp add: metadata_path_def metadata_dir_def)
  show ?thesis
    using assms(2,3) rel path by (simp add: updateReference_def write_metadata_def on_reliable Let_def flip: h_def)
qed

lemma Reassemble_missing_chunk:
  assumes "map_of (ks_references ks) h = Some f" and "fr_Chunks f = Some c # cs"
    and "map_of (ks_registry ks) (fc_Key c) = None"
  shows "contents H ks h = None"
  using assms
  by (simp add: contents_def ReassembleFileFromDisk_def ReferenceFromMemory_def Let_def GetDataFromDisk_def)

text \<open>Chunks written, metadata refused: what the update of the reference and the cleanup after it leave.\<close>

lemma cleanup_after_refusal:
  fixes m :: file_meta
  assumes ok1: "store_ok dir ks1" and h1: "holds H dir cb n ks1" and inj: "inj_on (\<lambda>i. fc_Key (fst (cb i))) {..<n}"
    and enc: "\<And>f. toml_encode H f = None" and n: "0 < n"
  defines "f \<equiv> \<lparr>fr_MetaData = m, fr_Chunks = file_chunks H dir cb n\<rparr>"
  obtains ks2 ks' where "updateReference H f ks1 = (ks2, Inl (Err EncodeFailed))"
    and "ks' = delete_chunks (map (\<lambda>i. fc_Key (at_home H dir (cb i))) [0..<n]) ks2"
    and "\<forall>i<n. map_of (ks_registry ks') (fc_Key (fst (cb i))) = None
           \<and> file_at (ks_disk ks') (chunkPath ks' (fc_Key (fst (cb i)))) = None"
    and "map_of (ks_references ks') (fm_FileHash m) = Some f"
    and "contents H ks' (fm_FileHash m) = None"
    and "file_at (ks_disk ks') (metadata_path ks' (fm_FileHash m)) = Some []"
proof -
  let ?h = "fm_FileHash m"
  define key where "key i = fc_Key (fst (cb i))" for i
  have key: "fc_Key (at_home H dir (cb i)) = key i" for i by (simp add: key_def at_home_def placed_def)
  have dir: "ks_storage ks1 = ks_storage (in_dir dir)" using ok1 by (simp add: store_ok_def in_dir_def)
  define ks2 where "ks2 = ks1\<lparr>ks_references := AList.update ?h f (ks_references ks1),
      ks_disk := put_file (metadata_path ks1 ?h) [] (tick (tick (ks_disk ks1)))\<rparr>"
  have u: "updateReference H f ks1 = (ks2, Inl (Err EncodeFailed))"
    using updateReference_encode_fails [OF ok1, of f _ H] holds_live [OF h1] enc
    by (simp add: ks2_def f_def)
  have ok2: "store_ok dir ks2"
    using updateReference_tidy [OF u] store_ok_tidy [OF ok1] ok1 by (simp add: store_ok_def)
  have path: "chunkPath ks2 = chunkPath ks1" "metadata_path ks2 = metadata_path ks1"
    by (rule storage_cong; simp add: ks2_def)+
  have same: "chunk_at k ks2 = chunk_at k ks1" for k
    using ok1 by (intro chunk_at_same_files) (simp_all add: store_ok_def ks2_def)
  define keys where "keys = map key [0..<n]"
  have there: "\<exists>c b. chunk_at k ks2 = Some (c, b) \<and> fc_Location c = chunkPath ks2 k" if "k \<in> set keys" for k
    using that h1 storage_cong(1) [OF dir]
    by (auto simp: keys_def key_def same holds_def at_home_def placed_def path)
  have dist: "distinct keys" using inj by (simp add: keys_def key_def inj_on_def distinct_map atLeast0LessThan)
  note d = delete_chunks_reliable [OF ok2 dist there]
  define ks' where "ks' = delete_chunks keys ks2"
  have path': "metadata_path ks' = metadata_path ks2"
    using d ok2 by (intro storage_cong(2)) (auto simp: store_ok_def ks'_def)
  have refs: "map_of (ks_references ks') ?h = Some f"
    by (simp add: ks'_def delete_chunks_references ks2_def update_conv')
  have gone: "map_of (ks_registry ks') (key i) = None" "file_at (ks_disk ks') (chunkPath ks' (key i)) = None" if "i < n" for i
    using d that by (auto simp: ks'_def keys_def)
  have "fr_Chunks f = Some (at_home H dir (cb 0)) # map (\<lambda>i. Some (at_home H dir (cb i))) [1..<n]"
    using n by (simp add: f_def file_chunks_def upt_rec)
  then have "contents H ks' ?h = None"
    using gone n by (intro Reassemble_missing_chunk [OF refs]) (auto simp: key)
  moreover have metadata: "metadata_path ks1 ?h \<notin> chunkPath ks1 ` set keys" by auto
  moreover have "file_at (ks_disk ks') (metadata_path ks' ?h) = Some []"
    unfolding path' path using d metadata by (simp add: ks'_def path) (simp add: ks2_def)
  moreover have "ks' = delete_chunks (map (\<lambda>i. fc_Key (at_home H dir (cb i))) [0..<n]) ks2"
    by (simp add: ks'_def keys_def key)
  moreover have "\<forall>i<n. map_of (ks_registry ks') (fc_Key (fst (cb i))) = None
      \<and> file_at (ks_disk ks') (chunkPath ks' (fc_Key (fst (cb i)))) = None" using gone unfolding key_def by blast
  ultimately show thesis using that u refs by blast
qed

text \<open>
  When the metadata cannot be encoded, \<open>WriteFileToDisk\<close> reports it and its cleanup removes every chunk
  of the file from the registry and from the disk; but the reference stays in memory and an empty metadata
  file on the disk, so that the store goes on listing a file that no longer reads back.
\<close>

lemma WriteFileToDisk_metadata_failure:
  assumes "store_ok dir ks" and "content \<noteq> []" and "length content < 2 ^ 47"
    and "inj_on (\<lambda>i. sha1 H (sha256 H content @ [word_of_nat i])) (indices (length content))"
    and "\<And>f. toml_encode H f = None"
  shows "\<exists>ks' f. WriteFileToDisk H now name content permissions ks = (ks', Inl (Err StoreMetadataFailed))
    \<and> (\<forall>i \<in> indices (length content).
         map_of (ks_registry ks') (sha1 H (sha256 H content @ [word_of_nat i])) = None
         \<and> file_at (ks_disk ks') (chunkPath ks' (sha1 H (sha256 H content @ [word_of_nat i]))) = None)
    \<and> map_of (ks_references ks') (sha256 H content) = Some f
    \<and> contents H ks' (sha256 H content) = None
    \<and> file_at (ks_disk ks') (metadata_path ks' (sha256 H content)) = Some []"
proof -
  obtain n m where n: "m = written_meta H now name content permissions n"
    "cut (CalculateChunkSize (length content)) n (length content)"
    "{..<n} = {i. i * CalculateChunkSize (length content) < length content}"
    and w: "WriteFileToDisk H now name content permissions ks =
      (case updateReference H \<lparr>fr_MetaData = m, fr_Chunks = file_chunks H dir (written_chunk H m content) n\<rparr>
          (written.put_all H (map (written_chunk H m content) [0..<n]) ks) of
         (ks', Inl _) \<Rightarrow> (delete_chunks (map (\<lambda>i. fc_Key (at_home H dir (written_chunk H m content i))) [0..<n]) ks',
                        Inl (Err StoreMetadataFailed))
       | (ks', Inr f) \<Rightarrow> (ks', Inr f))"
    using WriteFileToDisk_loop [OF assms(1-3)] .
  let ?cb = "written_chunk H m content"
  have hash: "fm_FileHash m = sha256 H content" by (simp add: n(1) written_meta_def)
  have key: "fc_Key (fst (?cb i)) = sha1 H (sha256 H content @ [word_of_nat i])" for i
    by (simp add: written_chunk_def Let_def hash)
  have idx: "indices (length content) = {..<n}" by (simp add: indices_def n(3))
  have inj: "inj_on (\<lambda>i. fc_Key (fst (?cb i))) {..<n}" using assms(4) by (simp add: idx key)
  define ks1 where "ks1 = written.put_all H (map ?cb [0..<n]) ks"
  note h = written_holds [OF assms(1), where cb = ?cb and H = H and n = n, folded ks1_def]
  have ok1: "store_ok dir ks1" using h(1) by simp
  have h1: "holds H dir ?cb n ks1"
  proof (rule h(2))
    show "fc_Key (fst (?cb j)) \<noteq> fc_Key (fst (?cb i))" if "i < j" "j < n" for i j
      using inj_onD [OF inj, of j i] that by auto
  qed simp
  have "0 < n" using n(2) by (simp add: cut_def)
  obtain ks2 ks' where u: "updateReference H \<lparr>fr_MetaData = m, fr_Chunks = file_chunks H dir ?cb n\<rparr> ks1 = (ks2, Inl (Err EncodeFailed))"
    and ks': "ks' = delete_chunks (map (\<lambda>i. fc_Key (at_home H dir (?cb i))) [0..<n]) ks2"
    and after: "\<forall>i<n. map_of (ks_registry ks') (fc_Key (fst (?cb i))) = None
         \<and> file_at (ks_disk ks') (chunkPath ks' (fc_Key (fst (?cb i)))) = None"
      "map_of (ks_references ks') (sha256 H content) = Some \<lparr>fr_MetaData = m, fr_Chunks = file_chunks H dir ?cb n\<rparr>"
      "contents H ks' (sha256 H content) = None"
      "file_at (ks_disk ks') (metadata_path ks' (sha256 H content)) = Some []"
    using cleanup_after_refusal [where m = m, OF ok1 h1 inj assms(5) \<open>0 < n\<close>, unfolded hash] .
  have "WriteFileToDisk H now name content permissions ks = (ks', Inl (Err StoreMetadataFailed))"
    using w u by (simp add: ks' flip: ks1_def)
  then show ?thesis using after by (auto simp: idx key)
qed

section \<open>More than 256 chunks\<close>

text \<open>The last chunk whose index has the low byte of \<open>i\<close>.\<close>

definition latest :: "nat \<Rightarrow> nat \<Rightarrow> nat" where
  "latest s i = Max {j \<in> indices s. j mod 256 = i mod 256}"

lemma latest:
  assumes "finite (indices s)" and "i \<in> indices s"
  shows "latest s i \<in> indices s" and "latest s i mod 256 = i mod 256"
    and "j \<in> indices s \<Longrightarrow> latest s i < j \<Longrightarrow> j mod 256 \<noteq> i mod 256"
proof -
  let ?A = "{j \<in> indices s. j mod 256 = i mod 256}"
  have A: "finite ?A" "?A \<noteq> {}" using assms by auto
  show "latest s i \<in> indices s" "latest s i mod 256 = i mod 256"
    using Max_in [OF A] by (simp_all add: latest_def)
  show "j mod 256 \<noteq> i mod 256" if "j \<in> indices s" "latest s i < j"
    using Max_ge [OF A(1), of j] that by (auto simp: latest_def)
qed

lemma byte_eq_iff: "(word_of_nat i :: byte) = word_of_nat j \<longleftrightarrow> i mod 256 = j mod 256"
  by (simp add: word_of_nat_eq_iff take_bit_eq_mod)

text \<open>\<open>updateReference\<close> replaces every chunk by the registry's entry for its key.\<close>

lemma live_chunks_registry:
  "(\<And>c. Some c \<in> set cs \<Longrightarrow> \<exists>st. map_of reg (fc_Key c) = Some st \<and> fc_Key st = fc_Key c) \<Longrightarrow>
   live_chunks reg cs = Inr (map (map_option (\<lambda>c. the (map_of reg (fc_Key c)))) cs)"
proof (induction reg cs rule: live_chunks.induct)
  case (3 reg c cs)
  obtain st where st: "map_of reg (fc_Key c) = Some st" "fc_Key st = fc_Key c" using 3(2) [of c] by auto
  have "c\<lparr>fc_Location := fc_Location st, fc_DataHash := fc_DataHash st, fc_Protocol := fc_Protocol st,
      fc_FileName := fc_FileName st, fc_Size := fc_Size st, fc_FileIndex := fc_FileIndex st\<rparr> = st"
    using st(2) by (cases c; cases st) simp
  then show ?case using 3 st by auto
qed auto

text \<open>A chunk of full length is read back into its own slice, and nothing overwrites it later.\<close>

lemma reassemble_chunks_slices:
  "snd (reassemble_chunks H m i (map (Some \<circ> r) [i..<n]) buf w ks) = Inr (buf', w') \<Longrightarrow> store_ok dir ks \<Longrightarrow> i \<le> n
    \<Longrightarrow> take (i * fm_ChunkSize m) buf' = take (i * fm_ChunkSize m) buf \<and> length buf' = length buf
     \<and> (\<forall>j st b. i \<le> j \<and> j < n \<and> chunk_at (fc_Key (r j)) ks = Some (st, b) \<and> length b = fm_ChunkSize m
          \<and> Suc j * fm_ChunkSize m \<le> length buf \<longrightarrow> piece (fm_ChunkSize m) buf' j = b)"
proof (induction "n - i" arbitrary: i buf w ks)
  case 0
  then show ?case by auto
next
  case (Suc k)
  define c where "c = fm_ChunkSize m"
  have upt: "[i..<n] = i # [Suc i..<n]" using Suc(2) by (simp add: upt_rec)
  obtain ks1 g where g: "GetDataFromDisk H (fc_Key (r i)) ks = (ks1, g)" by fastforce
  then obtain b where b: "g = Inr b" and start: "i * c \<le> length buf"
    and rec: "snd (reassemble_chunks H m (Suc i) (map (Some \<circ> r) [Suc i..<n]) (overlay buf (i * c) b)
        (w + length b) ks1) = Inr (buf', w')"
    using Suc(3) unfolding upt c_def by (cases g) (auto split: if_splits simp: o_def)
  note d = GetData_chunk_at [OF Suc(4) g]
  let ?o = "overlay buf (i * c) b"
  have IH: "take (Suc i * c) buf' = take (Suc i * c) ?o" "length buf' = length ?o"
    "\<And>j st b'. Suc i \<le> j \<Longrightarrow> j < n \<Longrightarrow> chunk_at (fc_Key (r j)) ks = Some (st, b') \<Longrightarrow> length b' = c
        \<Longrightarrow> Suc j * c \<le> length ?o \<Longrightarrow> piece c buf' j = b'"
    using Suc(1) [OF _ rec] d Suc(2) by (auto simp: c_def)
  have len: "length buf' = length buf" using IH(2) start by simp
  have "take (i * c) buf' = take (i * c) (take (Suc i * c) buf')" by (simp add: take_take)
  also have "\<dots> = take (i * c) ?o" unfolding IH(1) by (simp add: take_take)
  also have "\<dots> = take (i * c) buf" using start by (simp add: overlay_def)
  finally have prefix: "take (i * c) buf' = take (i * c) buf" .
  have own: "piece c buf' i = b'"
    if "chunk_at (fc_Key (r i)) ks = Some (st, b')" "length b' = c" "Suc i * c \<le> length buf" for st b'
  proof -
    have "b = b'" using d b that(1) by (auto split: if_splits)
    have "piece c buf' i = drop (i * c) (take (Suc i * c) buf')"
      by (simp add: piece_def drop_take)
    also have "\<dots> = drop (i * c) (take (Suc i * c) ?o)" unfolding IH(1) ..
    also have "\<dots> = b'" using that(2,3) \<open>b = b'\<close> start by (simp add: overlay_def)
    finally show ?thesis .
  qed
  have "piece c buf' j = b'" if "i \<le> j" "j < n" "chunk_at (fc_Key (r j)) ks = Some (st, b')" "length b' = c"
    "Suc j * c \<le> length buf" for j st b'
    using own IH(3) that start by (cases "j = i") auto
  then show ?case using prefix len unfolding c_def by blast
qed

text \<open>After the loop: chunk \<open>i\<close> is found under its key as the last one with that key.\<close>

lemma collided_chunks:
  fixes content :: bytes and H :: libs
  defines "s \<equiv> length content" and "key \<equiv> \<lambda>i. sha1 H (sha256 H content @ [word_of_nat i])"
  assumes ok: "store_ok dir ks" and inj: "inj (\<lambda>b. sha1 H (sha256 H content @ [b]))"
    and m: "fm_FileHash m = sha256 H content" "fm_TotalSize m = s"
    and idx: "indices s = {..<n}"
    and cb: "cb = written_chunk H m content" and ks1: "ks1 = written.put_all H (map cb [0..<n]) ks"
  shows "fc_Key (at_home H dir (cb i)) = key i"
    and "i < n \<Longrightarrow> key (latest s i) = key i"
    and "i < n \<Longrightarrow> chunk_at (key i) ks1
      = Some (at_home H dir (cb (latest s i)), piece (fm_ChunkSize m) content (latest s i))"
    and "live_chunks (ks_registry ks1) (file_chunks H dir cb n)
      = Inr (map (\<lambda>i. Some (at_home H dir (cb (latest s i)))) [0..<n])"
proof -
  have k: "fc_Key (fst (cb i)) = key i" and kh: "fc_Key (at_home H dir (cb i)) = key i" for i
    by (simp_all add: key_def cb written_chunk_def Let_def m at_home_def placed_def)
  show "fc_Key (at_home H dir (cb i)) = key i" by (rule kh)
  have key_eq: "key i = key j \<longleftrightarrow> i mod 256 = j mod 256" for i j
    using inj_eq [OF inj] by (simp add: key_def byte_eq_iff)
  have fin: "finite (indices s)" by (simp add: idx)
  have lkey: "key (latest s i) = key i" if "i < n" for i
    using latest(2) [OF fin] that by (simp add: key_eq idx)
  show "i < n \<Longrightarrow> key (latest s i) = key i" by (rule lkey)
  have at: "chunk_at (key i) ks1 = Some (at_home H dir (cb (latest s i)), piece (fm_ChunkSize m) content (latest s i))"
    if i: "i < n" for i
  proof -
    have "i \<in> indices s" using that by (simp add: idx)
    note l = latest [OF fin this]
    have "chunk_at (fc_Key (fst (cb (latest s i)))) ks1
        = Some (placed H (in_dir dir) (fst (cb (latest s i))) (snd (cb (latest s i))), snd (cb (latest s i)))"
      unfolding ks1 using l by (intro written.put_all_upt(2) [OF ok]) (auto simp: k key_eq idx, simp add: cb)
    moreover have "snd (cb j) = piece (fm_ChunkSize m) content j" for j
      by (simp add: cb written_chunk_def Let_def m s_def)
    ultimately show ?thesis using lkey [OF i] by (simp add: k at_home_def)
  qed
  show "i < n \<Longrightarrow> chunk_at (key i) ks1
      = Some (at_home H dir (cb (latest s i)), piece (fm_ChunkSize m) content (latest s i))" by (rule at)
  have reg: "map_of (ks_registry ks1) (key i) = Some (at_home H dir (cb (latest s i)))" if "i < n" for i
    using at [OF that] by (auto simp: chunk_at_def split: option.splits)
  have "live_chunks (ks_registry ks1) (file_chunks H dir cb n)
      = Inr (map (map_option (\<lambda>c. the (map_of (ks_registry ks1) (fc_Key c)))) (file_chunks H dir cb n))"
    by (rule live_chunks_registry) (auto simp: file_chunks_def kh reg lkey)
  then show "live_chunks (ks_registry ks1) (file_chunks H dir cb n)
      = Inr (map (\<lambda>i. Some (at_home H dir (cb (latest s i)))) [0..<n])"
    by (simp add: file_chunks_def kh reg)
qed

text \<open>Chunks 256 apart have the same latest one; if the last chunk is short, the one 256 before it is not equal to it.\<close>

lemma latest_short:
  assumes idx: "indices s = {..<n}" and c: "c = CalculateChunkSize s" "cut c n s" and "256 < n" and "s mod c \<noteq> 0"
    and "length content = s"
  shows "n - 257 \<in> indices s" and "piece c content (n - 257) \<noteq> piece c content (latest s (n - 257))"
proof -
  let ?i = "n - 257"
  show i: "?i \<in> indices s" using assms(4) by (simp add: idx)
  have "n - 1 \<in> {j \<in> indices s. j mod 256 = ?i mod 256}"
  proof -
    have "n - 1 = ?i + 256" using assms(4) by simp
    then have "(n - 1) mod 256 = ?i mod 256" by (metis mod_add_self2)
    then show ?thesis using assms(4) by (simp add: idx)
  qed
  then have "latest s ?i = n - 1" unfolding latest_def by (intro Max_eqI) (auto simp: idx)
  moreover have "length (piece c content (n - 1)) \<noteq> c"
  proof
    assume "length (piece c content (n - 1)) = c"
    then have "n * c \<le> s" using c(2) assms(4,6) by (cases n) (auto simp: piece_simps cut_def)
    then have "s = n * c" using c(2) by (simp add: cut_def)
    then show False using assms(5) by simp
  qed
  moreover have "Suc ?i * c \<le> s" by (rule cut_bounds(2) [OF c(2)]) (use assms(4) in simp_all)
  then have "length (piece c content ?i) = c" using assms(6) by (simp add: piece_simps)
  ultimately show "piece c content ?i \<noteq> piece c content (latest s ?i)" by metis
qed

text \<open>
  C27. \<open>WriteFileToDisk\<close> makes the key of chunk \<open>i\<close> from the low byte of \<open>i\<close>, so chunks 256 apart share a key. Even on
  a disk that works and without any hash collision, a file is reported as stored although the references of
  such chunks are the same record and the store holds only the last one's data. The file reads back if and only if
  every chunk equals the last one with its key; a file of more than 256 chunks with a short last chunk never
  does, and one of 257 equal chunks does.
\<close>

theorem WriteFileToDisk_key_collision:
  fixes content :: bytes
  defines "s \<equiv> length content" and "c \<equiv> CalculateChunkSize (length content)"
  assumes "store_ok dir ks" and "content \<noteq> []" and "s < 2 ^ 47"
    and "inj (\<lambda>b. sha1 H (sha256 H content @ [b]))" and "\<And>f. None \<notin> set (fr_Chunks f) \<Longrightarrow> toml_encode H f \<noteq> None"
  shows "\<exists>ks' f. WriteFileToDisk H now name content permissions ks = (ks', Inr f)
    \<and> (\<forall>i \<in> indices s. fr_Chunks f ! i = fr_Chunks f ! latest s i
         \<and> (\<exists>st. chunk_at (sha1 H (sha256 H content @ [word_of_nat i])) ks' = Some (st, piece c content (latest s i))))
    \<and> (contents H ks' (sha256 H content) = Some content
        \<longleftrightarrow> (\<forall>i \<in> indices s. piece c content i = piece c content (latest s i)))
    \<and> (256 < card (indices s) \<longrightarrow> s mod c \<noteq> 0 \<longrightarrow> contents H ks' (sha256 H content) \<noteq> Some content)"
proof -
  obtain n m where n: "m = written_meta H now name content permissions n"
    "cut (CalculateChunkSize (length content)) n (length content)"
    "{..<n} = {i. i * CalculateChunkSize (length content) < length content}"
    and w: "WriteFileToDisk H now name content permissions ks =
      (case updateReference H \<lparr>fr_MetaData = m, fr_Chunks = file_chunks H dir (written_chunk H m content) n\<rparr>
          (written.put_all H (map (written_chunk H m content) [0..<n]) ks) of
         (ks', Inl _) \<Rightarrow> (delete_chunks (map (\<lambda>i. fc_Key (at_home H dir (written_chunk H m content i))) [0..<n]) ks',
                        Inl (Err StoreMetadataFailed))
       | (ks', Inr f) \<Rightarrow> (ks', Inr f))"
    using WriteFileToDisk_loop [OF assms(3,4) assms(5) [unfolded s_def]] .
  let ?cb = "written_chunk H m content"
  define key where "key i = sha1 H (sha256 H content @ [word_of_nat i])" for i :: nat
  have f: "fm_FileHash m = sha256 H content" "fm_ChunkSize m = c" "fm_TotalSize m = s"
    by (simp_all add: n(1) written_meta_def c_def s_def)
  have idx: "indices s = {..<n}" by (simp add: indices_def n(3) s_def)
  have fin: "finite (indices s)" by (simp add: idx)
  define ks1 where "ks1 = written.put_all H (map ?cb [0..<n]) ks"
  have ok1: "store_ok dir ks1" using written_holds(1) [OF assms(3), of ?cb H n] by (simp add: ks1_def)
  note col = collided_chunks [OF assms(3,6), of m n, folded s_def, OF f(1,3) idx refl refl, folded ks1_def key_def]
  define cs where "cs = map (\<lambda>i. Some (at_home H dir (?cb (latest s i)))) [0..<n]"
  have live: "live_chunks (ks_registry ks1) (fr_Chunks \<lparr>fr_MetaData = m, fr_Chunks = file_chunks H dir ?cb n\<rparr>) = Inr cs"
    using col(4) by (simp add: cs_def)
  let ?f = "\<lparr>fr_MetaData = m, fr_Chunks = cs\<rparr>"
  have enc: "toml_encode H ?f \<noteq> None" using assms(7) [of ?f] by (auto simp: cs_def)
  obtain ks' where u: "updateReference H \<lparr>fr_MetaData = m, fr_Chunks = file_chunks H dir ?cb n\<rparr> ks1 = (ks', Inr ?f)"
    "store_ok dir ks'" "\<And>k. chunk_at k ks' = chunk_at k ks1"
    "map_of (ks_references ks') = (map_of (ks_references ks1))(sha256 H content \<mapsto> ?f)"
    by (rule updateReference_reliable [OF ok1 live, of H]) (use enc in \<open>auto simp: f\<close>)
  have result: "WriteFileToDisk H now name content permissions ks = (ks', Inr ?f)"
    using w u(1) by (simp flip: ks1_def)
  have same: "fr_Chunks ?f ! i = fr_Chunks ?f ! latest s i" if "i \<in> indices s" for i
  proof -
    have "latest s (latest s i) = latest s i"
      using latest(2) [OF fin that] by (simp add: latest_def)
    then show ?thesis using that latest(1) [OF fin that] by (simp add: cs_def idx)
  qed
  let ?r = "\<lambda>i. at_home H dir (?cb (latest s i))"
  have at: "chunk_at (fc_Key (?r i)) ks' = Some (?r i, piece c content (latest s i))" if "i < n" for i
    using col(3) [OF that] u(3) that by (simp add: col(1,2) f)
  have cs: "cs = map (Some \<circ> ?r) [0..<n]" by (simp add: cs_def)
  have loop: "piece c content i = piece c content (latest s i)"
    if "contents H ks' (sha256 H content) = Some content" and i: "i \<in> indices s" for i
  proof -
    have w: "snd (reassemble_chunks H m 0 (map (Some \<circ> ?r) [0..<n]) (replicate s 0) 0 ks') = Inr (content, s)"
      using that(1) u(4) f unfolding cs [symmetric]
      by (auto simp: contents_def ReassembleFileFromDisk_def ReferenceFromMemory_def Let_def
          split: sum.splits prod.splits if_splits)
    have "held ?r ks' j = piece c content (latest s j)" if "j < n" for j using at [OF that] by (simp add: held_def)
    then have sum: "s = (\<Sum>j<n. length (piece c content (latest s j)))"
      using reassemble_chunks_read [OF w u(2)] by (simp add: atLeast0LessThan)
    have cutn: "cut c n s" using n(2) by (simp add: c_def s_def)
    have "n - 1 < n" using cutn by (simp add: cut_def)
    then have "latest s (n - 1) < n" "\<not> latest s (n - 1) < n - 1"
      using latest(1) [OF fin, of "n - 1"] latest(3) [OF fin, of "n - 1" "n - 1"] by (auto simp: idx)
    then have last: "latest s (n - 1) = n - 1" by linarith
    have full: "Suc j * c \<le> s" if "j < n" "j \<noteq> n - 1" for j using cut_bounds(2) [OF cutn that(1)] that by simp
    have p: "length (piece c content j) = min c (s - j * c)" for j by (simp add: piece_simps s_def)
    have le: "length (piece c content (latest s j)) \<le> length (piece c content j)" if "j < n" for j
      using full [OF that] last by (cases "j = n - 1") (auto simp: p)
    have eq: "length (piece c content (latest s j)) = length (piece c content j)" if "j < n" for j
    proof (rule ccontr)
      assume "length (piece c content (latest s j)) \<noteq> length (piece c content j)"
      then have "length (piece c content (latest s j)) < length (piece c content j)" using le [OF that] by simp
      then have "(\<Sum>j<n. length (piece c content (latest s j))) < (\<Sum>j<n. length (piece c content j))"
        using le that by (intro sum_strict_mono_ex1) auto
      then show False using sum cut_sum [OF cutn] by (simp add: p)
    qed
    show ?thesis
    proof (cases "i = n - 1")
      case False
      have i: "i < n" using that(2) by (simp add: idx)
      have "length (piece c content (latest s i)) = c" using eq [OF i] full [OF i False] by (simp add: p)
      then show ?thesis
        using reassemble_chunks_slices [OF w u(2)] at [OF i] full [OF i False] i by (auto simp: f)
    qed (simp add: last del: One_nat_def)
  qed
  have restored: "contents H ks' (sha256 H content) = Some content"
    if eq: "\<forall>i \<in> indices s. piece c content i = piece c content (latest s i)"
  proof -
    have "names_pieces H (fm_ChunkSize (fr_MetaData ?f)) n content ?r ks'"
      unfolding names_pieces_def
    proof (intro allI impI)
      fix i assume i: "i < n"
      have "snd (?cb (latest s i)) = piece c content (latest s i)" "fc_Size (fst (?cb (latest s i))) = u32 (length (snd (?cb (latest s i))))"
        by (simp_all add: written_chunk_def Let_def f s_def)
      then show "\<exists>stored. chunk_at (fc_Key (?r i)) ks' = Some (stored, piece (fm_ChunkSize (fr_MetaData ?f)) content i)
          \<and> fc_DataHash stored = sha256 H (piece (fm_ChunkSize (fr_MetaData ?f)) content i)
          \<and> fc_DataHash (?r i) = sha256 H (piece (fm_ChunkSize (fr_MetaData ?f)) content i)
          \<and> fc_Size (?r i) = u32 (length (piece (fm_ChunkSize (fr_MetaData ?f)) content i))"
        using at [OF i] eq i by (simp add: f idx at_home_def placed_def)
    qed
    from Reassemble_reliable [OF u(2) _ _ this, of "sha256 H content"] show ?thesis
      using u(4) n(2) cs by (simp add: contents_def f s_def c_def)
  qed
  have short: "contents H ks' (sha256 H content) \<noteq> Some content" if "256 < card (indices s)" "s mod c \<noteq> 0"
  proof -
    have many: "256 < n" using that(1) by (simp add: idx)
    have "cut c n s" "c = CalculateChunkSize s" "length content = s" using n(2) by (simp_all add: c_def s_def)
    from latest_short [OF idx this(2,1) many that(2) this(3)] show ?thesis using loop by blast
  qed
  have "\<exists>st. chunk_at (sha1 H (sha256 H content @ [word_of_nat i])) ks' = Some (st, piece c content (latest s i))"
    if "i \<in> indices s" for i
    using col(3) [of i] that u(3) [of "key i"] by (simp add: idx key_def f)
  then show ?thesis using result same loop restored short by blast
qed

section \<open>Concrete instances\<close>

lemma small_file: "indices 3 = {0}"
proof -
  have "CalculateChunkSize 3 = 3" by (simp add: CalculateChunkSize_def MinChunkSize_def)
  then show ?thesis by (auto simp: indices_def)
qed

lemmas small_files = small_file small_file [unfolded numeral_3_eq_3]

lemma demo_unused: "unused_keys keys h (demo_store files)"
  by (simp add: unused_keys_def)

lemma demo_libs_simps [simp]:
  "sha1 demo_libs b = b" "sha256 demo_libs b = b" "toml_encode demo_libs f = Some []"
  by (simp_all add: demo_libs_def)

theorem LoadAndStoreFile_refines_map_witness:
  "\<exists>ks' f. LoadAndStoreFile demo_libs 0 0 ''u'' (demo_store [(''u'', [1, 2, 3])]) = (ks', Inr f)
     \<and> contents demo_libs ks' [1, 2, 3] = Some [1, 2, 3]"
proof -
  let ?ks = "demo_store [(''u'', [1, 2, 3])]"
  have "''u'' \<notin> range (chunkPath (in_dir ''s''))" using demo_user_path [of "in_dir ''s''"] by (auto simp: own_paths_def)
  then obtain ks' f where "LoadAndStoreFile demo_libs 0 0 ''u'' ?ks = (ks', Inr f)"
    "contents demo_libs ks' = (contents demo_libs ?ks)(sha256 demo_libs [1, 2, 3] \<mapsto> [1, 2, 3])"
    using LoadAndStoreFile_refines_map [of "''s''" ?ks "''u''" "[1, 2, 3]" demo_libs 0 0]
    by (auto simp: small_files demo_unused)
  then show ?thesis by simp
qed

theorem WriteFileToDisk_round_trip_witness:
  "\<exists>ks' f ks''. WriteFileToDisk demo_libs 0 ''n'' [1, 2, 3] 0 (demo_store []) = (ks', Inr f)
     \<and> contents demo_libs ks' [1, 2, 3] = Some [1, 2, 3]
     \<and> CopyFileToPath demo_libs [1, 2, 3] ''u'' ks' = (ks'', Inr ()) \<and> file_at (ks_disk ks'') ''u'' = Some [1, 2, 3]"
proof -
  let ?ks = "demo_store []"
  obtain ks' f where w: "WriteFileToDisk demo_libs 0 ''n'' [1, 2, 3] 0 ?ks = (ks', Inr f)"
    "contents demo_libs ks' = (contents demo_libs ?ks)(sha256 demo_libs [1, 2, 3] \<mapsto> [1, 2, 3])"
    and c: "\<And>out. out \<notin> own_paths ks' \<Longrightarrow> \<exists>ks''. CopyFileToPath demo_libs (sha256 demo_libs [1, 2, 3]) out ks' = (ks'', Inr ())
          \<and> file_at (ks_disk ks'') out = Some [1, 2, 3]"
    using WriteFileToDisk_round_trip [of "''s''" ?ks "[1, 2, 3]" demo_libs 0 "''n''" 0]
    by (auto simp: small_files demo_unused)
  show ?thesis using w c [OF demo_user_path] by auto
qed

text \<open>A file of 20000001 bytes: 306 chunks of 64 KiB, the first of which holds the only byte that is not zero.\<close>

lemma big_file:
  defines "content \<equiv> (1 :: byte) # replicate 20000000 0"
  shows "CalculateChunkSize 20000001 = 65536" and "0 \<in> indices 20000001" and "latest 20000001 0 = 256"
    and "length (piece 65536 content 256) = 65536" and "piece 65536 content 0 \<noteq> piece 65536 content 256"
proof -
  have "flog2 20000 = 14" by (simp add: flog2.simps)
  then show c: "CalculateChunkSize 20000001 = 65536"
    by (simp add: CalculateChunkSize_def MinChunkSize_def TargetChunks_def round_log2_def)
  have i: "indices 20000001 = {..<306}" by (auto simp: indices_def c)
  then show "0 \<in> indices 20000001" by simp
  have "j < 306 \<and> j mod 256 = 0 \<longleftrightarrow> j = 0 \<or> j = 256" for j :: nat by presburger
  then have "{j \<in> indices 20000001. j mod 256 = 0 mod 256} = {0, 256}" by (auto simp: i)
  then show "latest 20000001 0 = 256" by (simp add: latest_def)
  obtain N where N: "N = (20000000 :: nat)" by blast
  obtain c where c: "c = (65536 :: nat)" by blast
  have content: "content = 1 # replicate N 0" by (simp add: content_def N)
  have "drop (256 * c) content = replicate (N - 256 * c + 1) 0"
    by (simp add: content drop_Cons' c N)
  then show "length (piece 65536 content 256) = 65536" by (simp add: piece_def N c)
  have "hd (piece c content 0) = 1" by (simp add: piece_def content c)
  moreover have "hd (piece c content 256) = 0"
    using \<open>drop (256 * c) content = replicate (N - 256 * c + 1) 0\<close> by (simp add: piece_def c)
  ultimately show "piece 65536 content 0 \<noteq> piece 65536 content 256" by (auto simp: c)
qed

theorem WriteFileToDisk_key_collision_witness:
  "\<exists>ks' f. WriteFileToDisk demo_libs 0 ''n'' (1 # replicate 20000000 0) 0 (demo_store []) = (ks', Inr f)
     \<and> contents demo_libs ks' (1 # replicate 20000000 0) \<noteq> Some (1 # replicate 20000000 0)"
proof -
  obtain content where content: "content = (1 :: byte) # replicate 20000000 0" by blast
  have len: "length content = 20000001" by (simp add: content)
  have ne: "content \<noteq> []" by (simp add: content)
  note big = big_file [folded content]
  have inj: "inj (\<lambda>b. sha1 demo_libs (sha256 demo_libs content @ [b]))" by (simp add: inj_on_def)
  obtain ks' f where "WriteFileToDisk demo_libs 0 ''n'' content 0 (demo_store []) = (ks', Inr f)"
    and "contents demo_libs ks' (sha256 demo_libs content) = Some content
        \<longleftrightarrow> (\<forall>i \<in> indices (length content). piece 65536 content i = piece 65536 content (latest (length content) i))"
    using WriteFileToDisk_key_collision [of "''s''" "demo_store []" content demo_libs 0 "''n''" 0] inj ne
    by (auto simp: len big(1))
  then show ?thesis using big len unfolding content [symmetric] by auto
qed

end
