(* ===== verification/Bootstrap.thy ===== *)
theory Bootstrap
  imports StoreRefine "HOL-Library.Countable"
begin

text \<open>
  Start-up and cleanup of the key store: \<open>BootstrapKeyStore\<close>, \<open>identifyOrphans\<close> and the cleanup
  functions of \<open>key_store.go\<close>, \<open>bootstrapDirs\<close> of \<open>disk_write.go\<close>, \<open>LoadAllFileMetadata\<close> of
  \<open>cache_write.go\<close> and \<open>ReadFileMetadataFromDisk\<close> of \<open>disk_read.go\<close>. A directory that is missing is a
  call that fails in the script of the disk. Warnings are printed and change nothing.
\<close>

section \<open>Start-up\<close>

definition bootstrapDirs :: "key_store \<Rightarrow> unit ks_result" where
  "bootstrapDirs ks =
     (case on_disk os_Access ks of
        (ks, False) \<Rightarrow> (ks, Inl (Err MkdirFailed))
      | (ks, True) \<Rightarrow>
     (case on_disk os_Access ks of
        (ks, False) \<Rightarrow> (ks, Inl (Err MkdirFailed))
      | (ks, True) \<Rightarrow> (ks\<lparr>ks_metadata := metadata_dir ks\<rparr>, Inr ())))"

definition toml_suffix :: string where "toml_suffix = ''.toml''"

text \<open>\<open>strings.HasSuffix\<close> and \<open>strings.TrimSuffix\<close>.\<close>

definition has_suffix :: "string \<Rightarrow> string \<Rightarrow> bool" where
  "has_suffix suf s \<longleftrightarrow> length suf \<le> length s \<and> drop (length s - length suf) s = suf"

definition trim_suffix :: "string \<Rightarrow> string \<Rightarrow> string" where
  "trim_suffix suf s = (if has_suffix suf s then take (length s - length suf) s else s)"

text \<open>The hash in the name of a metadata file: \<open>copy\<close> into a zeroed array of 32 bytes.\<close>

definition name_hash :: "string \<Rightarrow> bytes option" where
  "name_hash name =
     map_option (\<lambda>b. take HashSize (b @ replicate HashSize 0)) (hex_decode (trim_suffix toml_suffix name))"

definition register_chunks :: "file_chunk option list \<Rightarrow> (bytes \<times> file_chunk) list \<Rightarrow> (bytes \<times> file_chunk) list" where
  "register_chunks cs reg =
     fold (\<lambda>c reg. case c of None \<Rightarrow> reg | Some c \<Rightarrow> AList.update (fc_Key c) c reg) cs reg"

primrec load_entries :: "libs \<Rightarrow> string list \<Rightarrow> key_store \<Rightarrow> key_store" where
  "load_entries H [] ks = ks"
| "load_entries H (name # names) ks =
     (if \<not> has_suffix toml_suffix name then load_entries H names ks
      else case name_hash name of
        None \<Rightarrow> load_entries H names ks
      | Some fileHash \<Rightarrow>
          (case on_disk (os_ReadFile (path_join (ks_metadata ks) name)) ks of
             (ks, None) \<Rightarrow> load_entries H names ks
           | (ks, Some b) \<Rightarrow>
               (case toml_decode H b of
                  None \<Rightarrow> load_entries H names ks
                | Some file \<Rightarrow>
                    load_entries H names
                      (ks\<lparr>ks_references := AList.update fileHash file (ks_references ks),
                          ks_registry := register_chunks (fr_Chunks file) (ks_registry ks)\<rparr>))))"

text \<open>The first loop of \<open>identifyOrphans\<close>: is a chunk of the file not there?\<close>

primrec missing_any :: "file_chunk option list \<Rightarrow> key_store \<Rightarrow> key_store \<times> bool" where
  "missing_any [] ks = (ks, False)"
| "missing_any (c # cs) ks =
     (case c of
        None \<Rightarrow> (ks, True)
      | Some chunk \<Rightarrow>
          (case on_disk (os_Stat (chunkPath ks (fc_Key chunk))) ks of
             (ks, Absent) \<Rightarrow> (ks, True)
           | (ks, _) \<Rightarrow> missing_any cs ks))"

text \<open>The second loop: the chunk files that exist move to the file's own directory.\<close>

primrec move_chunks :: "string \<Rightarrow> file_chunk option list \<Rightarrow> key_store \<Rightarrow> key_store" where
  "move_chunks dir [] ks = ks"
| "move_chunks dir (c # cs) ks =
     (case c of
        None \<Rightarrow> move_chunks dir cs ks
      | Some chunk \<Rightarrow>
          let srcPath = chunkPath ks (fc_Key chunk) in
          (case on_disk (os_Stat srcPath) ks of
             (ks, st) \<Rightarrow>
               let ks = (if st = Present
                         then fst (on_disk (os_Rename srcPath (path_join dir (hex_encode (fc_Key chunk) @ FileExtension))) ks)
                         else ks)
               in move_chunks dir cs (ks\<lparr>ks_registry := AList.delete (fc_Key chunk) (ks_registry ks)\<rparr>)))"

definition orphans_root :: "key_store \<Rightarrow> string" where
  "orphans_root ks = path_join (ks_storage ks) ''.orphans''"

definition orphan_file :: "bytes \<Rightarrow> file_reference \<Rightarrow> key_store \<Rightarrow> key_store" where
  "orphan_file fileHash fileRef ks =
     (case missing_any (fr_Chunks fileRef) ks of
        (ks, False) \<Rightarrow> ks
      | (ks, True) \<Rightarrow>
          let hexHash = hex_encode fileHash; dir = path_join (orphans_root ks) hexHash in
          (case on_disk os_Access ks of
             (ks, False) \<Rightarrow> ks
           | (ks, True) \<Rightarrow>
               let ks = move_chunks dir (fr_Chunks fileRef) ks;
                   metaName = hexHash @ toml_suffix;
                   ks = fst (on_disk (os_Rename (path_join (ks_metadata ks) metaName)
                                                (path_join (orphans_root ks) metaName)) ks)
               in ks\<lparr>ks_references := AList.delete fileHash (ks_references ks)\<rparr>))"

text \<open>The loop only deletes the entry it is at, so it visits the entries the map has at its start.\<close>

definition orphan_files :: "(bytes \<times> file_reference) list \<Rightarrow> key_store \<Rightarrow> key_store" where
  "orphan_files refs ks = fold (\<lambda>(h, f) ks. orphan_file h f ks) refs ks"

definition identifyOrphans :: "key_store \<Rightarrow> unit ks_result" where
  "identifyOrphans ks =
     (case on_disk os_Access ks of
        (ks, False) \<Rightarrow> (ks, Inl (Err MkdirFailed))
      | (ks, True) \<Rightarrow> (orphan_files (ks_references ks) ks, Inr ()))"

text \<open>The results of \<open>bootstrapDirs\<close> and \<open>identifyOrphans\<close> are not looked at, or only printed.\<close>

definition BootstrapKeyStore :: "libs \<Rightarrow> string \<Rightarrow> disk \<Rightarrow> key_store ks_result" where
  "BootstrapKeyStore H storageDir d =
     (let ks = \<lparr>ks_references = [], ks_registry = [], ks_storage = storageDir, ks_metadata = ''default'',
                ks_disk = d\<rparr>;
          ks = fst (bootstrapDirs ks)
      in case on_disk (os_ReadDir (ks_metadata ks)) ks of
           (ks, None) \<Rightarrow> (ks, Inl (Err ReadDirFailed))
         | (ks, Some names) \<Rightarrow>
             let ks = fst (identifyOrphans (load_entries H names ks)) in (ks, Inr ks))"

section \<open>Loading metadata later\<close>

text \<open>
  \<open>ReadFileMetadataFromDisk\<close> hands the decoder a nil pointer to fill. \<open>nil_ok\<close> says whether the decoder
  lets that pass; what is returned then is the nil pointer, \<open>Inr None\<close>.
\<close>

definition ReadFileMetadataFromDisk :: "(bytes \<Rightarrow> bool) \<Rightarrow> bytes \<Rightarrow> key_store \<Rightarrow> file_reference option ks_result" where
  "ReadFileMetadataFromDisk nil_ok key ks =
     (case on_disk (os_ReadFile (metadata_path ks key)) ks of
        (ks, None) \<Rightarrow> (ks, Inl (Err DecodeFailed))
      | (ks, Some b) \<Rightarrow> if nil_ok b then (ks, Inr None) else (ks, Inl (Err DecodeFailed)))"

text \<open>The nil pointer is stored before it is dereferenced; the process ends there.\<close>

primrec load_metadata :: "(bytes \<Rightarrow> bool) \<Rightarrow> string list \<Rightarrow> key_store \<Rightarrow> unit ks_result" where
  "load_metadata nil_ok [] ks = (ks, Inr ())"
| "load_metadata nil_ok (name # names) ks =
     (if \<not> has_suffix toml_suffix name then load_metadata nil_ok names ks
      else case name_hash name of
        None \<Rightarrow> (ks, Inl (Err (InvalidName name)))
      | Some fileHash \<Rightarrow>
          (case ReadFileMetadataFromDisk nil_ok fileHash ks of
             (ks, Inl e) \<Rightarrow> (ks, Inl e)
           | (ks, Inr None) \<Rightarrow> (ks, Inl (Panic NilDereference))
           | (ks, Inr (Some file)) \<Rightarrow>
               load_metadata nil_ok names
                 (ks\<lparr>ks_references := AList.update fileHash file (ks_references ks),
                     ks_registry := register_chunks (fr_Chunks file) (ks_registry ks)\<rparr>)))"

definition LoadAllFileMetadata :: "(bytes \<Rightarrow> bool) \<Rightarrow> key_store \<Rightarrow> unit ks_result" where
  "LoadAllFileMetadata nil_ok ks =
     (case on_disk os_Access ks of
        (ks, False) \<Rightarrow> (ks, Inl (Err MkdirFailed))
      | (ks, True) \<Rightarrow>
     (case on_disk (os_ReadDir (metadata_dir ks)) ks of
        (ks, None) \<Rightarrow> (ks, Inl (Err ReadDirFailed))
      | (ks, Some names) \<Rightarrow> load_metadata nil_ok names ks))"

section \<open>Cleanup\<close>

text \<open>
  \<open>os.RemoveAll\<close> of a directory: a failure can have removed the first few files (as many as the
  script's bytes).
\<close>

definition below :: "string \<Rightarrow> string \<Rightarrow> bool" where
  "below dir p \<longleftrightarrow> take (length dir + 1) p = dir @ ''/''"

definition os_RemoveAll :: "string \<Rightarrow> disk \<Rightarrow> disk \<times> bool" where
  "os_RemoveAll dir d =
     (let ps = filter (below dir) (map fst (dk_files d)) in
      case next_fault d of
        Works \<Rightarrow> (fold drop_file ps (tick d), True)
      | Fails None \<Rightarrow> (tick d, False)
      | Fails (Some b) \<Rightarrow> (fold drop_file (take (length b) ps) (tick d), False)
      | Garbles b \<Rightarrow> (fold drop_file (take (length b) ps) (tick d), False))"

text \<open>The removal loops, over the registry and over the names in the metadata directory.\<close>

primrec remove_chunks :: "(string \<Rightarrow> bool) \<Rightarrow> (bytes \<times> file_chunk) list \<Rightarrow> key_store \<Rightarrow> unit ks_result" where
  "remove_chunks sel [] ks = (ks, Inr ())"
| "remove_chunks sel (x # xs) ks =
     (if sel (fc_Location (snd x))
      then (case on_disk (os_Remove (fc_Location (snd x))) ks of
              (ks, False) \<Rightarrow> (ks, Inl (Err RemoveFailed))
            | (ks, True) \<Rightarrow> remove_chunks sel xs ks)
      else remove_chunks sel xs ks)"

primrec remove_names :: "(string \<Rightarrow> bool) \<Rightarrow> string \<Rightarrow> string list \<Rightarrow> key_store \<Rightarrow> unit ks_result" where
  "remove_names sel dir [] ks = (ks, Inr ())"
| "remove_names sel dir (name # names) ks =
     (if sel name
      then (case on_disk (os_Remove (path_join dir name)) ks of
              (ks, False) \<Rightarrow> (ks, Inl (Err RemoveFailed))
            | (ks, True) \<Rightarrow> remove_names sel dir names ks)
      else remove_names sel dir names ks)"

definition reset_maps :: "key_store \<Rightarrow> key_store" where
  "reset_maps ks = ks\<lparr>ks_registry := [], ks_references := []\<rparr>"

definition Cleanup :: "key_store \<Rightarrow> unit ks_result" where
  "Cleanup ks =
     (case remove_chunks (\<lambda>_. True) (ks_registry ks) ks of
        (ks, Inl e) \<Rightarrow> (ks, Inl e)
      | (ks, Inr _) \<Rightarrow>
     (case on_disk (os_RemoveAll (metadata_dir ks)) ks of
        (ks, False) \<Rightarrow> (ks, Inl (Err RemoveFailed))
      | (ks, True) \<Rightarrow> (reset_maps ks, Inr ())))"

definition CleanupExtensions :: "string list \<Rightarrow> key_store \<Rightarrow> unit ks_result" where
  "CleanupExtensions extensions ks =
     (let validExt = (\<lambda>p. path_ext p \<in> set extensions) in
      case remove_chunks validExt (ks_registry ks) ks of
        (ks, Inl e) \<Rightarrow> (ks, Inl e)
      | (ks, Inr _) \<Rightarrow>
     (case on_disk (os_ReadDir (metadata_dir ks)) ks of
        (ks, None) \<Rightarrow> (reset_maps ks, Inr ())
      | (ks, Some names) \<Rightarrow>
     (case remove_names validExt (metadata_dir ks) names ks of
        (ks, Inl e) \<Rightarrow> (ks, Inl e)
      | (ks, Inr _) \<Rightarrow> (reset_maps ks, Inr ()))))"

definition CleanupKDHT :: "key_store \<Rightarrow> unit ks_result" where
  "CleanupKDHT ks = CleanupExtensions [''.kdht''] ks"

definition CleanupMetaData :: "key_store \<Rightarrow> unit ks_result" where
  "CleanupMetaData ks = CleanupExtensions [''.toml''] ks"

section \<open>Names and paths\<close>

lemma hex_encode_no_char:
  assumes "list_all (\<lambda>n. hex_digit n \<noteq> c) [0..<16]"
  shows "c \<notin> set (hex_encode b)"
proof -
  have d: "hex_digit n \<noteq> c" if "n < 16" for n using assms that by (simp add: list_all_iff)
  have "c \<notin> set (hex_of_byte x)" for x
  proof -
    have "unat x div 16 < 16" using byte_less_256 [of x] by linarith
    then show ?thesis using d [of "unat x div 16"] d [of "unat x mod 16"] by (simp add: hex_of_byte_def eq_commute)
  qed
  then show ?thesis by (auto simp: hex_encode_def)
qed

lemma hex_encode_no_slash: "CHR ''/'' \<notin> set (hex_encode b)"
  by (rule hex_encode_no_char) code_simp

lemma path_base_join:
  assumes "CHR ''/'' \<notin> set name"
  shows "path_base (path_join dir name) = name"
proof -
  have "c \<noteq> CHR ''/''" if "c \<in> set (rev name)" for c using assms that by auto
  then have *: "takeWhile (\<lambda>c. c \<noteq> CHR ''/'') (rev name) = rev name"
    by (simp add: takeWhile_eq_all_conv)
  have **: "takeWhile (\<lambda>c. c \<noteq> CHR ''/'') (rev name @ CHR ''/'' # xs) = rev name" for xs
    using assms by (subst takeWhile_append2) auto
  show ?thesis by (simp add: path_base_def path_join_def * **)
qed

lemma toml_name [simp]:
  "has_suffix toml_suffix (s @ toml_suffix)" "trim_suffix toml_suffix (s @ toml_suffix) = s"
  by (simp_all add: has_suffix_def trim_suffix_def)

lemma name_hash_toml: "length h = HashSize \<Longrightarrow> name_hash (hex_encode h @ toml_suffix) = Some h"
  by (simp add: name_hash_def hex_decode_encode)

lemma toml_base: "path_base (path_join dir (hex_encode h @ toml_suffix)) = hex_encode h @ toml_suffix"
  using hex_encode_no_slash [of h] by (intro path_base_join) (simp add: toml_suffix_def)

lemma metadata_path_toml: "metadata_path ks h = path_join (metadata_dir ks) (hex_encode h @ toml_suffix)"
  by (simp add: metadata_path_def toml_suffix_def)

text \<open>The names \<open>os.ReadDir\<close> lists are the files directly below the directory.\<close>

lemma names_in_iff:
  "name \<in> set (names_in dir d) \<longleftrightarrow> path_base (path_join dir name) = name \<and> file_at d (path_join dir name) \<noteq> None"
proof -
  have "set (names_in dir d) = path_base ` {p \<in> fst ` set (dk_files d). p = path_join dir (path_base p)}"
    unfolding names_in_def go_sort.srt_set by auto
  moreover have "file_at d p \<noteq> None \<longleftrightarrow> p \<in> fst ` set (dk_files d)" for p
    by (simp add: file_at_def map_of_eq_None_iff)
  ultimately show ?thesis by (auto simp: image_iff) force
qed

section \<open>The store on disk and in memory\<close>

text \<open>
  The metadata files are those of the references in memory, and decode to them; every chunk a reference
  names is registered as the reference has it, with its file at the path of its key.
\<close>

definition mirrored :: "libs \<Rightarrow> key_store \<Rightarrow> bool" where
  "mirrored H ks \<longleftrightarrow>
     (\<forall>name. has_suffix toml_suffix name \<longrightarrow> name \<in> set (names_in (metadata_dir ks) (ks_disk ks)) \<longrightarrow>
        (\<exists>h f. map_of (ks_references ks) h = Some f \<and> name = hex_encode h @ toml_suffix))
     \<and> (\<forall>h f. map_of (ks_references ks) h = Some f \<longrightarrow>
          length h = HashSize
          \<and> (\<exists>t. file_at (ks_disk ks) (metadata_path ks h) = Some t \<and> toml_decode H t = Some f)
          \<and> (\<forall>c \<in> set (fr_Chunks f). \<exists>ch b. c = Some ch \<and> chunk_at (fc_Key ch) ks = Some (ch, b)
                \<and> fc_Location ch = chunkPath ks (fc_Key ch)))"

text \<open>What start-up has loaded so far, against the references \<open>F\<close> and the registry \<open>G\<close> of before.\<close>

definition part_of :: "(bytes \<Rightarrow> file_reference option) \<Rightarrow> (bytes \<Rightarrow> file_chunk option) \<Rightarrow> key_store \<Rightarrow> bool" where
  "part_of F G ks \<longleftrightarrow> distinct (map fst (ks_references ks)) \<and> map_of (ks_references ks) \<subseteq>\<^sub>m F \<and> map_of (ks_registry ks) \<subseteq>\<^sub>m G
     \<and> (\<forall>h f ch. map_of (ks_references ks) h = Some f \<longrightarrow> Some ch \<in> set (fr_Chunks f)
          \<longrightarrow> map_of (ks_registry ks) (fc_Key ch) = Some ch)"

lemma register_chunks_part:
  assumes "\<And>ch. Some ch \<in> set cs \<Longrightarrow> G (fc_Key ch) = Some ch" and "map_of reg \<subseteq>\<^sub>m G"
  shows "map_of (register_chunks cs reg) \<subseteq>\<^sub>m G \<and> map_of reg \<subseteq>\<^sub>m map_of (register_chunks cs reg)
    \<and> (\<forall>ch. Some ch \<in> set cs \<longrightarrow> map_of (register_chunks cs reg) (fc_Key ch) = Some ch)"
  using assms
proof (induction cs arbitrary: reg)
  case Nil
  then show ?case by (simp add: register_chunks_def)
next
  case (Cons c cs)
  show ?case
  proof (cases c)
    case None
    then show ?thesis using Cons by (simp add: register_chunks_def)
  next
    case (Some ch)
    define reg1 where "reg1 = AList.update (fc_Key ch) ch reg"
    have g: "G (fc_Key ch) = Some ch" using Cons.prems(1) Some by simp
    have reg1: "map_of reg1 \<subseteq>\<^sub>m G" "map_of reg \<subseteq>\<^sub>m map_of reg1" "map_of reg1 (fc_Key ch) = Some ch"
      using Cons.prems(2) g by (auto simp: reg1_def update_conv' map_le_def dom_def)
    have step: "register_chunks (c # cs) reg = register_chunks cs reg1"
      by (simp add: register_chunks_def Some reg1_def)
    have IH: "map_of (register_chunks cs reg1) \<subseteq>\<^sub>m G" "map_of reg1 \<subseteq>\<^sub>m map_of (register_chunks cs reg1)"
      "\<And>ch. Some ch \<in> set cs \<Longrightarrow> map_of (register_chunks cs reg1) (fc_Key ch) = Some ch"
      using Cons.IH [of reg1] Cons.prems(1) reg1(1) by auto
    have "map_of (register_chunks cs reg1) (fc_Key ch) = Some ch"
      using IH(2) reg1(3) by (metis domI map_le_def)
    then show ?thesis unfolding step using IH map_le_trans [OF reg1(2) IH(2)] Some by auto
  qed
qed

text \<open>Loading the listed metadata files of a mirrored store, on a disk that works.\<close>

lemma load_entries_mirrored:
  fixes F G
  assumes "reliable (ks_disk ks)" and "part_of F G ks"
    and "\<And>name. name \<in> set names \<Longrightarrow> has_suffix toml_suffix name \<Longrightarrow> \<exists>h f t. name = hex_encode h @ toml_suffix
          \<and> length h = HashSize \<and> file_at (ks_disk ks) (path_join (ks_metadata ks) name) = Some t
          \<and> toml_decode H t = Some f \<and> F h = Some f"
    and "\<And>h f ch. F h = Some f \<Longrightarrow> Some ch \<in> set (fr_Chunks f) \<Longrightarrow> G (fc_Key ch) = Some ch"
  shows "touches {} ks (load_entries H names ks) \<and> part_of F G (load_entries H names ks)
    \<and> map_of (ks_references ks) \<subseteq>\<^sub>m map_of (ks_references (load_entries H names ks))
    \<and> (\<forall>h. hex_encode h @ toml_suffix \<in> set names \<longrightarrow> map_of (ks_references (load_entries H names ks)) h = F h)"
  using assms(1-3)
proof (induction names arbitrary: ks)
  case (Cons name names)
  show ?case
  proof (cases "has_suffix toml_suffix name")
    case False
    then show ?thesis using Cons by (auto simp: toml_suffix_def has_suffix_def)
  next
    case True
    then obtain h f t where n: "name = hex_encode h @ toml_suffix" "length h = HashSize"
      "file_at (ks_disk ks) (path_join (ks_metadata ks) name) = Some t" "toml_decode H t = Some f" "F h = Some f"
      using Cons.prems(3) [of name] by auto
    define ks1 where "ks1 = (ticked ks)\<lparr>ks_references := AList.update h f (ks_references ks),
        ks_registry := register_chunks (fr_Chunks f) (ks_registry ks)\<rparr>"
    have step: "load_entries H (name # names) ks = load_entries H names ks1"
      using True n Cons.prems(1) name_hash_toml [OF n(2)] by (simp add: on_disk_ticked ks1_def ticked_def)
    have D: "distinct (map fst (ks_references ks1))"
      using Cons.prems(2) by (auto simp: ks1_def part_of_def distinct_update)
    have P: "map_of (ks_references ks) \<subseteq>\<^sub>m F" "map_of (ks_registry ks) \<subseteq>\<^sub>m G"
      "\<And>h f ch. map_of (ks_references ks) h = Some f \<Longrightarrow> Some ch \<in> set (fr_Chunks f)
          \<Longrightarrow> map_of (ks_registry ks) (fc_Key ch) = Some ch"
      using Cons.prems(2) by (auto simp: part_of_def)
    note reg = register_chunks_part [of "fr_Chunks f" G "ks_registry ks", OF assms(4) [OF n(5)] P(2)]
    have refs: "map_of (ks_references ks) \<subseteq>\<^sub>m map_of (ks_references ks1)" "map_of (ks_references ks1) \<subseteq>\<^sub>m F"
      "map_of (ks_references ks1) h = F h"
      using P(1) n(5) by (auto simp: ks1_def update_conv' map_le_def dom_def)
    have "map_of (ks_registry ks1) (fc_Key ch) = Some ch"
      if "map_of (ks_references ks1) h' = Some f'" "Some ch \<in> set (fr_Chunks f')" for h' f' ch
    proof (cases "h' = h")
      case True
      then show ?thesis using that reg by (simp add: ks1_def update_conv')
    next
      case False
      then have "map_of (ks_registry ks) (fc_Key ch) = Some ch"
        using that P(3) by (simp add: ks1_def update_conv')
      then show ?thesis using reg by (auto simp: ks1_def map_le_def dom_def)
    qed
    then have part: "part_of F G ks1" using D reg refs(2) by (auto simp: part_of_def ks1_def)
    have fld: "reliable (ks_disk ks1)" "file_at (ks_disk ks1) = file_at (ks_disk ks)" "ks_metadata ks1 = ks_metadata ks"
      "touches {} ks ks1" using Cons.prems(1) by (simp_all add: ks1_def ticked_def touches_def)
    have IH: "touches {} ks1 (load_entries H names ks1)" "part_of F G (load_entries H names ks1)"
      "map_of (ks_references ks1) \<subseteq>\<^sub>m map_of (ks_references (load_entries H names ks1))"
      "\<And>h. hex_encode h @ toml_suffix \<in> set names \<Longrightarrow> map_of (ks_references (load_entries H names ks1)) h = F h"
      using Cons.IH [OF fld(1) part] Cons.prems(3) by (auto simp: fld)
    have own: "map_of (ks_references (load_entries H names ks1)) h = F h"
      using IH(3) refs(3) n(5) by (metis domI map_le_def)
    have "map_of (ks_references (load_entries H names ks1)) h' = F h'"
      if "hex_encode h' @ toml_suffix \<in> set (name # names)" for h'
      using that IH(4) own by (auto simp: n(1) hex_encode_inj)
    then show ?thesis unfolding step
      using IH(2) touches_trans [OF fld(4) IH(1)] map_le_trans [OF refs(1) IH(3)] by blast
  qed
qed auto

section \<open>Start-up on a disk that works\<close>

text \<open>Only time has passed.\<close>

definition later :: "key_store \<Rightarrow> key_store \<Rightarrow> bool" where
  "later ks ks' \<longleftrightarrow> (\<exists>k. ks' = (ticked ^^ k) ks)"

lemma later_intros [intro]:
  "later ks ks" "later ks (ticked ks)" "later a b \<Longrightarrow> later b c \<Longrightarrow> later a c"
  unfolding later_def
proof -
  show "\<exists>k. ks = (ticked ^^ k) ks" by (rule exI [of _ 0]) simp
  show "\<exists>k. ticked ks = (ticked ^^ k) ks" by (rule exI [of _ 1]) simp
  assume "\<exists>k. b = (ticked ^^ k) a" and "\<exists>k. c = (ticked ^^ k) b"
  then obtain j k where "c = (ticked ^^ k) ((ticked ^^ j) a)" by blast
  then have "c = (ticked ^^ (k + j)) a" by (simp add: funpow_add)
  then show "\<exists>k. c = (ticked ^^ k) a" ..
qed

lemma ticked_pow:
  "file_at (ks_disk ((ticked ^^ k) ks)) = file_at (ks_disk ks)"
  "reliable (ks_disk ((ticked ^^ k) ks)) = reliable (ks_disk ks)"
  "ks_references ((ticked ^^ k) ks) = ks_references ks" "ks_registry ((ticked ^^ k) ks) = ks_registry ks"
  "ks_storage ((ticked ^^ k) ks) = ks_storage ks" "ks_metadata ((ticked ^^ k) ks) = ks_metadata ks"
  by (induction k) (simp_all add: ticked_def)

lemma later_frame:
  assumes "later ks ks'"
  shows "file_at (ks_disk ks') = file_at (ks_disk ks)" "reliable (ks_disk ks') = reliable (ks_disk ks)"
    "ks_references ks' = ks_references ks" "ks_registry ks' = ks_registry ks"
    "ks_storage ks' = ks_storage ks" "ks_metadata ks' = ks_metadata ks" "chunkPath ks' = chunkPath ks"
    "metadata_path ks' = metadata_path ks" "chunk_at k ks' = chunk_at k ks"
  using assms storage_cong [of ks' ks] by (auto simp: later_def ticked_pow chunk_at_def split: option.splits)

text \<open>All chunk files of a reference exist.\<close>

definition intact :: "key_store \<Rightarrow> file_reference \<Rightarrow> bool" where
  "intact ks f \<longleftrightarrow> (\<forall>c \<in> set (fr_Chunks f). \<exists>ch. c = Some ch
      \<and> file_at (ks_disk ks) (chunkPath ks (fc_Key ch)) \<noteq> None)"

lemma on_disk_Stat:
  "reliable (ks_disk ks) \<Longrightarrow> on_disk (os_Stat p) ks
     = (ticked ks, if file_at (ks_disk ks) p = None then Absent else Present)"
  by (simp add: on_disk_def os_Stat_def ticked_def)

lemma missing_any_reliable:
  "reliable (ks_disk ks) \<Longrightarrow> \<exists>ks'. later ks ks' \<and> missing_any cs ks
     = (ks', \<not> (\<forall>c \<in> set cs. \<exists>ch. c = Some ch \<and> file_at (ks_disk ks) (chunkPath ks (fc_Key ch)) \<noteq> None))"
proof (induction cs arbitrary: ks)
  case (Cons c cs)
  show ?case
  proof (cases c)
    case (Some ch)
    have t: "later ks (ticked ks)" by blast
    note f = later_frame [OF t]
    obtain ks' where "later (ticked ks) ks'" "missing_any cs (ticked ks) = (ks', \<not> (\<forall>c \<in> set cs. \<exists>ch. c = Some ch
        \<and> file_at (ks_disk ks) (chunkPath ks (fc_Key ch)) \<noteq> None))"
      using Cons.IH [of "ticked ks"] Cons.prems f by auto
    moreover have "later ks ks'" using t calculation(1) by blast
    ultimately show ?thesis using Some Cons.prems t by (auto simp: on_disk_Stat)
  qed auto
qed auto

lemma orphan_file_intact:
  assumes "reliable (ks_disk ks)" and "intact ks f"
  shows "later ks (orphan_file h f ks)"
proof -
  obtain ks' where "later ks ks'" "missing_any (fr_Chunks f) ks = (ks', \<not> intact ks f)"
    using missing_any_reliable [OF assms(1), of "fr_Chunks f"] unfolding intact_def by blast
  then show ?thesis using assms(2) by (simp add: orphan_file_def)
qed

lemma orphan_files_intact:
  "reliable (ks_disk ks) \<Longrightarrow> (\<And>h f. (h, f) \<in> set refs \<Longrightarrow> intact ks f) \<Longrightarrow> later ks (orphan_files refs ks)"
proof (induction refs arbitrary: ks)
  case (Cons x refs)
  obtain h f where x: "x = (h, f)" by fastforce
  have l: "later ks (orphan_file h f ks)" using Cons.prems x by (intro orphan_file_intact) auto
  have "intact (orphan_file h f ks) f' = intact ks f'" for f'
    by (simp add: intact_def later_frame [OF l])
  then have "later (orphan_file h f ks) (orphan_files refs (orphan_file h f ks))"
    using Cons.prems later_frame(2) [OF l] by (intro Cons.IH) auto
  then show ?case using l x by (auto simp: orphan_files_def)
qed (auto simp: orphan_files_def)

text \<open>The store that start-up begins with, after it has read the names of the metadata files.\<close>

definition read_names :: "string \<Rightarrow> disk \<Rightarrow> key_store" where
  "read_names dir d = ticked (ticked (ticked \<lparr>ks_references = [], ks_registry = [], ks_storage = dir,
     ks_metadata = path_join dir ''metadata'', ks_disk = d\<rparr>))"

lemma read_names_fields [simp]:
  "ks_references (read_names dir d) = []" "ks_registry (read_names dir d) = []" "ks_storage (read_names dir d) = dir"
  "ks_metadata (read_names dir d) = path_join dir ''metadata''" "file_at (ks_disk (read_names dir d)) = file_at d"
  "reliable (ks_disk (read_names dir d)) = reliable d"
  by (simp_all add: read_names_def ticked_def)

lemma bootstrap_lists:
  assumes "reliable d"
  shows "BootstrapKeyStore H dir d =
    (let ks2 = load_entries H (names_in (path_join dir ''metadata'') d) (read_names dir d); ks' = identifyOrphans ks2
     in (fst ks', Inr (fst ks')))"
proof -
  let ?ks0 = "\<lparr>ks_references = [], ks_registry = [], ks_storage = dir, ks_metadata = ''default'', ks_disk = d\<rparr>"
  let ?dir = "path_join dir ''metadata''"
  have boot: "fst (bootstrapDirs ?ks0) = ticked (ticked (?ks0\<lparr>ks_metadata := ?dir\<rparr>))"
    using assms by (simp add: bootstrapDirs_def on_disk_ticked) (simp add: ticked_def metadata_dir_def)
  have names: "names_in d' (tick (tick dk)) = names_in d' dk" for d' dk by (simp add: names_in_def tick_def)
  have "on_disk (os_ReadDir (ks_metadata (fst (bootstrapDirs ?ks0)))) (fst (bootstrapDirs ?ks0)) = (read_names dir d, Some (names_in ?dir d))"
    unfolding boot using assms by (simp add: on_disk_def os_ReadDir_def read_names_def ticked_def names)
  then show ?thesis by (simp add: BootstrapKeyStore_def Let_def)
qed

lemma mirroredD:
  assumes "mirrored H ks"
  shows "has_suffix toml_suffix name \<Longrightarrow> name \<in> set (names_in (metadata_dir ks) (ks_disk ks))
      \<Longrightarrow> \<exists>h f. map_of (ks_references ks) h = Some f \<and> name = hex_encode h @ toml_suffix"
    and "map_of (ks_references ks) h = Some f \<Longrightarrow> length h = HashSize"
    and "map_of (ks_references ks) h = Some f
      \<Longrightarrow> \<exists>t. file_at (ks_disk ks) (metadata_path ks h) = Some t \<and> toml_decode H t = Some f"
    and "map_of (ks_references ks) h = Some f \<Longrightarrow> c \<in> set (fr_Chunks f)
      \<Longrightarrow> \<exists>ch b. c = Some ch \<and> chunk_at (fc_Key ch) ks = Some (ch, b) \<and> fc_Location ch = chunkPath ks (fc_Key ch)"
  using assms unfolding mirrored_def by blast+

text \<open>Loading the entries of a mirrored store brings back its references, and nothing else.\<close>

lemma loads_mirrored:
  assumes ok: "store_ok dir ks" and mir: "mirrored H ks"
  defines "ks2 \<equiv> load_entries H (names_in (metadata_dir ks) (ks_disk ks)) (read_names dir (ks_disk ks))"
  shows "touches {} (read_names dir (ks_disk ks)) ks2"
    and "part_of (map_of (ks_references ks)) (map_of (ks_registry ks)) ks2"
    and "map_of (ks_references ks2) = map_of (ks_references ks)"
proof -
  let ?F = "map_of (ks_references ks)" and ?G = "map_of (ks_registry ks)"
    and ?names = "names_in (metadata_dir ks) (ks_disk ks)" and ?ks1 = "read_names dir (ks_disk ks)"
  have rel: "reliable (ks_disk ?ks1)" and dir: "path_join dir ''metadata'' = metadata_dir ks"
    using ok by (simp_all add: store_ok_def metadata_dir_def)
  have part: "part_of ?F ?G ?ks1" by (simp add: part_of_def)
  have listed: "\<exists>h f t. name = hex_encode h @ toml_suffix \<and> length h = HashSize
      \<and> file_at (ks_disk ?ks1) (path_join (ks_metadata ?ks1) name) = Some t \<and> toml_decode H t = Some f \<and> ?F h = Some f"
    if "name \<in> set ?names" "has_suffix toml_suffix name" for name
    using mirroredD(1) [OF mir that(2,1)] mirroredD(2,3) [OF mir] unfolding read_names_fields dir metadata_path_toml by blast
  have chunks: "?G (fc_Key ch) = Some ch" if "?F h = Some f" "Some ch \<in> set (fr_Chunks f)" for h f ch
    using mirroredD(4) [OF mir that] by (auto simp: chunk_at_def split: option.splits)
  have L: "touches {} ?ks1 ks2 \<and> part_of ?F ?G ks2 \<and> map_of (ks_references ?ks1) \<subseteq>\<^sub>m map_of (ks_references ks2)
      \<and> (\<forall>h. hex_encode h @ toml_suffix \<in> set ?names \<longrightarrow> map_of (ks_references ks2) h = ?F h)"
    unfolding ks2_def by (rule load_entries_mirrored [OF rel part]) (use listed chunks in blast)+
  then show "touches {} ?ks1 ks2" and p2: "part_of ?F ?G ks2" by blast+
  show "map_of (ks_references ks2) = ?F"
  proof
    fix h
    show "map_of (ks_references ks2) h = ?F h"
    proof (cases "?F h")
      case None
      then show ?thesis using p2 by (cases "map_of (ks_references ks2) h") (auto simp: part_of_def map_le_def dom_def)
    next
      case (Some f)
      then have "file_at (ks_disk ks) (metadata_path ks h) \<noteq> None" using mirroredD(3) [OF mir] by force
      then have "hex_encode h @ toml_suffix \<in> set ?names"
        unfolding names_in_iff metadata_path_toml toml_base by simp
      then show ?thesis using L by blast
    qed
  qed
qed

lemma Bootstrap_mirrored:
  assumes "store_ok dir ks" and mir: "mirrored H ks"
  shows "\<exists>ks'. BootstrapKeyStore H dir (ks_disk ks) = (ks', Inr ks') \<and> store_ok dir ks'
    \<and> file_at (ks_disk ks') = file_at (ks_disk ks)
    \<and> map_of (ks_references ks') = map_of (ks_references ks)
    \<and> (\<forall>h f ch. map_of (ks_references ks) h = Some f \<longrightarrow> Some ch \<in> set (fr_Chunks f)
         \<longrightarrow> chunk_at (fc_Key ch) ks' = chunk_at (fc_Key ch) ks)"
proof -
  let ?F = "map_of (ks_references ks)" and ?G = "map_of (ks_registry ks)"
  have ok: "reliable (ks_disk ks)" "registry_ok ks" "ks_storage ks = dir" "path_join dir ''metadata'' = metadata_dir ks"
    using assms(1) by (simp_all add: store_ok_def metadata_dir_def)
  define ks2 where "ks2 = load_entries H (names_in (metadata_dir ks) (ks_disk ks)) (read_names dir (ks_disk ks))"
  note loaded = loads_mirrored [OF assms, folded ks2_def]
  have fld: "ks_storage ks2 = dir" "reliable (ks_disk ks2)" "file_at (ks_disk ks2) = file_at (ks_disk ks)"
    using loaded(1) ok(1) by (auto simp: touches_def reliable_def read_names_def ticked_def)
  have path: "chunkPath ks2 = chunkPath ks" by (rule storage_cong(1)) (simp add: fld ok(3))
  have "intact ks2 f" if "?F h = Some f" for h f
    using mirroredD(4) [OF mir that] by (fastforce simp: intact_def fld path chunk_at_def split: option.splits)
  then have whole: "intact ks2 f" if "(h, f) \<in> set (ks_references ks2)" for h f
    using map_of_is_SomeI [OF _ that] loaded(2,3) by (auto simp: part_of_def)
  define ks' where "ks' = orphan_files (ks_references ks2) (ticked ks2)"
  have l1: "later ks2 (ticked ks2)" by blast
  have "intact (ticked ks2) f = intact ks2 f" for f by (simp add: intact_def later_frame [OF l1])
  then have "later (ticked ks2) ks'" unfolding ks'_def
    using whole fld(2) later_frame(2) [OF l1] by (intro orphan_files_intact) auto
  then have l: "later ks2 ks'" using l1 by blast
  note f = later_frame [OF l]
  have result: "BootstrapKeyStore H dir (ks_disk ks) = (ks', Inr ks')"
    using bootstrap_lists [OF ok(1), of H dir] fld(2)
    by (simp add: ok(4) identifyOrphans_def Let_def on_disk_ticked ks'_def flip: ks2_def)
  have reg: "map_of (ks_registry ks') k = Some c \<Longrightarrow> ?G k = Some c" for k c
    using loaded(2) by (auto simp: f part_of_def map_le_def dom_def)
  have "registry_ok ks'"
  proof (rule registry_okI)
    fix k c assume "map_of (ks_registry ks') k = Some c"
    then show "fc_Location c = '''' \<or> fc_Location c = chunkPath ks' k"
      using registry_okD [OF ok(2) reg] by (simp add: f path)
  qed
  then have "store_ok dir ks'" using fld by (simp add: store_ok_def f)
  moreover have "chunk_at (fc_Key ch) ks' = chunk_at (fc_Key ch) ks"
    if "?F h = Some f" "Some ch \<in> set (fr_Chunks f)" for h f ch
  proof -
    have "map_of (ks_registry ks2) (fc_Key ch) = Some ch" using that loaded(2,3) by (auto simp: part_of_def)
    then show ?thesis using mirroredD(4) [OF mir that] by (auto simp: f chunk_at_def fld split: option.splits)
  qed
  ultimately show ?thesis using result loaded(3) by (auto simp: f fld)
qed

text \<open>A metadata file is never a chunk file.\<close>

lemma toml_not_chunk:
  assumes "has_suffix toml_suffix name"
  shows "path_join (metadata_dir ks) name \<notin> range (chunkPath ks)"
proof
  assume "path_join (metadata_dir ks) name \<in> range (chunkPath ks)"
  then obtain k where k: "path_join (metadata_dir ks) name = chunkPath ks k" by blast
  obtain s where s: "name = s @ toml_suffix" using assms by (metis append_take_drop_id has_suffix_def)
  then have "last (path_join (metadata_dir ks) name) = CHR ''l''"
    using path_join_last [of name] by (simp add: toml_suffix_def)
  then show False unfolding k using chunkPath_last [of ks k] by simp
qed

text \<open>Storing a file keeps disk and memory in step.\<close>

lemma stores_mirrored:
  assumes "stores H dir cb n m ks ks'" and "store_ok dir ks" and "mirrored H ks"
    and "unused_keys ((\<lambda>i. fc_Key (fst (cb i))) ` {..<n}) (fm_FileHash m) ks"
    and "length (fm_FileHash m) = HashSize"
    and "\<And>f. None \<notin> set (fr_Chunks f) \<Longrightarrow> \<exists>t. toml_encode H f = Some t \<and> toml_decode H t = Some f"
  shows "mirrored H ks'"
proof -
  let ?h = "fm_FileHash m"
  let ?f = "\<lparr>fr_MetaData = m, fr_Chunks = file_chunks H dir cb n\<rparr>"
  have dir: "ks_storage ks = dir" "ks_storage ks' = dir" using assms(1,2) by (simp_all add: stores_def store_ok_def)
  have path: "metadata_path ks' = metadata_path ks" "chunkPath ks' = chunkPath ks" "metadata_dir ks' = metadata_dir ks"
    using storage_cong [of ks' ks] dir by (simp_all add: metadata_dir_def)
  have refs: "map_of (ks_references ks') = (map_of (ks_references ks))(?h \<mapsto> ?f)"
    and holds: "holds H dir cb n ks'"
    and other: "\<And>k. k \<notin> (\<lambda>i. fc_Key (fst (cb i))) ` {..<n} \<Longrightarrow> chunk_at k ks' = chunk_at k ks"
    and files: "\<And>p. p \<notin> range (chunkPath ks) \<Longrightarrow> file_at (ks_disk ks') p
        = ((file_at (ks_disk ks))(metadata_path ks ?h := toml_encode H ?f)) p"
    using assms(1) by (auto simp: stores_def)
  have meta: "metadata_path ks h \<notin> range (chunkPath ks)" for h by auto
  note D = mirroredD [OF assms(3)]
  show ?thesis unfolding mirrored_def path
  proof (intro conjI allI impI)
    fix name assume n: "has_suffix toml_suffix name" "name \<in> set (names_in (metadata_dir ks) (ks_disk ks'))"
    show "\<exists>h f. map_of (ks_references ks') h = Some f \<and> name = hex_encode h @ toml_suffix"
    proof (cases "path_join (metadata_dir ks) name = metadata_path ks ?h")
      case True
      then show ?thesis using refs by (auto simp: metadata_path_toml path_join_inj)
    next
      case False
      then have "name \<in> set (names_in (metadata_dir ks) (ks_disk ks))"
        using n(2) files [OF toml_not_chunk [OF n(1)]] by (simp add: names_in_iff)
      then show ?thesis using D(1) [OF n(1)] refs by (metis fun_upd_other fun_upd_same)
    qed
  next
    fix h f assume hf: "map_of (ks_references ks') h = Some f"
    show "length h = HashSize" using hf refs assms(5) D(2) by (auto split: if_splits)
    show "\<exists>t. file_at (ks_disk ks') (metadata_path ks h) = Some t \<and> toml_decode H t = Some f"
      using hf refs files [OF meta] assms(6) D(3) by (auto split: if_splits)
    show "\<forall>c\<in>set (fr_Chunks f). \<exists>ch b. c = Some ch \<and> chunk_at (fc_Key ch) ks' = Some (ch, b)
        \<and> fc_Location ch = chunkPath ks (fc_Key ch)"
    proof (cases "h = ?h")
      case True
      then have "f = ?f" using hf refs by simp
      moreover have "chunkPath ks = chunkPath (in_dir dir)" using dir by (intro storage_cong(1)) (simp add: in_dir_def)
      ultimately show ?thesis using holds
        by (auto simp: file_chunks_def holds_def at_home_def placed_def)
    next
      case False
      then have f: "map_of (ks_references ks) h = Some f" using hf refs by simp
      then have "chunk_at (fc_Key ch) ks' = chunk_at (fc_Key ch) ks" if "Some ch \<in> set (fr_Chunks f)" for ch
        using assms(4) False that by (intro other) (simp add: unused_keys_def)
      then show ?thesis using D(4) [OF f] by fastforce
    qed
  qed
qed

lemma mirrored_contents:
  assumes "store_ok dir ks" and "mirrored H ks"
  shows "\<exists>ks'. BootstrapKeyStore H dir (ks_disk ks) = (ks', Inr ks') \<and> store_ok dir ks' \<and> mirrored H ks'
    \<and> map_of (ks_references ks') = map_of (ks_references ks) \<and> contents H ks' = contents H ks"
proof -
  obtain ks' where b: "BootstrapKeyStore H dir (ks_disk ks) = (ks', Inr ks')" and ok: "store_ok dir ks'"
    and files: "file_at (ks_disk ks') = file_at (ks_disk ks)"
    and refs: "map_of (ks_references ks') = map_of (ks_references ks)"
    and chunks: "\<And>h f ch. map_of (ks_references ks) h = Some f \<Longrightarrow> Some ch \<in> set (fr_Chunks f)
         \<Longrightarrow> chunk_at (fc_Key ch) ks' = chunk_at (fc_Key ch) ks"
    using Bootstrap_mirrored [OF assms] by blast
  have st: "ks_storage ks' = ks_storage ks" using ok assms(1) by (simp add: store_ok_def)
  have path: "metadata_path ks' = metadata_path ks" "chunkPath ks' = chunkPath ks" "metadata_dir ks' = metadata_dir ks"
    using storage_cong [OF st] st by (simp_all add: metadata_dir_def)
  have "mirrored H ks'" unfolding mirrored_def names_in_iff path files refs
  proof (intro conjI allI impI)
    show "\<exists>h f. map_of (ks_references ks) h = Some f \<and> name = hex_encode h @ toml_suffix"
      if "has_suffix toml_suffix name" "path_base (path_join (metadata_dir ks) name) = name
        \<and> file_at (ks_disk ks) (path_join (metadata_dir ks) name) \<noteq> None" for name
      using assms(2) that unfolding mirrored_def names_in_iff by blast
    fix h f assume hf: "map_of (ks_references ks) h = Some f"
    show "length h = HashSize" "\<exists>t. file_at (ks_disk ks) (metadata_path ks h) = Some t \<and> toml_decode H t = Some f"
      using assms(2) hf unfolding mirrored_def by blast+
    have "\<forall>c \<in> set (fr_Chunks f). \<exists>ch b. c = Some ch \<and> chunk_at (fc_Key ch) ks = Some (ch, b)
        \<and> fc_Location ch = chunkPath ks (fc_Key ch)"
      using assms(2) hf unfolding mirrored_def by blast
    then show "\<forall>c \<in> set (fr_Chunks f). \<exists>ch b. c = Some ch \<and> chunk_at (fc_Key ch) ks' = Some (ch, b)
        \<and> fc_Location ch = chunkPath ks (fc_Key ch)"
      using chunks [OF hf] by fastforce
  qed
  moreover have "contents H ks' = contents H ks"
  proof
    show "contents H ks' h = contents H ks h" for h
      using Reassemble_frame [OF ok assms(1), of h H] chunks refs by (simp add: contents_def)
  qed
  ultimately show ?thesis using b ok refs by blast
qed

section \<open>Properties\<close>

text \<open>
  C29. Restart: what was stored survives the process. On a disk that works, with a TOML codec that decodes
  what it encoded, a store whose metadata files mirror its references (the empty store does) and
  which then stores a file with \<open>LoadAndStoreFile\<close> mirrors them again; and \<open>BootstrapKeyStore\<close> on
  the disk it leaves gives a store with the same references, in which the file and all older ones read back.
\<close>

theorem stored_files_survive_restart:
  assumes "store_ok dir ks" and "mirrored H ks" and "file_at (ks_disk ks) path = Some content"
    and "path \<notin> range (chunkPath (in_dir dir))" and "content \<noteq> []" and "length content < 2 ^ 47"
    and "inj_on (\<lambda>i. sha1 H (sha256 H content @ le64 i)) (indices (length content))"
    and "unused_keys ((\<lambda>i. sha1 H (sha256 H content @ le64 i)) ` indices (length content)) (sha256 H content) ks"
    and "length (sha256 H content) = HashSize"
    and "\<And>f. None \<notin> set (fr_Chunks f) \<Longrightarrow> \<exists>t. toml_encode H f = Some t \<and> toml_decode H t = Some f"
  shows "\<exists>ks' f ks''. LoadAndStoreFile H now perm path ks = (ks', Inr f) \<and> mirrored H ks'
    \<and> BootstrapKeyStore H dir (ks_disk ks') = (ks'', Inr ks'') \<and> mirrored H ks''
    \<and> map_of (ks_references ks'') = map_of (ks_references ks')
    \<and> contents H ks'' = (contents H ks)(sha256 H content \<mapsto> content)"
proof -
  have enc: "toml_encode H f \<noteq> None" if "None \<notin> set (fr_Chunks f)" for f using assms(10) [OF that] by auto
  obtain n ks' m where m: "m = loaded_meta H now perm path content n"
    and s: "LoadAndStoreFile H now perm path ks
      = (ks', Inr \<lparr>fr_MetaData = m, fr_Chunks = file_chunks H dir (loaded_chunk H m content) n\<rparr>)"
      "stores H dir (loaded_chunk H m content) n m ks ks'"
    and cut: "cut (CalculateChunkSize (length content)) n (length content)"
    using LoadAndStoreFile_reliable [OF assms(1,3-6) assms(7) [unfolded indices_def] enc] .
  let ?cb = "loaded_chunk H m content"
  have f: "fm_ChunkSize m = CalculateChunkSize (length content)" "fm_TotalSize m = length content"
    "fm_FileHash m = sha256 H content" by (simp_all add: m loaded_meta_def)
  have cb: "snd (?cb i) = piece (fm_ChunkSize m) content i"
    "fc_Key (fst (?cb i)) = sha1 H (sha256 H content @ le64 i)" for i
    by (simp_all add: loaded_chunk_def Let_def updateKey_def f)
  have "{..<n} \<subseteq> indices (length content)" using cut_bounds(1) [OF cut] by (auto simp: indices_def)
  then have unused: "unused_keys ((\<lambda>i. fc_Key (fst (?cb i))) ` {..<n}) (fm_FileHash m) ks"
    unfolding cb f by (intro unused_keys_mono [OF assms(8)] image_mono)
  have ok: "store_ok dir ks'" using s(2) by (simp add: stores_def)
  have mir: "mirrored H ks'" using assms(9,10) f(3)
    by (intro stores_mirrored [OF s(2) assms(1,2) unused]) auto
  show ?thesis
    using s(1) mir mirrored_contents [OF ok mir]
      stores_contents [OF s(2) assms(1) unused cut [folded f(1)] f(2,3) cb(1) loaded_chunk_fits] by auto
qed

text \<open>A codec for concrete instances: the number of a reference, in unary.\<close>

instance file_meta_ext :: (countable) countable
  by (rule countable_classI [of "\<lambda>r. to_nat (fm_FileHash r, fm_TotalSize r, fm_FileName r, fm_Modified r,
      fm_Replicate r, fm_Permissions r, fm_Signature r, fm_TTL r, fm_ChunkSize r, fm_TotalChunks r, file_meta.more r)"])
    simp

instance file_chunk_ext :: (countable) countable
  by (rule countable_classI [of "\<lambda>r. to_nat (fc_Key r, fc_FileName r, fc_Size r, fc_FileIndex r, fc_Location r,
      fc_Protocol r, fc_DataHash r, file_chunk.more r)"]) simp

instance file_reference_ext :: (countable) countable
  by (rule countable_classI [of "\<lambda>r. to_nat (fr_MetaData r, fr_Chunks r, file_reference.more r)"]) simp

definition codec_libs :: libs where
  "codec_libs = demo_libs\<lparr>toml_encode := \<lambda>f. Some (replicate (to_nat f) 0), toml_decode := \<lambda>b. Some (from_nat (length b))\<rparr>"

lemma codec_libs_simps [simp]:
  "sha1 codec_libs b = b" "sha256 codec_libs b = b" "toml_encode codec_libs f = Some (replicate (to_nat f) 0)"
  "toml_decode codec_libs t = Some (from_nat (length t))"
  by (simp_all add: codec_libs_def)

lemma empty_mirrored: "names_in (metadata_dir (demo_store files)) (ks_disk (demo_store files)) = [] \<Longrightarrow> mirrored H (demo_store files)"
  by (simp add: mirrored_def)

theorem stored_files_survive_restart_witness:
  "\<exists>ks' f ks''. LoadAndStoreFile codec_libs 0 0 ''u'' (demo_store [(''u'', replicate 32 5)]) = (ks', Inr f)
     \<and> BootstrapKeyStore codec_libs ''s'' (ks_disk ks') = (ks'', Inr ks'')
     \<and> contents codec_libs ks'' (replicate 32 5) = Some (replicate 32 5)"
proof -
  let ?ks = "demo_store [(''u'', replicate 32 5)]"
  let ?c = "replicate 32 (5 :: byte)"
  have "names_in (metadata_dir ?ks) (ks_disk ?ks) = []" by code_simp
  note mir = empty_mirrored [OF this, of codec_libs]
  have "CalculateChunkSize 32 = 32" by (simp add: CalculateChunkSize_def MinChunkSize_def)
  then have idx: "indices 32 = {0}" by (auto simp: indices_def)
  have "''u'' \<notin> range (chunkPath (in_dir ''s''))" using demo_user_path [of "in_dir ''s''"] by (auto simp: own_paths_def)
  then obtain ks' f ks'' where "LoadAndStoreFile codec_libs 0 0 ''u'' ?ks = (ks', Inr f)"
    "BootstrapKeyStore codec_libs ''s'' (ks_disk ks') = (ks'', Inr ks'')"
    "contents codec_libs ks'' = (contents codec_libs ?ks)(sha256 codec_libs ?c \<mapsto> ?c)"
    using stored_files_survive_restart [of "''s''" ?ks codec_libs "''u''" ?c 0 0] mir
    by (auto simp: idx demo_unused HashSize_def)
  then show ?thesis by auto
qed

end
