(* ===== verification/Housekeeping.thy ===== *)
theory Housekeeping
  imports Bootstrap
begin

text \<open>
  What the cleanup functions and the search for orphans do to the store, and the late loading of
  metadata.
\<close>

section \<open>Removing files\<close>

text \<open>Files go, none comes.\<close>

definition shrinks :: "string set \<Rightarrow> key_store \<Rightarrow> key_store \<Rightarrow> bool" where
  "shrinks P ks ks' \<longleftrightarrow> quiet P ks ks' \<and> (\<forall>p. file_at (ks_disk ks') p = None \<or> file_at (ks_disk ks') p = file_at (ks_disk ks) p)"

lemma shrinks_refl [simp]: "shrinks P ks ks"
  by (simp add: shrinks_def)

lemma shrinks_trans: "shrinks P a b \<Longrightarrow> shrinks P b c \<Longrightarrow> shrinks P a c"
  unfolding shrinks_def by (metis quiet_trans)

lemma shrinks_mono: "shrinks P a b \<Longrightarrow> P \<subseteq> Q \<Longrightarrow> shrinks Q a b"
  unfolding shrinks_def using quiet_mono by blast

lemma shrinks_gone: "shrinks P a b \<Longrightarrow> file_at (ks_disk a) p = None \<Longrightarrow> file_at (ks_disk b) p = None"
  unfolding shrinks_def by metis

lemma Remove_shrinks:
  assumes "on_disk (os_Remove p) ks = (ks', r)"
  shows "shrinks {p} ks ks'" and "r \<Longrightarrow> file_at (ks_disk ks) p \<noteq> None \<and> file_at (ks_disk ks') p = None"
proof -
  have "quiet {p} ks ks'" using quiet_remove [OF assms] by simp
  then show "shrinks {p} ks ks'"
    using assms by (auto simp: shrinks_def on_disk_def os_Remove_def split: if_splits)
  show "file_at (ks_disk ks) p \<noteq> None \<and> file_at (ks_disk ks') p = None" if r
    using assms that by (auto simp: on_disk_def os_Remove_def split: if_splits)
qed

lemma file_at_drop_files: "file_at (fold drop_file ps d) p = (if p \<in> set ps then None else file_at d p)"
  by (induction ps arbitrary: d) auto

lemma fault_drop_files: "dk_fault (fold drop_file ps d) = dk_fault d"
  by (induction ps arbitrary: d) auto

lemma RemoveAll_shrinks:
  assumes "on_disk (os_RemoveAll dir) ks = (ks', r)"
  shows "shrinks {p. below dir p} ks ks'" and "r \<Longrightarrow> below dir p \<Longrightarrow> file_at (ks_disk ks') p = None"
proof -
  let ?ps = "filter (below dir) (map fst (dk_files (ks_disk ks)))"
  obtain n where n: "ks_disk ks' = fold drop_file (take n ?ps) (tick (ks_disk ks))" "r \<Longrightarrow> length ?ps \<le> n"
    and same: "ks_registry ks' = ks_registry ks" "ks_references ks' = ks_references ks"
      "ks_storage ks' = ks_storage ks" "ks_metadata ks' = ks_metadata ks"
  proof (cases "next_fault (ks_disk ks)")
    case Works
    then show thesis using assms that [of "length ?ps"]
      by (auto simp: on_disk_def os_RemoveAll_def Let_def)
  next
    case (Fails x)
    then show thesis using assms that [of 0] that [of "length (the x)"]
      by (cases x) (auto simp: on_disk_def os_RemoveAll_def Let_def)
  next
    case (Garbles b)
    then show thesis using assms that [of "length b"]
      by (auto simp: on_disk_def os_RemoveAll_def Let_def)
  qed
  have sub: "set (take n ?ps) \<subseteq> {p. below dir p}" using set_take_subset [of n ?ps] by auto
  have at: "file_at (ks_disk ks') p = (if p \<in> set (take n ?ps) then None else file_at (ks_disk ks) p)" for p
    by (simp add: n(1) file_at_drop_files)
  have flt: "dk_fault (ks_disk ks') = dk_fault (ks_disk ks)" by (simp add: n(1) fault_drop_files)
  show "shrinks {p. below dir p} ks ks'"
    using sub same flt by (auto simp: shrinks_def quiet_def touches_def at)
  show "file_at (ks_disk ks') p = None" if r "below dir p"
  proof (cases "file_at (ks_disk ks) p")
    case (Some b)
    then have "p \<in> set ?ps" using that(2) by (force simp: file_at_def dest: map_of_SomeD)
    then show ?thesis using n(2) [OF that(1)] by (simp add: at)
  qed (simp add: at)
qed

lemma remove_chunks_cases:
  "remove_chunks sel xs ks = (ks', r) \<Longrightarrow>
     shrinks {fc_Location (snd x) | x. x \<in> set xs \<and> sel (fc_Location (snd x))} ks ks' \<and> no_panic r
     \<and> (r = Inr () \<longrightarrow> (\<forall>x \<in> set xs. sel (fc_Location (snd x)) \<longrightarrow>
          file_at (ks_disk ks) (fc_Location (snd x)) \<noteq> None \<and> file_at (ks_disk ks') (fc_Location (snd x)) = None))"
proof (induction xs arbitrary: ks)
  case (Cons x xs)
  let ?p = "fc_Location (snd x)"
  let ?P = "{fc_Location (snd y) | y. y \<in> set (x # xs) \<and> sel (fc_Location (snd y))}"
  show ?case
  proof (cases "sel ?p")
    case False
    then have "remove_chunks sel xs ks = (ks', r)" using Cons.prems by simp
    from Cons.IH [OF this] show ?thesis using False shrinks_mono [of _ ks ks' ?P] by fastforce
  next
    case True
    obtain ks1 ok where r: "on_disk (os_Remove ?p) ks = (ks1, ok)" by fastforce
    have "?p \<in> ?P" using True by (intro CollectI exI [of _ x]) simp
    then have s1: "shrinks ?P ks ks1" by (intro shrinks_mono [OF Remove_shrinks(1) [OF r]]) blast
    show ?thesis
    proof (cases ok)
      case False
      then show ?thesis using Cons.prems True r s1 by auto
    next
      case ok: True
      then have rec: "remove_chunks sel xs ks1 = (ks', r)" using Cons.prems True r by simp
      note IH = Cons.IH [OF this]
      have s2: "shrinks ?P ks1 ks'" using IH shrinks_mono [of _ ks1 ks' ?P] by auto
      have gone: "file_at (ks_disk ks) ?p \<noteq> None" "file_at (ks_disk ks') ?p = None"
        using Remove_shrinks(2) [OF r ok] shrinks_gone [OF s2] by auto
      have "file_at (ks_disk ks) q \<noteq> None" if "file_at (ks_disk ks1) q \<noteq> None" for q
        using that shrinks_gone [OF s1, of q] by (cases "file_at (ks_disk ks) q") simp_all
      with IH have "r = Inr () \<longrightarrow> (\<forall>y \<in> set xs. sel (fc_Location (snd y)) \<longrightarrow>
          file_at (ks_disk ks) (fc_Location (snd y)) \<noteq> None \<and> file_at (ks_disk ks') (fc_Location (snd y)) = None)"
        by blast
      then have "r = Inr () \<longrightarrow> (\<forall>y \<in> set (x # xs). sel (fc_Location (snd y)) \<longrightarrow>
          file_at (ks_disk ks) (fc_Location (snd y)) \<noteq> None \<and> file_at (ks_disk ks') (fc_Location (snd y)) = None)"
        using gone by simp
      then show ?thesis using IH shrinks_trans [OF s1 s2] by blast
    qed
  qed
qed auto

lemma remove_names_cases:
  "remove_names sel dir names ks = (ks', r) \<Longrightarrow>
     shrinks {path_join dir n | n. n \<in> set names \<and> sel n} ks ks' \<and> no_panic r
     \<and> (r = Inr () \<longrightarrow> (\<forall>n \<in> set names. sel n \<longrightarrow> file_at (ks_disk ks') (path_join dir n) = None))"
proof (induction names arbitrary: ks)
  case (Cons n names)
  let ?P = "{path_join dir m | m. m \<in> set (n # names) \<and> sel m}"
  show ?case
  proof (cases "sel n")
    case False
    then have "remove_names sel dir names ks = (ks', r)" using Cons.prems by simp
    from Cons.IH [OF this] show ?thesis using False shrinks_mono [of _ ks ks' ?P] by fastforce
  next
    case True
    obtain ks1 ok where r: "on_disk (os_Remove (path_join dir n)) ks = (ks1, ok)" by fastforce
    have s1: "shrinks ?P ks ks1" using True by (intro shrinks_mono [OF Remove_shrinks(1) [OF r]]) auto
    show ?thesis
    proof (cases ok)
      case False
      then show ?thesis using Cons.prems True r s1 by auto
    next
      case ok: True
      then have rec: "remove_names sel dir names ks1 = (ks', r)" using Cons.prems True r by simp
      note IH = Cons.IH [OF this]
      have s2: "shrinks ?P ks1 ks'" using IH shrinks_mono [of _ ks1 ks' ?P] by auto
      have "file_at (ks_disk ks') (path_join dir n) = None"
        using Remove_shrinks(2) [OF r ok] shrinks_gone [OF s2] by auto
      then show ?thesis using IH shrinks_trans [OF s1 s2] by auto
    qed
  qed
qed auto

section \<open>Extensions\<close>

lemma path_ext_kdht: "path_ext (chunkPath ks k) = ''.kdht''"
proof -
  have "CHR ''/'' \<notin> set (hex_encode k @ FileExtension)"
    using hex_encode_no_slash [of k] by (simp add: FileExtension_def)
  then have "path_base (chunkPath ks k) = hex_encode k @ ''.kdht''"
    unfolding chunkPath_def by (simp add: path_base_join) (simp add: FileExtension_def)
  then show ?thesis by (simp add: path_ext_def Let_def)
qed

lemma path_base_join_any: "path_base (path_join dir name) = path_base name"
proof -
  have "takeWhile P (xs @ y # ys) = takeWhile P xs" if "\<not> P y" for P and xs ys :: string and y
    using that by (induction xs) auto
  then show ?thesis by (simp add: path_base_def path_join_def)
qed

lemma path_ext_join: "path_ext (path_join dir name) = path_ext name"
  by (simp add: path_ext_def path_base_join_any)

lemma path_ext_toml: "path_ext (metadata_path ks h) = ''.toml''"
  using toml_base [of "metadata_dir ks" h]
  by (simp add: path_ext_def metadata_path_toml Let_def) (simp add: toml_suffix_def)

lemma reset_maps_simps [simp]:
  "ks_registry (reset_maps ks) = []" "ks_references (reset_maps ks) = []" "ks_disk (reset_maps ks) = ks_disk ks"
  by (simp_all add: reset_maps_def)

lemma Cleanup_cases:
  assumes "Cleanup ks = (ks', r)"
  shows "touches ({fc_Location (snd x) | x. x \<in> set (ks_registry ks)} \<union> {p. below (metadata_dir ks) p}) ks ks'
    \<and> (\<forall>p. file_at (ks_disk ks') p = None \<or> file_at (ks_disk ks') p = file_at (ks_disk ks) p) \<and> no_panic r
    \<and> (r = Inr () \<longrightarrow> ks_registry ks' = [] \<and> ks_references ks' = []
        \<and> (\<forall>x \<in> set (ks_registry ks). file_at (ks_disk ks) (fc_Location (snd x)) \<noteq> None
              \<and> file_at (ks_disk ks') (fc_Location (snd x)) = None)
        \<and> (\<forall>p. below (metadata_dir ks) p \<longrightarrow> file_at (ks_disk ks') p = None))
    \<and> (r \<noteq> Inr () \<longrightarrow> ks_registry ks' = ks_registry ks \<and> ks_references ks' = ks_references ks)"
proof -
  let ?L = "{fc_Location (snd x) | x. x \<in> set (ks_registry ks)}"
  let ?M = "{p. below (metadata_dir ks) p}"
  obtain ks1 a where a: "remove_chunks (\<lambda>_. True) (ks_registry ks) ks = (ks1, a)" by fastforce
  note c = remove_chunks_cases [OF a]
  have s1: "shrinks (?L \<union> ?M) ks ks1" using c shrinks_mono [of _ ks ks1 "?L \<union> ?M"] by auto
  then have q1: "quiet (?L \<union> ?M) ks ks1" by (simp add: shrinks_def)
  show ?thesis
  proof (cases a)
    case (Inl e)
    then show ?thesis using assms a c s1 q1 by (auto simp: Cleanup_def shrinks_def quiet_def)
  next
    case (Inr u)
    have dir: "metadata_dir ks1 = metadata_dir ks" using q1 by (simp add: quiet_def touches_def metadata_dir_def)
    obtain ks2 b where b: "on_disk (os_RemoveAll (metadata_dir ks)) ks1 = (ks2, b)" by fastforce
    have s2: "shrinks (?L \<union> ?M) ks ks2"
      using shrinks_trans [OF s1 shrinks_mono [OF RemoveAll_shrinks(1) [OF b]]] by simp
    then have q2: "quiet (?L \<union> ?M) ks ks2" by (simp add: shrinks_def)
    have gone: "file_at (ks_disk ks) (fc_Location (snd x)) \<noteq> None \<and> file_at (ks_disk ks2) (fc_Location (snd x)) = None"
      if "x \<in> set (ks_registry ks)" for x
      using c Inr that shrinks_gone [OF RemoveAll_shrinks(1) [OF b]] by auto
    show ?thesis
    proof (cases b)
      case False
      then show ?thesis using assms a Inr b dir s2 q2 by (auto simp: Cleanup_def shrinks_def quiet_def)
    next
      case True
      then have "ks' = reset_maps ks2" "r = Inr ()" using assms a Inr b dir by (simp_all add: Cleanup_def)
      then show ?thesis using s2 q2 gone RemoveAll_shrinks(2) [OF b True]
        by (auto simp: shrinks_def quiet_def touches_def reset_maps_def)
    qed
  qed
qed

lemma CleanupExtensions_cases:
  assumes "CleanupExtensions exts ks = (ks', r)"
  shows "touches ({fc_Location (snd x) | x. x \<in> set (ks_registry ks) \<and> path_ext (fc_Location (snd x)) \<in> set exts}
        \<union> {path_join (metadata_dir ks) n | n. path_ext n \<in> set exts}) ks ks' \<and> no_panic r
    \<and> (r = Inr () \<longrightarrow> ks_registry ks' = [] \<and> ks_references ks' = []
        \<and> (\<forall>x \<in> set (ks_registry ks). path_ext (fc_Location (snd x)) \<in> set exts
             \<longrightarrow> file_at (ks_disk ks') (fc_Location (snd x)) = None))
    \<and> (r \<noteq> Inr () \<longrightarrow> ks_registry ks' = ks_registry ks \<and> ks_references ks' = ks_references ks)"
proof -
  let ?sel = "\<lambda>p. path_ext p \<in> set exts"
  let ?L = "{fc_Location (snd x) | x. x \<in> set (ks_registry ks) \<and> ?sel (fc_Location (snd x))}"
  let ?M = "{path_join (metadata_dir ks) n | n. ?sel n}"
  obtain ks1 a where a: "remove_chunks ?sel (ks_registry ks) ks = (ks1, a)" by fastforce
  note c = remove_chunks_cases [OF a]
  have s1: "shrinks (?L \<union> ?M) ks ks1" using c shrinks_mono [of _ ks ks1 "?L \<union> ?M"] by blast
  then have q1: "quiet (?L \<union> ?M) ks ks1" by (simp add: shrinks_def)
  show ?thesis
  proof (cases a)
    case (Inl e)
    then have "ks' = ks1" "r = Inl e" using assms a by (simp_all add: CleanupExtensions_def Let_def)
    then show ?thesis using c q1 Inl by (auto simp: quiet_def)
  next
    case (Inr u)
    have gone: "file_at (ks_disk ks1) (fc_Location (snd x)) = None"
      if "x \<in> set (ks_registry ks)" "?sel (fc_Location (snd x))" for x
      using c Inr that by simp
    have dir: "metadata_dir ks1 = metadata_dir ks" using q1 by (simp add: quiet_def touches_def metadata_dir_def)
    obtain ks2 b where b: "on_disk (os_ReadDir (metadata_dir ks)) ks1 = (ks2, b)" by fastforce
    have q12: "quiet {} ks1 ks2" using quiet_read(5) [OF b] .
    have q2: "quiet (?L \<union> ?M) ks ks2" using quiet_trans [OF q1 quiet_mono [OF q12]] by simp
    have gone2: "file_at (ks_disk ks2) (fc_Location (snd x)) = None"
      if "x \<in> set (ks_registry ks)" "?sel (fc_Location (snd x))" for x
      using gone [OF that] q12 by (simp add: quiet_def touches_def)
    have after_reset: "touches (?L \<union> ?M) ks (reset_maps k)" if "quiet (?L \<union> ?M) ks k" for k
      using that by (auto simp: quiet_def touches_def reset_maps_def)
    show ?thesis
    proof (cases b)
      case None
      then have "ks' = reset_maps ks2" "r = Inr ()"
        using assms a Inr b dir by (simp_all add: CleanupExtensions_def Let_def)
      then show ?thesis using after_reset [OF q2] gone2 by simp
    next
      case (Some names)
      obtain ks3 d where d: "remove_names ?sel (metadata_dir ks2) names ks2 = (ks3, d)" by fastforce
      note e = remove_names_cases [OF d]
      have dir2: "metadata_dir ks2 = metadata_dir ks" using q2 by (simp add: quiet_def touches_def metadata_dir_def)
      have s3: "shrinks (?L \<union> ?M) ks2 ks3" using e shrinks_mono [of _ ks2 ks3 "?L \<union> ?M"] unfolding dir2 by blast
      have q3: "quiet (?L \<union> ?M) ks ks3" using quiet_trans [OF q2] s3 by (simp add: shrinks_def)
      have gone3: "file_at (ks_disk ks3) (fc_Location (snd x)) = None"
        if "x \<in> set (ks_registry ks)" "?sel (fc_Location (snd x))" for x
        using shrinks_gone [OF s3 gone2 [OF that]] .
      show ?thesis
      proof (cases d)
        case (Inl x)
        then have "ks' = ks3" "r = Inl x"
          using assms a Inr b dir Some d by (simp_all add: CleanupExtensions_def Let_def)
        then show ?thesis using q3 e Inl by (auto simp: quiet_def)
      next
        case d': (Inr x)
        then have "ks' = reset_maps ks3" "r = Inr ()"
          using assms a Inr b dir Some d by (simp_all add: CleanupExtensions_def Let_def)
        then show ?thesis using after_reset [OF q3] gone3 by simp
      qed
    qed
  qed
qed

section \<open>Orphans\<close>

lemma strip_slashes_clean: "s \<noteq> '''' \<Longrightarrow> last s \<noteq> CHR ''/'' \<Longrightarrow> strip_slashes s = s"
  by (cases s rule: rev_cases) (simp_all add: strip_slashes_def)

lemma length_strip_append: "length (strip_slashes a) \<le> length (strip_slashes (a @ b))"
proof -
  have "length (dropWhile P ys) \<le> length (dropWhile P (xs @ ys))" for P and xs ys :: string
    by (induction xs) (auto intro: order_trans [OF length_dropWhile_le])
  then show ?thesis by (simp add: strip_slashes_def)
qed

definition path_dir :: "string \<Rightarrow> string" where
  "path_dir p = rev (dropWhile (\<lambda>c. c \<noteq> CHR ''/'') (rev p))"

lemma path_dir_join:
  assumes "CHR ''/'' \<notin> set name"
  shows "path_dir (path_join dir name) = (if dir = '''' then '''' else strip_slashes dir @ ''/'')"
proof -
  have *: "dropWhile (\<lambda>c. c \<noteq> CHR ''/'') (rev name @ xs) = dropWhile (\<lambda>c. c \<noteq> CHR ''/'') xs" for xs
    using assms by (intro dropWhile_append2) auto
  show ?thesis using * [of "[]"] by (simp add: path_dir_def path_join_def *)
qed

lemma orphan_path:
  "path_join (path_join (orphans_root ks) hexHash) (hex_encode k @ FileExtension) \<noteq> chunkPath ks k'"
proof
  let ?S = "ks_storage ks"
  let ?d = "path_join (orphans_root ks) hexHash"
  assume eq: "path_join ?d (hex_encode k @ FileExtension) = chunkPath ks k'"
  have ns: "CHR ''/'' \<notin> set (hex_encode b @ FileExtension)" for b
    using hex_encode_no_slash [of b] by (simp add: FileExtension_def)
  have ne: "orphans_root ks \<noteq> ''''" by (simp add: orphans_root_def path_join_def)
  have d: "?d = strip_slashes (orphans_root ks) @ ''/'' @ hexHash" using ne by (simp add: path_join_def)
  have "path_dir (path_join ?d (hex_encode k @ FileExtension)) = path_dir (chunkPath ks k')" using eq by simp
  then have dirs: "strip_slashes ?d @ ''/'' = (if ?S = '''' then '''' else strip_slashes ?S @ ''/'')"
    unfolding chunkPath_def path_dir_join [OF ns] by (simp add: d)
  then have S: "?S \<noteq> ''''" and "strip_slashes ?d = strip_slashes ?S" by (auto split: if_splits)
  have root: "orphans_root ks = strip_slashes ?S @ ''/.orphans''" using S by (simp add: orphans_root_def path_join_def)
  have clean: "strip_slashes (orphans_root ks) = orphans_root ks"
    unfolding root by (rule strip_slashes_clean) simp_all
  have "length (strip_slashes (orphans_root ks)) \<le> length (strip_slashes ?d)"
    using length_strip_append [of "orphans_root ks" "''/'' @ hexHash"] unfolding d clean .
  then show False using \<open>strip_slashes ?d = strip_slashes ?S\<close> unfolding clean by (simp add: root)
qed

lemma Rename_outside:
  assumes "on_disk (os_Rename p q) ks = (ks', r)" and "x \<noteq> p" and "x \<noteq> q"
  shows "file_at (ks_disk ks') x = file_at (ks_disk ks) x"
  using quiet_rename [OF assms(1), of "{p, q}"] assms(2,3) by (simp add: quiet_def touches_def)

text \<open>Outside the keys \<open>K\<close> the chunks are as before; nothing is registered under \<open>K\<close>.\<close>

definition dropped :: "bytes set \<Rightarrow> key_store \<Rightarrow> key_store \<Rightarrow> bool" where
  "dropped K ks ks' \<longleftrightarrow> ks_storage ks' = ks_storage ks \<and> ks_metadata ks' = ks_metadata ks
     \<and> dk_fault (ks_disk ks') = dk_fault (ks_disk ks)
     \<and> map_of (ks_registry ks') = map_of (ks_registry ks) |` (- K)
     \<and> file_at (ks_disk ks') '''' = file_at (ks_disk ks) ''''
     \<and> (\<forall>k. k \<notin> K \<longrightarrow> file_at (ks_disk ks') (chunkPath ks k) = file_at (ks_disk ks) (chunkPath ks k))"

lemma dropped_trans:
  assumes "dropped K a b" and "dropped L b c"
  shows "dropped (K \<union> L) a c"
proof -
  have "chunkPath b = chunkPath a" using assms(1) by (intro storage_cong(1)) (simp add: dropped_def)
  then show ?thesis using assms by (auto simp: dropped_def restrict_map_def)
qed

lemma move_chunks_dropped:
  assumes "dir = path_join (orphans_root ks) hexHash"
  shows "dropped {fc_Key ch | ch. Some ch \<in> set cs} ks (move_chunks dir cs ks)
    \<and> ks_references (move_chunks dir cs ks) = ks_references ks"
  using assms
proof (induction cs arbitrary: ks)
  case Nil
  then show ?case by (simp add: dropped_def restrict_map_def)
next
  case (Cons c cs)
  show ?case
  proof (cases c)
    case None
    then show ?thesis using Cons by simp
  next
    case (Some ch)
    let ?p = "chunkPath ks (fc_Key ch)"
    let ?q = "path_join dir (hex_encode (fc_Key ch) @ FileExtension)"
    obtain ks1 st where st: "on_disk (os_Stat ?p) ks = (ks1, st)" by fastforce
    have q1: "quiet {} ks ks1" using quiet_read(4) [OF st] .
    define ks2 where "ks2 = (if st = Present then fst (on_disk (os_Rename ?p ?q) ks1) else ks1)"
    have q2: "quiet {?p, ?q} ks1 ks2"
      using quiet_rename [of ?p ?q ks1 _ _ "{?p, ?q}", OF surjective_pairing] by (simp add: ks2_def)
    have q: "quiet {?p, ?q} ks ks2" using quiet_trans [OF quiet_mono [OF q1] q2] by simp
    define ks3 where "ks3 = ks2\<lparr>ks_registry := AList.delete (fc_Key ch) (ks_registry ks2)\<rparr>"
    have step: "move_chunks dir (c # cs) ks = move_chunks dir cs ks3"
      using Some st by (simp add: Let_def ks2_def ks3_def)
    have dst: "chunkPath ks k \<noteq> ?q" "?q \<noteq> ''''" for k
      using orphan_path [of ks hexHash "fc_Key ch" k] Cons.prems path_join_last [of "hex_encode (fc_Key ch) @ FileExtension" dir]
      by (auto simp: FileExtension_def)
    have d: "dropped {fc_Key ch} ks ks3"
      using q dst by (auto simp: dropped_def quiet_def touches_def ks3_def delete_conv' restrict_map_def fun_eq_iff)
    have "ks_references ks3 = ks_references ks" using q by (simp add: quiet_def ks3_def)
    moreover have "dir = path_join (orphans_root ks3) hexHash"
      using Cons.prems d by (simp add: dropped_def orphans_root_def)
    note IH = Cons.IH [OF this]
    moreover have "{fc_Key ch' | ch'. Some ch' \<in> set (c # cs)} = {fc_Key ch} \<union> {fc_Key ch' | ch'. Some ch' \<in> set cs}"
      using Some by auto
    ultimately show ?thesis unfolding step using dropped_trans [OF d] by simp
  qed
qed

definition keys_of :: "file_reference \<Rightarrow> bytes set" where
  "keys_of f = {fc_Key ch | ch. Some ch \<in> set (fr_Chunks f)}"

lemma later_dropped: "later ks ks' \<Longrightarrow> dropped {} ks ks'"
proof -
  assume l: "later ks ks'"
  have "dk_fault (ks_disk ((ticked ^^ k) ks)) = dk_fault (ks_disk ks)" for k
    by (induction k) (simp_all add: ticked_def)
  then have "dk_fault (ks_disk ks') = dk_fault (ks_disk ks)" using l by (auto simp: later_def)
  then show ?thesis using later_frame [OF l] by (simp add: dropped_def restrict_map_def)
qed

lemma orphan_file_effect:
  assumes "reliable (ks_disk ks)"
  shows "if intact ks f then later ks (orphan_file h f ks)
    else dropped (keys_of f) ks (orphan_file h f ks)
      \<and> map_of (ks_references (orphan_file h f ks)) = (map_of (ks_references ks))(h := None)"
proof (cases "intact ks f")
  case True
  then show ?thesis using orphan_file_intact [OF assms] by simp
next
  case False
  obtain ks1 where "later ks ks1" "missing_any (fr_Chunks f) ks = (ks1, \<not> intact ks f)"
    using missing_any_reliable [OF assms, of "fr_Chunks f"] unfolding intact_def by blast
  then have m: "later ks ks1" "missing_any (fr_Chunks f) ks = (ks1, True)" using False by simp_all
  define ks2 where "ks2 = ticked ks1"
  have l: "later ks ks2" using m(1) unfolding ks2_def by blast
  have acc: "on_disk os_Access ks1 = (ks2, True)"
    using assms later_frame(2) [OF m(1)] by (simp add: on_disk_ticked ks2_def)
  let ?dir = "path_join (orphans_root ks1) (hex_encode h)"
  have dir: "?dir = path_join (orphans_root ks2) (hex_encode h)" by (simp add: ks2_def ticked_def orphans_root_def)
  define ks3 where "ks3 = move_chunks ?dir (fr_Chunks f) ks2"
  have d: "dropped (keys_of f) ks2 ks3" "ks_references ks3 = ks_references ks2"
    using move_chunks_dropped [OF dir, of "fr_Chunks f"] by (simp_all add: ks3_def keys_of_def)
  let ?p = "path_join (ks_metadata ks3) (hex_encode h @ toml_suffix)"
  let ?q = "path_join (orphans_root ks3) (hex_encode h @ toml_suffix)"
  define ks4 where "ks4 = fst (on_disk (os_Rename ?p ?q) ks3)"
  have q: "quiet {?p, ?q} ks3 ks4"
    using quiet_rename [of ?p ?q ks3 _ _ "{?p, ?q}", OF surjective_pairing] by (simp add: ks4_def)
  have ends: "p \<noteq> '''' \<and> last p = CHR ''l''" if "p \<in> {?p, ?q}" for p
    using that path_join_last [of "hex_encode h @ toml_suffix"] by (auto simp: toml_suffix_def)
  have "chunkPath ks k \<notin> {?p, ?q}" "'''' \<notin> {?p, ?q}" for k
    using ends [of "chunkPath ks k"] ends [of "''''"] chunkPath_last [of ks k] by auto
  moreover have "chunkPath ks3 = chunkPath ks2" using d(1) by (intro storage_cong(1)) (simp add: dropped_def)
  moreover have "chunkPath ks2 = chunkPath ks" using later_frame(7) [OF l] .
  ultimately have d4: "dropped (keys_of f) ks2 ks4" and refs4: "ks_references ks4 = ks_references ks"
    using q d later_frame(3) [OF l] by (auto simp: dropped_def quiet_def touches_def)
  have "dropped (keys_of f) ks ks4" using dropped_trans [OF later_dropped [OF l] d4] by simp
  moreover have "orphan_file h f ks = ks4\<lparr>ks_references := AList.delete h (ks_references ks4)\<rparr>"
    using m(2) acc by (simp add: orphan_file_def Let_def flip: ks3_def ks4_def)
  moreover have "dropped K ks (ks4\<lparr>ks_references := R\<rparr>) = dropped K ks ks4" for K R
    by (simp add: dropped_def)
  ultimately show ?thesis using False refs4 by (simp add: delete_conv')
qed

text \<open>No two stored files share a chunk key.\<close>

definition separate :: "(bytes \<times> file_reference) list \<Rightarrow> bool" where
  "separate refs \<longleftrightarrow> distinct (map fst refs)
     \<and> (\<forall>h f h' f'. (h, f) \<in> set refs \<longrightarrow> (h', f') \<in> set refs \<longrightarrow> h \<noteq> h' \<longrightarrow> keys_of f \<inter> keys_of f' = {})"

definition orphaned :: "(bytes \<times> file_reference) list \<Rightarrow> key_store \<Rightarrow> (bytes \<times> file_reference) set" where
  "orphaned refs ks = {(h, f) \<in> set refs. \<not> intact ks f}"

lemma intact_dropped:
  assumes "dropped K ks ks'" and "keys_of f \<inter> K = {}"
  shows "intact ks' f = intact ks f"
proof -
  have "chunkPath ks' = chunkPath ks" using assms(1) by (intro storage_cong(1)) (simp add: dropped_def)
  then show ?thesis using assms unfolding intact_def dropped_def keys_of_def by fastforce
qed

lemma orphan_files_effect:
  assumes "separate refs" and "reliable (ks_disk ks)"
  shows "dropped (\<Union>(h, f) \<in> orphaned refs ks. keys_of f) ks (orphan_files refs ks)
    \<and> map_of (ks_references (orphan_files refs ks)) = map_of (ks_references ks) |` (- fst ` orphaned refs ks)"
  using assms
proof (induction refs arbitrary: ks)
  case Nil
  then show ?case by (simp add: orphan_files_def orphaned_def dropped_def restrict_map_def)
next
  case (Cons x refs)
  obtain h f where x: "x = (h, f)" by fastforce
  define ks1 where "ks1 = orphan_file h f ks"
  have step: "orphan_files (x # refs) ks = orphan_files refs ks1" by (simp add: orphan_files_def x ks1_def)
  have sep: "separate refs" using Cons.prems(1) by (auto simp: separate_def)
  have disj: "keys_of f \<inter> keys_of f' = {}" if "(h', f') \<in> set refs" for h' f'
  proof -
    have "distinct (map fst (x # refs))" using Cons.prems(1) unfolding separate_def by blast
    then have "h \<notin> fst ` set refs" by (simp add: x)
    then have "h' \<noteq> h" using that by force
    moreover have "(h, f) \<in> set (x # refs)" "(h', f') \<in> set (x # refs)" using that x by simp_all
    ultimately show ?thesis using Cons.prems(1) unfolding separate_def by blast
  qed
  define K where "K = (if intact ks f then {} else keys_of f)"
  have e: "dropped K ks ks1"
    "map_of (ks_references ks1) = (if intact ks f then map_of (ks_references ks) else (map_of (ks_references ks))(h := None))"
    using orphan_file_effect [OF Cons.prems(2), of f h] later_dropped later_frame(3)
    by (auto simp: K_def ks1_def split: if_splits)
  have rel: "reliable (ks_disk ks1)" using e(1) Cons.prems(2) by (simp add: dropped_def reliable_def)
  have "intact ks1 f' = intact ks f'" if "(h', f') \<in> set refs" for h' f'
    using disj [OF that] by (intro intact_dropped [OF e(1)]) (auto simp: K_def)
  then have same: "orphaned refs ks1 = orphaned refs ks" by (auto simp: orphaned_def)
  have split: "orphaned (x # refs) ks = (if intact ks f then {} else {(h, f)}) \<union> orphaned refs ks"
    by (auto simp: orphaned_def x)
  note IH = Cons.IH [OF sep rel, unfolded same]
  show ?case unfolding step split using dropped_trans [OF e(1)] IH e(2)
    by (auto simp: K_def restrict_map_def fun_eq_iff)
qed

section \<open>Loading metadata later\<close>

lemma ReadFileMetadata_cases:
  assumes "ReadFileMetadataFromDisk nil_ok key ks = (ks', r)"
  shows "quiet {} ks ks' \<and> (r = Inl (Err DecodeFailed) \<or> (r = Inr None \<and> (\<exists>b. nil_ok b)))"
proof -
  obtain ks1 a where a: "on_disk (os_ReadFile (metadata_path ks key)) ks = (ks1, a)" by fastforce
  have "quiet {} ks ks1" using quiet_read(1) [OF a] .
  then show ?thesis using assms a by (cases a) (auto simp: ReadFileMetadataFromDisk_def split: if_splits)
qed

lemma load_metadata_cases:
  "load_metadata nil_ok names ks = (ks', r) \<Longrightarrow> quiet {} ks ks'
     \<and> (r = Inr () \<longleftrightarrow> (\<forall>n \<in> set names. \<not> has_suffix toml_suffix n)) \<and> (no_panic r \<or> (\<exists>b. nil_ok b))"
proof (induction names)
  case (Cons name names)
  show ?case
  proof (cases "has_suffix toml_suffix name")
    case False
    then show ?thesis using Cons by simp
  next
    case True
    show ?thesis
    proof (cases "name_hash name")
      case None
      then show ?thesis using Cons.prems True by auto
    next
      case (Some h)
      obtain ks1 a where a: "ReadFileMetadataFromDisk nil_ok h ks = (ks1, a)" by fastforce
      show ?thesis using Cons.prems True Some a ReadFileMetadata_cases [OF a] by auto
    qed
  qed
qed auto

text \<open>What is under no dropped key reads back unchanged.\<close>

lemma dropped_contents:
  assumes ok: "store_ok dir ks" and d: "dropped K ks ks'"
  shows "store_ok dir ks'"
    and "map_of (ks_references ks) h = Some f \<Longrightarrow> map_of (ks_references ks') h = Some f \<Longrightarrow> keys_of f \<inter> K = {}
      \<Longrightarrow> contents H ks' h = contents H ks h"
proof -
  have rel: "registry_ok ks" using ok by (simp add: store_ok_def)
  have path: "chunkPath ks' = chunkPath ks" using d by (intro storage_cong(1)) (simp add: dropped_def)
  have reg: "map_of (ks_registry ks') = map_of (ks_registry ks) |` (- K)" using d by (simp add: dropped_def)
  have "registry_ok ks'"
  proof (rule registry_okI)
    fix k c assume "map_of (ks_registry ks') k = Some c"
    then have "map_of (ks_registry ks) k = Some c" by (auto simp: reg restrict_map_def split: if_splits)
    then show "fc_Location c = '''' \<or> fc_Location c = chunkPath ks' k" using registry_okD [OF rel] path by auto
  qed
  then show ok': "store_ok dir ks'" using d ok by (simp add: store_ok_def dropped_def reliable_def)
  have at: "chunk_at k ks' = chunk_at k ks" if "k \<notin> K" for k
  proof (cases "map_of (ks_registry ks) k")
    case None
    then show ?thesis using that by (simp add: chunk_at_def reg restrict_map_def)
  next
    case (Some c)
    then have "file_at (ks_disk ks') (fc_Location c) = file_at (ks_disk ks) (fc_Location c)"
      using registry_okD [OF rel Some] d that by (auto simp: dropped_def)
    then show ?thesis using Some that by (simp add: chunk_at_def reg restrict_map_def)
  qed
  assume h: "map_of (ks_references ks) h = Some f" "map_of (ks_references ks') h = Some f" and K: "keys_of f \<inter> K = {}"
  have same: "chunk_at (fc_Key c) ks' = chunk_at (fc_Key c) ks" if "Some c \<in> set (fr_Chunks f)" for c
    using that K by (intro at) (auto simp: keys_of_def)
  have "snd (ReassembleFileFromDisk H h ks') = snd (ReassembleFileFromDisk H h ks)"
    using same h by (intro Reassemble_frame [OF ok' ok]) simp_all
  then show "contents H ks' h = contents H ks h" by (simp add: contents_def)
qed

section \<open>Properties\<close>

text \<open>
  C30. \<open>identifyOrphans\<close>, on a disk that works and where no two files share a chunk key: exactly the files
  all of whose chunk files exist stay known, and they read as before; no chunk of a file that is
  dropped stays registered.
\<close>

theorem identifyOrphans_keeps_intact:
  assumes "store_ok dir ks" and "separate (ks_references ks)"
  shows "\<exists>ks'. identifyOrphans ks = (ks', Inr ()) \<and> store_ok dir ks'
    \<and> (\<forall>h f. map_of (ks_references ks') h = Some f \<longleftrightarrow> map_of (ks_references ks) h = Some f \<and> intact ks f)
    \<and> (\<forall>h f. map_of (ks_references ks) h = Some f \<longrightarrow>
         (if intact ks f then contents H ks' h = contents H ks h
          else \<forall>k \<in> keys_of f. map_of (ks_registry ks') k = None))"
proof -
  have ok: "reliable (ks_disk ks)" "registry_ok ks" "ks_storage ks = dir" using assms(1) by (simp_all add: store_ok_def)
  define ks1 where "ks1 = ticked ks"
  have l: "later ks ks1" unfolding ks1_def by blast
  note f1 = later_frame [OF l]
  define ks' where "ks' = orphan_files (ks_references ks) ks1"
  have run: "identifyOrphans ks = (ks', Inr ())"
    using ok(1) by (simp add: identifyOrphans_def on_disk_ticked ks'_def ks1_def)
  have int1: "intact ks1 f = intact ks f" for f by (simp add: intact_def f1)
  let ?bad = "orphaned (ks_references ks) ks"
  let ?K = "\<Union>(h, f) \<in> ?bad. keys_of f"
  have same: "orphaned (ks_references ks) ks1 = ?bad" by (simp add: orphaned_def int1)
  have e: "dropped ?K ks1 ks'" "map_of (ks_references ks') = map_of (ks_references ks) |` (- fst ` ?bad)"
    using orphan_files_effect [OF assms(2), of ks1] ok(1) by (simp_all add: same f1 ks'_def)
  have d: "dropped ?K ks ks'" using dropped_trans [OF later_dropped [OF l] e(1)] by simp
  have reg: "map_of (ks_registry ks') = map_of (ks_registry ks) |` (- ?K)" using d by (simp add: dropped_def)
  have ok': "store_ok dir ks'" by (rule dropped_contents(1) [OF assms(1) d])
  have dist: "distinct (map fst (ks_references ks))" using assms(2) by (simp add: separate_def)
  have in_refs: "(h, f) \<in> set (ks_references ks) \<longleftrightarrow> map_of (ks_references ks) h = Some f" for h f
    using map_of_is_SomeI [OF dist] map_of_SomeD by metis
  have bad: "h \<in> fst ` ?bad \<longleftrightarrow> (\<exists>f. map_of (ks_references ks) h = Some f \<and> \<not> intact ks f)" for h
    by (force simp: orphaned_def in_refs)
  have refs: "map_of (ks_references ks') h = Some f \<longleftrightarrow> map_of (ks_references ks) h = Some f \<and> intact ks f" for h f
    using bad [of h] by (auto simp: e(2) restrict_map_def split: if_splits)
  have kept: "contents H ks' h = contents H ks h" if fh: "map_of (ks_references ks) h = Some f" and fi: "intact ks f" for h f
  proof (rule dropped_contents(2) [OF assms(1) d fh])
    show "map_of (ks_references ks') h = Some f" using refs fh fi by simp
    have "keys_of f \<inter> keys_of f' = {}" if "(h', f') \<in> set (ks_references ks)" "\<not> intact ks f'" for h' f'
    proof -
      have "h' \<noteq> h" using that fh fi in_refs by auto
      then show ?thesis using assms(2) that(1) fh unfolding separate_def in_refs by blast
    qed
    then show "keys_of f \<inter> ?K = {}" by (auto simp: orphaned_def)
  qed
  have "map_of (ks_registry ks') k = None" if "map_of (ks_references ks) h = Some f" "\<not> intact ks f" "k \<in> keys_of f" for h f k
  proof -
    have "(h, f) \<in> ?bad" using that by (simp add: orphaned_def in_refs)
    then have "k \<in> ?K" using that(3) by blast
    then show ?thesis by (simp add: reg)
  qed
  then show ?thesis using run ok' refs kept by auto
qed

theorem identifyOrphans_keeps_intact_witness:
  "\<exists>ks'. identifyOrphans ((demo_store [])\<lparr>ks_references := [([1], \<lparr>fr_MetaData = blank_meta, fr_Chunks = [None]\<rparr>),
        ([2], \<lparr>fr_MetaData = blank_meta, fr_Chunks = []\<rparr>)]\<rparr>) = (ks', Inr ())
     \<and> map_of (ks_references ks') [1] = None \<and> map_of (ks_references ks') [2] \<noteq> None"
proof -
  let ?ks = "(demo_store [])\<lparr>ks_references := [([1], \<lparr>fr_MetaData = blank_meta, fr_Chunks = [None]\<rparr>),
        ([2], \<lparr>fr_MetaData = blank_meta, fr_Chunks = []\<rparr>)]\<rparr>"
  have ok: "store_ok ''s'' ?ks" using demo_store_ok(1) [of "[]"] by (simp add: store_ok_def)
  have "separate (ks_references ?ks)" by (auto simp: separate_def keys_of_def)
  from identifyOrphans_keeps_intact [OF ok this, of demo_libs] obtain ks' where
    "identifyOrphans ?ks = (ks', Inr ())"
    "\<And>h f. map_of (ks_references ks') h = Some f \<longleftrightarrow> map_of (ks_references ?ks) h = Some f \<and> intact ?ks f"
    by blast
  moreover have "map_of (ks_references ks') [1] \<noteq> Some a" for a
    using calculation(2) [of "[1]" a] by (auto simp: intact_def)
  then have "map_of (ks_references ks') [1] = None" by (metis option.exhaust)
  moreover from calculation(2) [of "[2]"] have "map_of (ks_references ks') [2] \<noteq> None"
    by (auto simp: intact_def)
  ultimately show ?thesis by blast
qed

text \<open>
  C31. \<open>Cleanup\<close>, whatever the disk does: it only removes files, and only registered chunk files and files
  below the metadata directory. It succeeds only when every registered chunk had its file, and then
  all of them and all metadata are gone and both maps are empty; a chunk registered by \<open>StoreKey\<close>, which has
  no file, makes it fail. After an error the maps are as before, also when files are already gone.
\<close>

theorem Cleanup_contract:
  assumes "Cleanup ks = (ks', r)"
  shows "touches ({fc_Location (snd x) | x. x \<in> set (ks_registry ks)} \<union> {p. below (metadata_dir ks) p}) ks ks'
    \<and> (\<forall>p. file_at (ks_disk ks') p = None \<or> file_at (ks_disk ks') p = file_at (ks_disk ks) p) \<and> no_panic r
    \<and> (r = Inr () \<longrightarrow> ks_registry ks' = [] \<and> ks_references ks' = []
        \<and> (\<forall>x \<in> set (ks_registry ks). file_at (ks_disk ks) (fc_Location (snd x)) \<noteq> None
              \<and> file_at (ks_disk ks') (fc_Location (snd x)) = None)
        \<and> (\<forall>p. below (metadata_dir ks) p \<longrightarrow> file_at (ks_disk ks') p = None))
    \<and> (r \<noteq> Inr () \<longrightarrow> ks_registry ks' = ks_registry ks \<and> ks_references ks' = ks_references ks)"
  by (rule Cleanup_cases [OF assms])

theorem Cleanup_contract_witness:
  "\<exists>ks' r. Cleanup (StoreKey demo_libs [1] [2] (demo_store [])) = (ks', r) \<and> r \<noteq> Inr ()
     \<and> map_of (ks_registry ks') [1] \<noteq> None"
proof -
  let ?ks = "StoreKey demo_libs [1] [2] (demo_store [])"
  obtain ks' r where c: "Cleanup ?ks = (ks', r)" by fastforce
  have "([1], NewFileChunk demo_libs [2] ''net'') \<in> set (ks_registry ?ks)" by (simp add: StoreKey_def)
  moreover have "file_at (ks_disk ?ks) (fc_Location (NewFileChunk demo_libs [2] ''net'')) = None"
    by (simp add: StoreKey_def NewFileChunk_def)
  ultimately have "r \<noteq> Inr ()" using Cleanup_contract [OF c] by force
  moreover have "map_of (ks_registry ?ks) [1] \<noteq> None" by (simp add: StoreKey_def)
  ultimately show ?thesis using Cleanup_contract [OF c] c by auto
qed

text \<open>Files with another extension are spared.\<close>

lemma CleanupExtensions_spares:
  assumes "CleanupExtensions exts ks = (ks', r)" and "path_ext p \<notin> set exts"
  shows "file_at (ks_disk ks') p = file_at (ks_disk ks) p"
proof -
  have "p \<notin> {fc_Location (snd x) | x. x \<in> set (ks_registry ks) \<and> path_ext (fc_Location (snd x)) \<in> set exts}"
    using assms(2) by blast
  moreover have "p \<notin> {path_join (metadata_dir ks) n | n. path_ext n \<in> set exts}"
    using assms(2) by (auto simp: path_ext_join)
  ultimately show ?thesis using CleanupExtensions_cases [OF assms(1)] unfolding touches_def by blast
qed

text \<open>
  The partial cleanups forget everything but delete one half, whatever the disk does: \<open>CleanupKDHT\<close> leaves every
  metadata file of a reference in place, \<open>CleanupMetaData\<close> every chunk file, and after success both maps are
  empty; the files that stay are unknown to the store until the next start.
\<close>

lemma partial_cleanups:
  "(\<forall>h. file_at (ks_disk (fst (CleanupKDHT ks))) (metadata_path ks h) = file_at (ks_disk ks) (metadata_path ks h))
    \<and> (snd (CleanupKDHT ks) = Inr () \<longrightarrow> ks_registry (fst (CleanupKDHT ks)) = [] \<and> ks_references (fst (CleanupKDHT ks)) = []
        \<and> (\<forall>k c. (k, c) \<in> set (ks_registry ks) \<longrightarrow> fc_Location c = chunkPath ks k
              \<longrightarrow> file_at (ks_disk (fst (CleanupKDHT ks))) (chunkPath ks k) = None))
    \<and> (\<forall>k. file_at (ks_disk (fst (CleanupMetaData ks))) (chunkPath ks k) = file_at (ks_disk ks) (chunkPath ks k))
    \<and> (snd (CleanupMetaData ks) = Inr () \<longrightarrow> ks_registry (fst (CleanupMetaData ks)) = []
        \<and> ks_references (fst (CleanupMetaData ks)) = [])"
proof -
  have A: "CleanupExtensions [''.kdht''] ks = (fst (CleanupKDHT ks), snd (CleanupKDHT ks))" by (simp add: CleanupKDHT_def)
  have B: "CleanupExtensions [''.toml''] ks = (fst (CleanupMetaData ks), snd (CleanupMetaData ks))"
    by (simp add: CleanupMetaData_def)
  note a = CleanupExtensions_cases [OF A] and b = CleanupExtensions_cases [OF B]
  have meta: "file_at (ks_disk (fst (CleanupKDHT ks))) (metadata_path ks h) = file_at (ks_disk ks) (metadata_path ks h)" for h
    by (rule CleanupExtensions_spares [OF A]) (simp add: path_ext_toml)
  have chunk: "file_at (ks_disk (fst (CleanupMetaData ks))) (chunkPath ks k) = file_at (ks_disk ks) (chunkPath ks k)" for k
    by (rule CleanupExtensions_spares [OF B]) (simp add: path_ext_kdht)
  have gone: "file_at (ks_disk (fst (CleanupKDHT ks))) (chunkPath ks k) = None"
    if "snd (CleanupKDHT ks) = Inr ()" "(k, c) \<in> set (ks_registry ks)" "fc_Location c = chunkPath ks k" for k c
    using a that path_ext_kdht [of ks k] by force
  show ?thesis using meta chunk gone a b by simp
qed

end
