(* ===== verification/StoreCmd.thy ===== *)
theory StoreCmd
  imports Housekeeping
begin

text \<open>
  The command of the key store, \<open>storage/key_store/cmd\<close>: it stores a file of the data directory, verifies the stored chunks,
  puts the file together again as a copy and compares the hashes. The data directory is written
  \<open>./data/\<close> everywhere, although \<open>filepath.Join\<close> would drop the leading dot. What is printed is left out.
\<close>

section \<open>Strings\<close>

definition has_prefix :: "string \<Rightarrow> string \<Rightarrow> bool" where
  "has_prefix p s \<longleftrightarrow> take (length p) s = p"

fun contains_string :: "string \<Rightarrow> string \<Rightarrow> bool" where
  "contains_string sub [] = (sub = [])"
| "contains_string sub (c # cs) = (has_prefix sub (c # cs) \<or> contains_string sub cs)"

text \<open>\<open>strings.ToLower\<close> on ASCII text.\<close>

definition to_lower :: "string \<Rightarrow> string" where
  "to_lower = map (\<lambda>c. let n = of_char c :: nat in if 65 \<le> n \<and> n \<le> 90 then char_of (n + 32) else c)"

section \<open>The command\<close>

datatype cmd_error =
    CreateStorageFailed
  | KeystoreFailed ks_error
  | ReadOriginalFailed
  | StoreFileFailed ks_error
  | NilChunk nat
  | ChunkUnreadable nat
  | ChunkSizeMismatch nat
  | ChunkHashMismatch nat
  | ReassembleFailed ks_error
  | VerifyCopyFailed ks_error
  | CopyHashMismatch

datatype cmd_end = UsageExit | FatalExit cmd_error | Crashed go_panic | Stuck | Finished

definition CLEAN :: bool where "CLEAN = True"
definition RUN_ALL :: bool where "RUN_ALL = False"
definition DATA_DIRECTORY :: string where "DATA_DIRECTORY = ''./data/''"

definition getFilesInDirectory :: "string \<Rightarrow> disk \<Rightarrow> disk \<times> string list option" where
  "getFilesInDirectory dirPath d =
     (case os_ReadDir dirPath d of
        (d, None) \<Rightarrow> (d, None)
      | (d, Some entries) \<Rightarrow>
          (d, Some (filter (\<lambda>name. \<not> has_prefix ''copy.'' name \<and> \<not> contains_string ''.DS_Store'' name) entries)))"

definition CreateDirPath :: "disk \<Rightarrow> disk \<times> bool" where
  "CreateDirPath d = os_Access d"

fun verify_loop :: "libs \<Rightarrow> nat \<Rightarrow> file_chunk option list \<Rightarrow> key_store \<Rightarrow> key_store \<times> (cmd_error, unit) go" where
  "verify_loop H i [] ks = (ks, Inr ())"
| "verify_loop H i (None # cs) ks = (ks, Inl (Err (NilChunk i)))"
| "verify_loop H i (Some ref # cs) ks =
     (case GetDataFromDisk H (fc_Key ref) ks of
        (ks, Inl (Panic p)) \<Rightarrow> (ks, Inl (Panic p))
      | (ks, Inl _) \<Rightarrow> (ks, Inl (Err (ChunkUnreadable i)))
      | (ks, Inr chunkData) \<Rightarrow>
          if u32 (length chunkData) \<noteq> fc_Size ref then (ks, Inl (Err (ChunkSizeMismatch i)))
          else if sha256 H chunkData \<noteq> fc_DataHash ref then (ks, Inl (Err (ChunkHashMismatch i)))
          else verify_loop H (Suc i) cs ks)"

definition verifyChunks :: "libs \<Rightarrow> file_reference \<Rightarrow> key_store \<Rightarrow> key_store \<times> (cmd_error, unit) go" where
  "verifyChunks H file ks = verify_loop H 0 (fr_Chunks file) ks"

definition copy_like :: "string \<Rightarrow> bool" where
  "copy_like name \<longleftrightarrow> has_prefix ''copy'' (to_lower name)"

primrec remove_copies :: "string \<Rightarrow> string list \<Rightarrow> key_store \<Rightarrow> unit ks_result" where
  "remove_copies dir [] ks = (ks, Inr ())"
| "remove_copies dir (name # names) ks =
     (if copy_like name
      then (case on_disk (os_Remove (path_join dir name)) ks of
              (ks, False) \<Rightarrow> (ks, Inl (Err RemoveFailed))
            | (ks, True) \<Rightarrow> remove_copies dir names ks)
      else remove_copies dir names ks)"

definition cleanupCopyFiles :: "string \<Rightarrow> key_store \<Rightarrow> unit ks_result" where
  "cleanupCopyFiles dir ks =
     (case on_disk (os_ReadDir dir) ks of
        (ks, None) \<Rightarrow> (ks, Inl (Err ReadDirFailed))
      | (ks, Some names) \<Rightarrow> remove_copies dir names ks)"

text \<open>The body of the loop over the chosen files.\<close>

definition run_file :: "libs \<Rightarrow> int \<Rightarrow> nat \<Rightarrow> string \<Rightarrow> key_store \<Rightarrow> key_store \<times> (cmd_error, unit) go" where
  "run_file H now perm FILE_test ks =
     (let filename = DATA_DIRECTORY @ FILE_test in
      case on_disk (os_ReadFile filename) ks of
        (ks, None) \<Rightarrow> (ks, Inl (Err ReadOriginalFailed))
      | (ks, Some originalData) \<Rightarrow>
     (case LoadAndStoreFile H now perm filename ks of
        (ks, Inl e) \<Rightarrow> (ks, Inl (map_failure StoreFileFailed e))
      | (ks, Inr file) \<Rightarrow>
     (case verifyChunks H file ks of
        (ks, Inl e) \<Rightarrow> (ks, Inl e)
      | (ks, Inr _) \<Rightarrow>
      if fm_ChunkSize (fr_MetaData file) = 0 then (ks, Inl (Panic DivideByZero))
      else
        let realPath = DATA_DIRECTORY @ ''copy.'' @ FILE_test; hash = fm_FileHash (fr_MetaData file) in
     (case CopyFileToPath H hash realPath ks of
        (ks, Inl e) \<Rightarrow> (ks, Inl (map_failure ReassembleFailed e))
      | (ks, Inr _) \<Rightarrow>
     (case HashFile H realPath ks of
        (ks, Inl e) \<Rightarrow> (ks, Inl (map_failure VerifyCopyFailed e))
      | (ks, Inr (reassembledHash, len)) \<Rightarrow>
          if hash \<noteq> reassembledHash then (ks, Inl (Err CopyHashMismatch)) else (ks, Inr ()))))))"

primrec run_files :: "libs \<Rightarrow> int \<Rightarrow> nat \<Rightarrow> string list \<Rightarrow> key_store \<Rightarrow> key_store \<times> (cmd_error, unit) go" where
  "run_files H now perm [] ks = (ks, Inr ())"
| "run_files H now perm (f # fs) ks =
     (case run_file H now perm f ks of
        (ks, Inl e) \<Rightarrow> (ks, Inl e)
      | (ks, Inr _) \<Rightarrow> run_files H now perm fs ks)"

text \<open>
  The program from the initialisation of its package variables on. \<open>log.Fatalf\<close> ends the process without the deferred
  cleanup, a panic runs it.
\<close>

definition deferred :: "key_store \<Rightarrow> key_store" where
  "deferred ks = (if CLEAN then fst (CleanupKDHT ks) else ks)"

definition store_cmd :: "libs \<Rightarrow> int \<Rightarrow> nat \<Rightarrow> string list \<Rightarrow> disk \<Rightarrow> disk \<times> cmd_end" where
  "store_cmd H now perm args d =
     (case getFilesInDirectory DATA_DIRECTORY d of
        (d, listing) \<Rightarrow>
      let TEST_FILES = (case listing of None \<Rightarrow> [] | Some files \<Rightarrow> files) in
      if length TEST_FILES \<le> 2 then (d, Crashed IndexOutOfRange)
      else if length args < 2 \<or> args ! 1 \<noteq> ''run'' then (d, UsageExit)
      else
     (case CreateDirPath d of
        (d, False) \<Rightarrow> (d, FatalExit CreateStorageFailed)
      | (d, True) \<Rightarrow>
     (case BootstrapKeyStore H ''storage'' d of
        (ks, Inl (Err e)) \<Rightarrow> (ks_disk ks, FatalExit (KeystoreFailed e))
      | (ks, Inl (Panic p)) \<Rightarrow> (ks_disk ks, Crashed p)
      | (ks, Inl Blocked) \<Rightarrow> (ks_disk ks, Stuck)
      | (_, Inr ks) \<Rightarrow>
          let ks = (if CLEAN then fst (cleanupCopyFiles DATA_DIRECTORY ks) else ks);
              files = (if RUN_ALL then TEST_FILES else [TEST_FILES ! 2]) in
     (case run_files H now perm files ks of
        (ks, Inl (Err e)) \<Rightarrow> (ks_disk ks, FatalExit e)
      | (ks, Inl (Panic p)) \<Rightarrow> (ks_disk (deferred ks), Crashed p)
      | (ks, Inl Blocked) \<Rightarrow> (ks_disk ks, Stuck)
      | (ks, Inr _) \<Rightarrow> (ks_disk (deferred ks), Finished)))))"

section \<open>Lemmas\<close>

lemma data_path: "path_join DATA_DIRECTORY name = DATA_DIRECTORY @ name"
  by (simp add: path_join_def DATA_DIRECTORY_def strip_slashes_def)

text \<open>The data directory is outside the storage directory.\<close>

lemma data_outside:
  assumes "ks_storage ks = ''storage''"
  shows "DATA_DIRECTORY @ name \<notin> own_paths ks" "DATA_DIRECTORY @ name \<noteq> path_join (metadata_dir ks) n"
    "DATA_DIRECTORY @ name \<noteq> chunkPath ks k"
proof -
  have "strip_slashes ''storage'' = ''storage''" by (rule strip_slashes_clean) simp_all
  then have s: "path_join ''storage'' n = ''storage/'' @ n" for n by (simp add: path_join_def)
  have "strip_slashes ''storage/metadata'' = ''storage/metadata''" by (rule strip_slashes_clean) simp_all
  then have m: "path_join ''storage/metadata'' n = ''storage/metadata/'' @ n" for n by (simp add: path_join_def)
  show "DATA_DIRECTORY @ name \<notin> own_paths ks" "DATA_DIRECTORY @ name \<noteq> path_join (metadata_dir ks) n"
    "DATA_DIRECTORY @ name \<noteq> chunkPath ks k"
    using assms by (auto simp: own_paths_def chunkPath_def metadata_path_def metadata_dir_def s m DATA_DIRECTORY_def)
qed

lemma remove_copies_quiet:
  "remove_copies dir names ks = (ks', r) \<Longrightarrow> quiet {path_join dir n | n. copy_like n} ks ks'"
proof (induction names arbitrary: ks)
  case (Cons name names)
  show ?case
  proof (cases "copy_like name")
    case True
    obtain ks1 b where r: "on_disk (os_Remove (path_join dir name)) ks = (ks1, b)" by fastforce
    have "quiet {path_join dir n | n. copy_like n} ks ks1" by (rule quiet_remove [OF r]) (use True in blast)
    then show ?thesis using Cons True r by (cases b) (auto intro: quiet_trans)
  qed (use Cons in simp)
qed simp

lemma cleanupCopyFiles_quiet: "quiet {path_join dir n | n. copy_like n} ks (fst (cleanupCopyFiles dir ks))"
proof -
  obtain ks1 b where r: "on_disk (os_ReadDir dir) ks = (ks1, b)" by fastforce
  have q: "quiet {path_join dir n | n. copy_like n} ks ks1" using quiet_read(5) [OF r] quiet_mono by blast
  show ?thesis
  proof (cases b)
    case (Some names)
    obtain ks2 c where "remove_copies dir names ks1 = (ks2, c)" by fastforce
    then show ?thesis using q remove_copies_quiet quiet_trans r Some by (fastforce simp: cleanupCopyFiles_def)
  qed (use q r in \<open>simp add: cleanupCopyFiles_def\<close>)
qed

text \<open>Starting on a storage directory without metadata gives an empty store.\<close>

lemma load_entries_none: "\<forall>n\<in>set names. \<not> has_suffix toml_suffix n \<Longrightarrow> load_entries H names ks = ks"
  by (induction names) auto

lemma Bootstrap_fresh:
  assumes "reliable d" and "\<forall>n\<in>set (names_in (path_join dir ''metadata'') d). \<not> has_suffix toml_suffix n"
  obtains ks where "BootstrapKeyStore H dir d = (ks, Inr ks)" and "store_ok dir ks"
    and "file_at (ks_disk ks) = file_at d" and "ks_references ks = []" and "ks_registry ks = []"
proof -
  define ks0 where "ks0 = \<lparr>ks_references = [], ks_registry = [], ks_storage = dir,
      ks_metadata = path_join dir ''metadata'', ks_disk = d\<rparr>"
  define ks1 where "ks1 = ticked (ticked (ticked ks0))"
  have r: "reliable (ks_disk ks1)" "file_at (ks_disk ks1) = file_at d" using assms(1) by (simp_all add: ks1_def ks0_def ticked_def)
  have boot: "fst (bootstrapDirs (ks0\<lparr>ks_metadata := ''default''\<rparr>)) = ticked (ticked ks0)"
    using assms(1) by (simp add: bootstrapDirs_def on_disk_reliable ks0_def ticked_def metadata_dir_def)
  have "names_in (path_join dir ''metadata'') (ks_disk (ticked (ticked ks0))) = names_in (path_join dir ''metadata'') d"
    by (simp add: ticked_def tick_def ks0_def names_in_def)
  then have dir: "on_disk (os_ReadDir (path_join dir ''metadata'')) (ticked (ticked ks0))
      = (ks1, Some (names_in (path_join dir ''metadata'') d))"
    using assms(1) by (simp add: on_disk_def os_ReadDir_def ks1_def ks0_def ticked_def)
  have "identifyOrphans ks1 = (ticked ks1, Inr ())"
    using on_disk_ticked(1) [OF r(1)] by (simp add: identifyOrphans_def orphan_files_def ks1_def ks0_def ticked_def)
  then have "BootstrapKeyStore H dir d = (ticked ks1, Inr (ticked ks1))"
    using boot dir load_entries_none [OF assms(2), of H ks1]
    by (simp add: BootstrapKeyStore_def Let_def ks0_def ticked_def)
  moreover have "store_ok dir (ticked ks1)"
    using assms(1) by (simp add: store_ok_def ks1_def ks0_def ticked_def registry_ok_def)
  ultimately show thesis
    by (rule that) (simp_all add: ks1_def ks0_def ticked_def)
qed

lemma verify_loop_reliable:
  assumes "names_pieces H c n content r ks" and "store_ok dir ks" and "i \<le> n"
  shows "\<exists>ks'. verify_loop H i (map (Some \<circ> r) [i..<n]) ks = (ks', Inr ()) \<and> later ks ks'"
  using assms(3,1,2)
proof (induction arbitrary: ks rule: inc_induct)
  case base
  then show ?case by auto
next
  case (step i)
  define b where "b = piece c content i"
  obtain st where st: "chunk_at (fc_Key (r i)) ks = Some (st, b)" "fc_DataHash st = sha256 H b"
    "fc_DataHash (r i) = sha256 H b" "fc_Size (r i) = u32 (length b)"
    using step(4) step(2) by (auto simp: names_pieces_def b_def)
  have g: "GetDataFromDisk H (fc_Key (r i)) ks = (ticked ks, Inr b)"
    using GetData_reliable [OF step(5) st(1)] st(2) by simp
  have upt: "[i..<n] = i # [Suc i..<n]" using step(2) by (simp add: upt_rec)
  have "names_pieces H c n content r (ticked ks)" using step(4) by (rule names_pieces_frame) simp
  then obtain ks' where "verify_loop H (Suc i) (map (Some \<circ> r) [Suc i..<n]) (ticked ks) = (ks', Inr ())" "later (ticked ks) ks'"
    using step(3) [of "ticked ks"] step(5) by (metis ticked_simps(1))
  moreover have "later ks (ticked ks)" by blast
  ultimately show ?case unfolding upt using g st by (auto simp: o_def intro: later_intros(3))
qed

section \<open>The cleanup at the end\<close>

lemma remove_chunks_reliable:
  "reliable (ks_disk ks) \<Longrightarrow> distinct (map (fc_Location \<circ> snd) xs)
     \<Longrightarrow> \<forall>x\<in>set xs. file_at (ks_disk ks) (fc_Location (snd x)) \<noteq> None \<Longrightarrow> snd (remove_chunks sel xs ks) = Inr ()"
proof (induction xs arbitrary: ks)
  case (Cons x xs)
  let ?p = "fc_Location (snd x)"
  have r: "on_disk (os_Remove ?p) ks = (ks\<lparr>ks_disk := drop_file ?p (tick (ks_disk ks))\<rparr>, True)"
    using Cons.prems by (auto simp: on_disk_def os_reliable)
  show ?case
  proof (cases "sel ?p")
    case True
    have "\<forall>y\<in>set xs. fc_Location (snd y) \<noteq> ?p" using Cons.prems(2) by (auto simp: image_iff)
    then show ?thesis using Cons True r by simp
  qed (use Cons in simp)
qed simp

lemma CleanupExtensions_after:
  assumes "remove_chunks (\<lambda>p. path_ext p \<in> set exts) (ks_registry ks) ks = (ks1, Inr ())"
    and "file_at (ks_disk ks1) p = None"
  shows "file_at (ks_disk (fst (CleanupExtensions exts ks))) p = None"
proof -
  let ?sel = "\<lambda>p. path_ext p \<in> set exts"
  obtain ks2 b where b: "on_disk (os_ReadDir (metadata_dir ks1)) ks1 = (ks2, b)" by fastforce
  then have p2: "file_at (ks_disk ks2) p = None"
    using quiet_read(5) [OF b, of "{}"] assms(2) by (simp add: quiet_def touches_def)
  show ?thesis
  proof (cases b)
    case None
    then show ?thesis using assms(1) b p2 by (simp add: CleanupExtensions_def Let_def)
  next
    case (Some names)
    obtain ks3 c where c: "remove_names ?sel (metadata_dir ks2) names ks2 = (ks3, c)" by fastforce
    have "file_at (ks_disk ks3) p = None" using remove_names_cases [OF c] shrinks_gone p2 by blast
    then show ?thesis using assms(1) b c Some by (cases c) (simp_all add: CleanupExtensions_def Let_def)
  qed
qed

text \<open>The registry lists the chunks \<open>K\<close>, each once, where it should be and with its file.\<close>

definition at_rest :: "key_store \<Rightarrow> bool" where
  "at_rest ks \<longleftrightarrow> distinct (map fst (ks_registry ks)) \<and> (\<forall>(k, c)\<in>set (ks_registry ks).
     fc_Location c = chunkPath ks k \<and> file_at (ks_disk ks) (chunkPath ks k) \<noteq> None)"

lemma deferred_effect:
  assumes "store_ok ''storage'' ks" and "at_rest ks"
  shows "file_at (ks_disk (deferred ks)) (DATA_DIRECTORY @ name) = file_at (ks_disk ks) (DATA_DIRECTORY @ name)"
    and "file_at (ks_disk (deferred ks)) (metadata_path ks h) = file_at (ks_disk ks) (metadata_path ks h)"
    and "\<forall>(k, c)\<in>set (ks_registry ks). file_at (ks_disk (deferred ks)) (chunkPath ks k) = None"
proof -
  have s: "ks_storage ks = ''storage''" "reliable (ks_disk ks)" using assms(1) by (simp_all add: store_ok_def)
  have d: "deferred ks = fst (CleanupExtensions [''.kdht''] ks)" by (simp add: deferred_def CLEAN_def CleanupKDHT_def)
  obtain ks' r where c: "CleanupExtensions [''.kdht''] ks = (ks', r)" by fastforce
  show "file_at (ks_disk (deferred ks)) (metadata_path ks h) = file_at (ks_disk ks) (metadata_path ks h)"
    using CleanupExtensions_spares [OF c, of "metadata_path ks h"] c d by (simp add: path_ext_toml)
  have loc: "fc_Location (snd x) = chunkPath ks (fst x)" "file_at (ks_disk ks) (fc_Location (snd x)) \<noteq> None"
    if "x \<in> set (ks_registry ks)" for x
    using assms(2) that by (auto simp: at_rest_def case_prod_beta)
  then have "DATA_DIRECTORY @ name \<notin> {fc_Location (snd x) | x. x \<in> set (ks_registry ks) \<and> path_ext (fc_Location (snd x)) \<in> set [''.kdht'']}
      \<union> {path_join (metadata_dir ks) n | n. path_ext n \<in> set [''.kdht'']}"
    using data_outside [OF s(1)] by auto
  then show "file_at (ks_disk (deferred ks)) (DATA_DIRECTORY @ name) = file_at (ks_disk ks) (DATA_DIRECTORY @ name)"
    using CleanupExtensions_cases [OF c] c d by (simp add: touches_def)
  have "map (fc_Location \<circ> snd) (ks_registry ks) = map (chunkPath ks) (map fst (ks_registry ks))"
    using loc(1) by simp
  then have "distinct (map (fc_Location \<circ> snd) (ks_registry ks))"
    using assms(2) by (simp add: at_rest_def distinct_map inj_on_def comp_inj_on)
  then have ok: "snd (remove_chunks (\<lambda>p. path_ext p \<in> set [''.kdht'']) (ks_registry ks) ks) = Inr ()"
    using loc(2) by (intro remove_chunks_reliable [OF s(2)]) auto
  obtain ks1 where rm: "remove_chunks (\<lambda>p. path_ext p \<in> set [''.kdht'']) (ks_registry ks) ks = (ks1, Inr ())"
    using ok by (metis prod.collapse)
  have "file_at (ks_disk ks1) (chunkPath ks (fst x)) = None" if "x \<in> set (ks_registry ks)" for x
    using remove_chunks_cases [OF rm] that loc(1) [OF that] path_ext_kdht [of ks "fst x"] by fastforce
  then show "\<forall>(k, c)\<in>set (ks_registry ks). file_at (ks_disk (deferred ks)) (chunkPath ks k) = None"
    using CleanupExtensions_after [OF rm] d by auto
qed

section \<open>One file\<close>

lemma later_store_ok: "later ks ks' \<Longrightarrow> store_ok dir ks \<Longrightarrow> store_ok dir ks'"
  unfolding later_def by (elim exE, simp only:, induct_tac k) simp_all

text \<open>What a run leaves for a file of the data directory: the file, its copy, its metadata and its chunks.\<close>

definition left_behind :: "libs \<Rightarrow> string \<Rightarrow> bytes \<Rightarrow> (string \<Rightarrow> bytes option) \<Rightarrow> bool" where
  "left_behind H name content files \<longleftrightarrow> files (DATA_DIRECTORY @ name) = Some content
     \<and> files (DATA_DIRECTORY @ ''copy.'' @ name) = Some content
     \<and> files (metadata_path (in_dir ''storage'') (sha256 H content)) \<noteq> None"

text \<open>Storing a file in an empty store leaves its chunks at rest.\<close>

lemma stores_rest:
  assumes "stores H dir cb n m ks ks'" and "ks_registry ks = []"
  shows "at_rest ks' \<and> fst ` set (ks_registry ks') = (\<lambda>i. fc_Key (fst (cb i))) ` {..<n}"
proof -
  have s: "store_ok dir ks'" "holds H dir cb n ks'" "distinct (map fst (ks_registry ks'))"
    "dom (map_of (ks_registry ks')) \<subseteq> (\<lambda>i. fc_Key (fst (cb i))) ` {..<n}"
    using assms by (auto simp: stores_def reg_grows_def)
  have path: "chunkPath ks' = chunkPath (in_dir dir)" using s(1) by (intro storage_cong(1)) (simp add: store_ok_def in_dir_def)
  have entry: "map_of (ks_registry ks') (fc_Key (fst (cb i))) = Some (at_home H dir (cb i))"
    "fc_Location (at_home H dir (cb i)) = chunkPath ks' (fc_Key (fst (cb i)))"
    "file_at (ks_disk ks') (chunkPath ks' (fc_Key (fst (cb i)))) \<noteq> None" if "i < n" for i
  proof -
    have a: "chunk_at (fc_Key (fst (cb i))) ks' = Some (at_home H dir (cb i), snd (cb i))" using s(2) that by (simp add: holds_def)
    then show "map_of (ks_registry ks') (fc_Key (fst (cb i))) = Some (at_home H dir (cb i))"
      by (auto simp: chunk_at_def split: option.splits)
    show loc: "fc_Location (at_home H dir (cb i)) = chunkPath ks' (fc_Key (fst (cb i)))" by (simp add: at_home_def placed_def path)
    show "file_at (ks_disk ks') (chunkPath ks' (fc_Key (fst (cb i)))) \<noteq> None"
      using a loc by (auto simp: chunk_at_def split: option.splits)
  qed
  have "fc_Location ch = chunkPath ks' k \<and> file_at (ks_disk ks') (chunkPath ks' k) \<noteq> None"
    if "(k, ch) \<in> set (ks_registry ks')" for k ch
  proof -
    have k: "map_of (ks_registry ks') k = Some ch" using map_of_is_SomeI [OF s(3) that] .
    then obtain i where "i < n" "k = fc_Key (fst (cb i))" using s(4) by blast
    then show ?thesis using entry k by auto
  qed
  moreover have "dom (map_of (ks_registry ks')) = (\<lambda>i. fc_Key (fst (cb i))) ` {..<n}" using s(4) entry(1) by blast
  ultimately show ?thesis using s(3) by (auto simp: at_rest_def dom_map_of_conv_image_fst)
qed

lemma at_rest_frame:
  assumes "at_rest ks" and "ks_registry ks' = ks_registry ks" and "ks_storage ks' = ks_storage ks"
    and "\<And>k. file_at (ks_disk ks') (chunkPath ks k) = file_at (ks_disk ks) (chunkPath ks k)"
  shows "at_rest ks'"
  using assms storage_cong(1) [OF assms(3)] by (auto simp: at_rest_def)

lemma cut_indices:
  assumes "cut (CalculateChunkSize (length content)) n (length content)"
  shows "{..<n} = indices (length content)"
proof -
  have "i < n" if "i * CalculateChunkSize (length content) < length content" for i
  proof -
    have "i * CalculateChunkSize (length content) < n * CalculateChunkSize (length content)"
      using that assms unfolding cut_def by linarith
    then show ?thesis by simp
  qed
  then show ?thesis using cut_bounds(1) [OF assms] by (auto simp: indices_def)
qed

text \<open>Verifying the stored chunks, copying the file out and hashing the copy changes one file only.\<close>

lemma verify_copy_reliable:
  fixes name :: string
  assumes ok: "store_ok ''storage'' ks" and names: "names_pieces H (fm_ChunkSize m) n content r ks"
    and refs: "map_of (ks_references ks) (sha256 H content) = Some \<lparr>fr_MetaData = m, fr_Chunks = map (Some \<circ> r) [0..<n]\<rparr>"
    and cut: "cut (fm_ChunkSize m) n (length content)" and size: "fm_TotalSize m = length content"
    and hash: "fm_FileHash m = sha256 H content"
  defines "out \<equiv> DATA_DIRECTORY @ ''copy.'' @ name"
  obtains ks2 ks3 ks4 where "verify_loop H 0 (map (Some \<circ> r) [0..<n]) ks = (ks2, Inr ())"
    and "CopyFileToPath H (sha256 H content) out ks2 = (ks3, Inr ())"
    and "HashFile H out ks3 = (ks4, Inr (sha256 H content, length content))"
    and "ks_storage ks4 = ''storage''" and "ks_registry ks4 = ks_registry ks" and "reliable (ks_disk ks4)"
    and "file_at (ks_disk ks4) out = Some content" and "\<And>p. p \<noteq> out \<Longrightarrow> file_at (ks_disk ks4) p = file_at (ks_disk ks) p"
proof -
  obtain ks2 where v: "verify_loop H 0 (map (Some \<circ> r) [0..<n]) ks = (ks2, Inr ())" "later ks ks2"
    using verify_loop_reliable [OF names ok, of 0] by blast
  note l = later_frame [OF v(2)]
  have ok2: "store_ok ''storage'' ks2" using later_store_ok [OF v(2) ok] .
  have refs2: "map_of (ks_references ks2) (sha256 H content) = Some \<lparr>fr_MetaData = m, fr_Chunks = map (Some \<circ> r) [0..<n]\<rparr>"
    using refs l(3) by simp
  have names2: "names_pieces H (fm_ChunkSize m) n content r ks2" using names l(9) by (simp add: names_pieces_def)
  have st2: "ks_storage ks2 = ''storage''" "reliable (ks_disk ks2)" using ok2 by (simp_all add: store_ok_def)
  obtain ks3 where c: "CopyFileToPath H (sha256 H content) out ks2 = (ks3, Inr ())" "file_at (ks_disk ks3) out = Some content"
    using CopyFileToPath_reliable [OF ok2 refs2 _ names2 cut, of out] data_outside(1) [OF st2(1)] size hash
    by (auto simp: out_def)
  have q: "quiet {out} ks2 ks3" using CopyFileToPath_quiet [OF c(1)] by simp
  then have rel3: "reliable (ks_disk ks3)" using st2(2) by (simp add: quiet_def touches_def reliable_def)
  define ks4 where "ks4 = ticked (ticked (ticked ks3))"
  have "HashFile H out ks3 = (ks4, Inr (sha256 H content, length content))"
    using c(2) rel3 by (simp add: HashFile_def on_disk_ticked Let_def ks4_def)
  moreover have "ks_storage ks4 = ''storage''" "ks_registry ks4 = ks_registry ks" "reliable (ks_disk ks4)"
    "file_at (ks_disk ks4) out = Some content" "\<And>p. p \<noteq> out \<Longrightarrow> file_at (ks_disk ks4) p = file_at (ks_disk ks) p"
    using q l rel3 c(2) st2(1) by (simp_all add: ks4_def ticked_def quiet_def touches_def)
  ultimately show thesis using that v(1) c(1) by blast
qed

text \<open>The files of a run: what storing wrote, and the copy.\<close>

lemma copy_left_behind:
  fixes name :: string
  defines "file \<equiv> DATA_DIRECTORY @ name" and "out \<equiv> DATA_DIRECTORY @ ''copy.'' @ name"
  assumes s: "stores H ''storage'' cb n m ks0 ks1" and st: "ks_storage ks0 = ''storage''"
    and src: "file_at (ks_disk ks0) file = Some content" and hash: "fm_FileHash m = sha256 H content"
    and toml: "\<And>f. None \<notin> set (fr_Chunks f) \<Longrightarrow> toml_encode H f \<noteq> None"
    and copied: "file_at (ks_disk ks4) out = Some content" "\<And>p. p \<noteq> out \<Longrightarrow> file_at (ks_disk ks4) p = file_at (ks_disk ks1) p"
  shows "left_behind H name content (file_at (ks_disk ks4))"
proof -
  let ?dir = "''storage''" and ?f = "\<lparr>fr_MetaData = m, fr_Chunks = file_chunks H ''storage'' cb n\<rparr>"
  have dirk: "ks_storage (in_dir ?dir) = ?dir" by (simp add: in_dir_def)
  have mp: "metadata_path ks0 = metadata_path (in_dir ?dir)" using st dirk by (intro storage_cong(2)) simp
  have files1: "file_at (ks_disk ks1) p
      = ((file_at (ks_disk ks0))(metadata_path (in_dir ?dir) (sha256 H content) := toml_encode H ?f)) p"
    if "p \<notin> range (chunkPath ks0)" for p
    using s that by (simp add: stores_def mp hash)
  have own: "file \<notin> own_paths (in_dir ?dir)" "out \<notin> own_paths (in_dir ?dir)" "file \<notin> range (chunkPath ks0)"
    using data_outside(1) [OF dirk] data_outside(3) [OF st] unfolding file_def out_def by auto
  have "file \<noteq> out" by (simp add: file_def out_def)
  then have "file_at (ks_disk ks4) file = Some content"
    using copied(2) files1 [OF own(3)] own(1) src by (auto simp: own_paths_def)
  moreover have "file_at (ks_disk ks4) (metadata_path (in_dir ?dir) (sha256 H content)) \<noteq> None"
  proof -
    have "metadata_path (in_dir ?dir) (sha256 H content) \<in> own_paths (in_dir ?dir)" by (simp add: own_paths_def)
    then have "metadata_path (in_dir ?dir) (sha256 H content) \<noteq> out" using own(2) by metis
    moreover have "metadata_path (in_dir ?dir) (sha256 H content) \<notin> range (chunkPath ks0)"
      unfolding mp [symmetric] by auto
    moreover have "None \<notin> set (fr_Chunks ?f)" by (auto simp: file_chunks_def)
    ultimately show ?thesis using copied(2) files1 toml [of ?f] by simp
  qed
  ultimately show ?thesis using copied(1) by (simp add: left_behind_def file_def out_def)
qed

lemma run_file_reliable:
  assumes "store_ok ''storage'' ks" and "ks_references ks = []" and "ks_registry ks = []"
    and "file_at (ks_disk ks) (DATA_DIRECTORY @ name) = Some content" and "content \<noteq> []" and "length content < 2 ^ 47"
    and "inj_on (\<lambda>i. sha1 H (sha256 H content @ le64 i)) (indices (length content))"
    and "\<And>f. None \<notin> set (fr_Chunks f) \<Longrightarrow> toml_encode H f \<noteq> None"
  obtains ks' where "run_file H now perm name ks = (ks', Inr ())" and "store_ok ''storage'' ks'" and "at_rest ks'"
    and "left_behind H name content (file_at (ks_disk ks'))"
    and "fst ` set (ks_registry ks') = (\<lambda>i. sha1 H (sha256 H content @ le64 i)) ` indices (length content)"
proof -
  let ?dir = "''storage''" and ?file = "DATA_DIRECTORY @ name" and ?out = "DATA_DIRECTORY @ ''copy.'' @ name"
  have rel: "reliable (ks_disk ks)" and st: "ks_storage (ticked ks) = ?dir"
    using assms(1) by (simp_all add: store_ok_def ticked_def)
  have src: "store_ok ?dir (ticked ks)" "file_at (ks_disk (ticked ks)) ?file = Some content"
    "?file \<notin> range (chunkPath (in_dir ?dir))"
    using assms(1,4) data_outside(3) [of "in_dir ?dir"] by (auto simp: in_dir_def)
  obtain n ks1 m where m: "m = loaded_meta H now perm ?file content n"
    and s: "LoadAndStoreFile H now perm ?file (ticked ks)
      = (ks1, Inr \<lparr>fr_MetaData = m, fr_Chunks = file_chunks H ?dir (loaded_chunk H m content) n\<rparr>)"
      "stores H ?dir (loaded_chunk H m content) n m (ticked ks) ks1"
    and cut: "cut (CalculateChunkSize (length content)) n (length content)"
    using LoadAndStoreFile_reliable [OF src assms(5,6) assms(7) [unfolded indices_def] assms(8)] .
  let ?cb = "loaded_chunk H m content"
  let ?r = "\<lambda>i. at_home H ?dir (?cb i)"
  have f: "fm_ChunkSize m = CalculateChunkSize (length content)" "fm_TotalSize m = length content"
    "fm_FileHash m = sha256 H content" by (simp_all add: m loaded_meta_def)
  have cb: "snd (?cb i) = piece (fm_ChunkSize m) content i"
    "fc_Key (fst (?cb i)) = sha1 H (sha256 H content @ le64 i)" for i
    by (simp_all add: loaded_chunk_def Let_def updateKey_def f)
  have ok1: "store_ok ?dir ks1" and holds: "holds H ?dir ?cb n ks1" using s(2) by (simp_all add: stores_def)
  have names: "names_pieces H (fm_ChunkSize m) n content ?r ks1"
    using holds cb(1) by (auto simp: names_pieces_def holds_def at_home_def placed_def)
  have chunks: "file_chunks H ?dir ?cb n = map (Some \<circ> ?r) [0..<n]" by (simp add: file_chunks_def o_def)
  have refs: "map_of (ks_references ks1) (sha256 H content) = Some \<lparr>fr_MetaData = m, fr_Chunks = map (Some \<circ> ?r) [0..<n]\<rparr>"
    using s(2) by (simp add: stores_def f chunks)
  obtain ks2 ks3 ks4 where v: "verify_loop H 0 (map (Some \<circ> ?r) [0..<n]) ks1 = (ks2, Inr ())"
    and c: "CopyFileToPath H (sha256 H content) ?out ks2 = (ks3, Inr ())"
    and h: "HashFile H ?out ks3 = (ks4, Inr (sha256 H content, length content))"
    and frame: "ks_storage ks4 = ?dir" "ks_registry ks4 = ks_registry ks1" "reliable (ks_disk ks4)"
      "file_at (ks_disk ks4) ?out = Some content" "\<And>p. p \<noteq> ?out \<Longrightarrow> file_at (ks_disk ks4) p = file_at (ks_disk ks1) p"
    using verify_copy_reliable [where name = name, OF ok1 names refs cut [folded f(1)] f(2,3)] by blast
  have "0 < fm_ChunkSize m" using cut by (simp add: cut_def f)
  then have run: "run_file H now perm name ks = (ks4, Inr ())"
    using rel assms(4) s(1) v c h
    by (simp add: run_file_def Let_def on_disk_ticked verifyChunks_def chunks f del: append.simps)
  have rest1: "at_rest ks1" "fst ` set (ks_registry ks1) = (\<lambda>i. fc_Key (fst (?cb i))) ` {..<n}"
    using stores_rest [OF s(2)] assms(3) by (simp_all add: ticked_def)
  have st1: "ks_storage ks1 = ?dir" using ok1 by (simp add: store_ok_def)
  have "?out \<noteq> chunkPath ks1 k" for k by (rule data_outside(3) [OF st1])
  then have rest4: "at_rest ks4" using frame(1,5) st1 by (intro at_rest_frame [OF rest1(1) frame(2)]) metis+
  have keys: "fst ` set (ks_registry ks4) = (\<lambda>i. sha1 H (sha256 H content @ le64 i)) ` indices (length content)"
    using rest1(2) cut_indices [OF cut] by (simp add: frame(2) cb(2))
  have "registry_ok ks4" using rest4 by (auto simp: at_rest_def registry_ok_def dest: map_of_SomeD)
  then have ok4: "store_ok ?dir ks4" using frame(1,3) by (simp add: store_ok_def)
  have "left_behind H name content (file_at (ks_disk ks4))"
    using copy_left_behind [OF s(2) st src(2) f(3) assms(8) frame(4,5)] .
  with run ok4 rest4 show thesis using keys by (rule that)
qed

section \<open>Properties\<close>

text \<open>
  C39. The command on a disk that works: with at least three files in the data directory, the third of them not empty,
  below 128 TiB and of a name that does not start like a copy, no metadata in the storage directory and chunk keys that do not collide, a run finishes; it
  leaves the file as it was and its copy with the same content. All chunk files are removed again but the
  metadata file stays, naming chunks that are gone.
\<close>

theorem store_cmd_copies:
  assumes "reliable d" and "getFilesInDirectory DATA_DIRECTORY d = (d', Some names)" and "2 < length names"
    and "\<not> copy_like (names ! 2)" and "file_at d (DATA_DIRECTORY @ names ! 2) = Some content"
    and "content \<noteq> []" and "length content < 2 ^ 47"
    and "\<forall>n\<in>set (names_in ''storage/metadata'' d). \<not> has_suffix toml_suffix n"
    and "inj_on (\<lambda>i. sha1 H (sha256 H content @ le64 i)) (indices (length content))"
    and "\<And>f. None \<notin> set (fr_Chunks f) \<Longrightarrow> toml_encode H f \<noteq> None"
  shows "\<exists>d''. store_cmd H now perm [prog, ''run''] d = (d'', Finished)
    \<and> left_behind H (names ! 2) content (file_at d'')
    \<and> (\<forall>i\<in>indices (length content). file_at d'' (chunkPath (in_dir ''storage'') (sha1 H (sha256 H content @ le64 i))) = None)"
proof -
  have d': "reliable d'" "file_at d' = file_at d" "names_in dir d' = names_in dir d" for dir
    using assms(1,2) by (auto simp: getFilesInDirectory_def os_ReadDir_def names_in_def tick_def reliable_def file_at_def split: if_splits)
  have cr: "CreateDirPath d' = (tick d', True)" using d'(1) by (simp add: CreateDirPath_def os_reliable)
  have "strip_slashes ''storage'' = ''storage''" by (rule strip_slashes_clean) simp_all
  then have md: "path_join ''storage'' ''metadata'' = ''storage/metadata''" by (simp add: path_join_def)
  have "\<forall>n\<in>set (names_in (path_join ''storage'' ''metadata'') (tick d')). \<not> has_suffix toml_suffix n"
    using assms(8) d'(3) by (simp add: md names_in_def tick_def)
  moreover have "reliable (tick d')" using d'(1) by simp
  ultimately obtain ks where ks: "BootstrapKeyStore H ''storage'' (tick d') = (ks, Inr ks)" "store_ok ''storage'' ks"
    "file_at (ks_disk ks) = file_at (tick d')" "ks_references ks = []" "ks_registry ks = []"
    using Bootstrap_fresh by metis
  define ks1 where "ks1 = fst (cleanupCopyFiles DATA_DIRECTORY ks)"
  have q: "quiet {path_join DATA_DIRECTORY n | n. copy_like n} ks ks1" unfolding ks1_def by (rule cleanupCopyFiles_quiet)
  have ks1: "ks_references ks1 = []" "ks_registry ks1 = []" "store_ok ''storage'' ks1"
    using q ks by (auto simp: quiet_def touches_def store_ok_def registry_ok_def reliable_def)
  have orig: "file_at (ks_disk ks1) (DATA_DIRECTORY @ names ! 2) = Some content"
    using q ks(3) assms(4,5) d'(2) by (auto simp: quiet_def touches_def data_path)
  obtain ks2 where ks2: "run_file H now perm (names ! 2) ks1 = (ks2, Inr ())" "store_ok ''storage'' ks2" "at_rest ks2"
    "left_behind H (names ! 2) content (file_at (ks_disk ks2))"
    "fst ` set (ks_registry ks2) = (\<lambda>i. sha1 H (sha256 H content @ le64 i)) ` indices (length content)"
    by (rule run_file_reliable [OF ks1(3,1,2) orig assms(6,7,9,10)])
  note e = deferred_effect [OF ks2(2,3)]
  have cong: "chunkPath ks2 = chunkPath (in_dir ''storage'')" "metadata_path ks2 = metadata_path (in_dir ''storage'')"
    using ks2(2) by (auto intro!: storage_cong simp: store_ok_def in_dir_def)
  have "store_cmd H now perm [prog, ''run''] d = (ks_disk (deferred ks2), Finished)"
    using assms(2,3) cr ks(1) ks2(1) by (simp add: store_cmd_def CLEAN_def RUN_ALL_def ks1_def)
  moreover have "left_behind H (names ! 2) content (file_at (ks_disk (deferred ks2)))"
    using ks2(4) e(1) [of "names ! 2"] e(1) [of "''copy.'' @ names ! 2"] e(2) by (simp add: left_behind_def cong)
  moreover have "file_at (ks_disk (deferred ks2)) (chunkPath (in_dir ''storage'') (sha1 H (sha256 H content @ le64 i))) = None"
    if "i \<in> indices (length content)" for i
  proof -
    have "sha1 H (sha256 H content @ le64 i) \<in> fst ` set (ks_registry ks2)" using that ks2(5) by blast
    then show ?thesis using e(3) by (force simp: cong)
  qed
  ultimately show ?thesis by blast
qed

definition demo_data :: disk where
  "demo_data = \<lparr>dk_files = [(''./data/a'', [7]), (''./data/b'', [8]), (''./data/c'', [1, 2, 3])], dk_fault = \<lambda>_. Works, dk_time = 0\<rparr>"

lemma demo_listing:
  "names_in DATA_DIRECTORY demo_data = [''a'', ''b'', ''c'']" "names_in ''storage/metadata'' demo_data = []"
  by code_simp+

theorem store_cmd_copies_witness:
  "\<exists>d. store_cmd demo_libs 0 0 [''main'', ''run''] demo_data = (d, Finished)
     \<and> file_at d ''./data/c'' = Some [1, 2, 3] \<and> file_at d ''./data/copy.c'' = Some [1, 2, 3]"
proof -
  have r: "reliable demo_data" by (simp add: demo_data_def reliable_def)
  have g: "getFilesInDirectory DATA_DIRECTORY demo_data = (tick demo_data, Some [''a'', ''b'', ''c''])"
    using r by (simp add: getFilesInDirectory_def os_ReadDir_def demo_listing has_prefix_def)
  have f: "file_at demo_data (DATA_DIRECTORY @ ''c'') = Some [1, 2, 3]" by (simp add: demo_data_def file_at_def DATA_DIRECTORY_def)
  have c: "\<not> copy_like ''c''" by code_simp
  show ?thesis
    using store_cmd_copies [OF r g, of "[1, 2, 3]" demo_libs 0 0 "''main''"] f c
    by (auto simp: demo_listing small_files left_behind_def DATA_DIRECTORY_def)
qed

text \<open>
  With fewer than three files in the data directory the initialisation of the package variables panics, before the arguments are
  looked at.
\<close>

lemma store_cmd_few_files:
  assumes "\<forall>names. snd (getFilesInDirectory DATA_DIRECTORY d) = Some names \<longrightarrow> length names < 3"
  shows "snd (store_cmd H now perm args d) = Crashed IndexOutOfRange"
  using assms by (cases "getFilesInDirectory DATA_DIRECTORY d") (auto simp: store_cmd_def split: option.split)

end
