(* ===== verification/ServiceStore.thy ===== *)
theory ServiceStore
  imports Housekeeping
begin

text \<open>
  The key store of the storage service, \<open>storage/store\<close>: the package \<open>storage/storage.go\<close> uses. Its
  \<open>key_store.go\<close> and \<open>config.go\<close> are an older copy of the files in \<open>storage/key_store\<close>, without file names in the
  records; \<open>store.go\<close> differs in \<open>StoreKey\<close>, which here writes the chunk to disk while it holds the lock
  that \<open>WriteChunkToDisk\<close> takes. Go's \<open>sync.RWMutex\<close> is not reentrant, so the lock is part of the state.
\<close>

section \<open>Data\<close>

record sv_meta =
  sm_FileHash :: bytes
  sm_TotalSize :: nat
  sm_Modified :: int
  sm_Replicate :: nat
  sm_Permissions :: nat
  sm_Signature :: bytes
  sm_TTL :: nat
  sm_ChunkSize :: nat
  sm_TotalChunks :: nat

record sv_chunk =
  sc_Key :: bytes
  sc_Size :: nat
  sc_FileIndex :: nat
  sc_Location :: string
  sc_Protocol :: string
  sc_DataHash :: bytes

record sv_reference =
  sr_MetaData :: sv_meta
  sr_Chunks :: "sv_chunk option list"

record sv_store =
  sv_references :: "(bytes \<times> sv_reference) list"
  sv_registry :: "(bytes \<times> sv_chunk) list"
  sv_storage :: string
  sv_metadata :: string
  sv_locked :: bool
  sv_disk :: disk

type_synonym 'a sv_result = "sv_store \<times> (ks_error, 'a) go"

definition sv_NewFileChunk :: "libs \<Rightarrow> bytes \<Rightarrow> string \<Rightarrow> string \<Rightarrow> sv_chunk" where
  "sv_NewFileChunk H data protocol location =
     \<lparr>sc_Key = sha1 H data, sc_Size = u32 (length data), sc_FileIndex = 0, sc_Location = location,
      sc_Protocol = protocol, sc_DataHash = sha256 H data\<rparr>"

definition sv_updateKey :: "libs \<Rightarrow> sv_chunk \<Rightarrow> bytes \<Rightarrow> nat \<Rightarrow> sv_chunk" where
  "sv_updateKey H fc fileHash fileIndex =
     fc\<lparr>sc_Key := sha1 H (fileHash @ le64 fileIndex), sc_FileIndex := fileIndex\<rparr>"

section \<open>The lock\<close>

text \<open>
  \<open>ks.lock.Lock()\<close> with a deferred \<open>Unlock\<close>, and \<open>RLock\<close> with a deferred \<open>RUnlock\<close>. A call on a lock that is held
  for writing waits; when its own goroutine holds it, it waits forever and the lock stays held.
\<close>

definition with_lock :: "(sv_store \<Rightarrow> 'a sv_result) \<Rightarrow> sv_store \<Rightarrow> 'a sv_result" where
  "with_lock body s =
     (if sv_locked s then (s, Inl Blocked)
      else case body (s\<lparr>sv_locked := True\<rparr>) of
        (s, Inl Blocked) \<Rightarrow> (s, Inl Blocked)
      | (s, r) \<Rightarrow> (s\<lparr>sv_locked := False\<rparr>, r))"

definition with_rlock :: "(sv_store \<Rightarrow> (ks_error, 'a) go) \<Rightarrow> sv_store \<Rightarrow> 'a sv_result" where
  "with_rlock body s = (if sv_locked s then (s, Inl Blocked) else (s, body s))"

definition sv_on_disk :: "(disk \<Rightarrow> disk \<times> 'a) \<Rightarrow> sv_store \<Rightarrow> sv_store \<times> 'a" where
  "sv_on_disk f s = (case f (sv_disk s) of (d, r) \<Rightarrow> (s\<lparr>sv_disk := d\<rparr>, r))"

section \<open>Chunks\<close>

definition sv_chunkPath :: "sv_store \<Rightarrow> bytes \<Rightarrow> string" where
  "sv_chunkPath s key = path_join (sv_storage s) (hex_encode key @ FileExtension)"

definition sv_WriteChunkToDisk :: "libs \<Rightarrow> sv_chunk \<Rightarrow> bytes \<Rightarrow> sv_store \<Rightarrow> sv_chunk sv_result" where
  "sv_WriteChunkToDisk H ref data = with_lock (\<lambda>s.
     if u32 (length data) \<noteq> sc_Size ref then (s, Inl (Err SizeMismatch))
     else
       let ref = ref\<lparr>sc_DataHash := sha256 H data\<rparr>; path = sv_chunkPath s (sc_Key ref) in
       case sv_on_disk (os_WriteFile path data) s of
         (s, False) \<Rightarrow> (s, Inl (Err WriteChunkFailed))
       | (s, True) \<Rightarrow>
      (case sv_on_disk (os_ReadFile path) s of
         (s, None) \<Rightarrow> (s, Inl (Err VerifyReadFailed))
       | (s, Some written) \<Rightarrow>
           if length written \<noteq> length data then (s, Inl (Err WrittenSizeMismatch))
           else if sha256 H written \<noteq> sc_DataHash ref then (s, Inl (Err WrittenHashMismatch))
           else
             let ref = ref\<lparr>sc_Protocol := ''file'', sc_Location := path\<rparr> in
             (s\<lparr>sv_registry := AList.update (sc_Key ref) ref (sv_registry s)\<rparr>, Inr ref)))"

text \<open>\<open>StoreKey\<close> ignores its key and what \<open>WriteChunkToDisk\<close> returns; but that call does not return.\<close>

definition sv_StoreKey :: "libs \<Rightarrow> bytes \<Rightarrow> bytes \<Rightarrow> sv_store \<Rightarrow> unit sv_result" where
  "sv_StoreKey H key val = with_lock (\<lambda>s.
     case sv_WriteChunkToDisk H (sv_NewFileChunk H val ''net'' '''') val s of
       (s, Inl Blocked) \<Rightarrow> (s, Inl Blocked)
     | (s, Inl (Panic p)) \<Rightarrow> (s, Inl (Panic p))
     | (s, _) \<Rightarrow> (s, Inr ()))"

definition sv_GetChunkLocation :: "bytes \<Rightarrow> sv_store \<Rightarrow> sv_chunk sv_result" where
  "sv_GetChunkLocation key = with_rlock (\<lambda>s.
     case map_of (sv_registry s) key of
       None \<Rightarrow> Inl (Err (ChunkNotFound key)) | Some chunk \<Rightarrow> Inr chunk)"

definition sv_ReferenceFromMemory :: "bytes \<Rightarrow> sv_store \<Rightarrow> sv_reference sv_result" where
  "sv_ReferenceFromMemory key = with_rlock (\<lambda>s.
     case map_of (sv_references s) key of
       None \<Rightarrow> Inl (Err (ReferenceNotFound key)) | Some ref \<Rightarrow> Inr ref)"

definition sv_ListLocalChunks :: "sv_store \<Rightarrow> sv_chunk list sv_result" where
  "sv_ListLocalChunks = with_rlock (\<lambda>s. Inr (map snd (sv_registry s)))"

definition sv_ListKnownReferences :: "sv_store \<Rightarrow> sv_reference list sv_result" where
  "sv_ListKnownReferences = with_rlock (\<lambda>s. Inr (map snd (sv_references s)))"

section \<open>Start-up\<close>

definition sv_metadata_dir :: "sv_store \<Rightarrow> string" where
  "sv_metadata_dir s = path_join (sv_storage s) ''metadata''"

definition sv_bootstrapDirs :: "sv_store \<Rightarrow> unit sv_result" where
  "sv_bootstrapDirs s =
     (case sv_on_disk os_Access s of
        (s, False) \<Rightarrow> (s, Inl (Err MkdirFailed))
      | (s, True) \<Rightarrow>
     (case sv_on_disk os_Access s of
        (s, False) \<Rightarrow> (s, Inl (Err MkdirFailed))
      | (s, True) \<Rightarrow> (s\<lparr>sv_metadata := sv_metadata_dir s\<rparr>, Inr ())))"

definition sv_register_chunks :: "sv_chunk option list \<Rightarrow> (bytes \<times> sv_chunk) list \<Rightarrow> (bytes \<times> sv_chunk) list" where
  "sv_register_chunks cs reg =
     fold (\<lambda>c reg. case c of None \<Rightarrow> reg | Some c \<Rightarrow> AList.update (sc_Key c) c reg) cs reg"

primrec sv_load_entries :: "(bytes \<Rightarrow> sv_reference option) \<Rightarrow> string list \<Rightarrow> sv_store \<Rightarrow> sv_store" where
  "sv_load_entries decode [] s = s"
| "sv_load_entries decode (name # names) s =
     (if \<not> has_suffix toml_suffix name then sv_load_entries decode names s
      else case name_hash name of
        None \<Rightarrow> sv_load_entries decode names s
      | Some fileHash \<Rightarrow>
          (case sv_on_disk (os_ReadFile (path_join (sv_metadata s) name)) s of
             (s, None) \<Rightarrow> sv_load_entries decode names s
           | (s, Some b) \<Rightarrow>
               (case decode b of
                  None \<Rightarrow> sv_load_entries decode names s
                | Some file \<Rightarrow>
                    sv_load_entries decode names
                      (s\<lparr>sv_references := AList.update fileHash file (sv_references s),
                         sv_registry := sv_register_chunks (sr_Chunks file) (sv_registry s)\<rparr>))))"

section \<open>Orphans\<close>

definition sv_orphans_root :: "sv_store \<Rightarrow> string" where
  "sv_orphans_root s = path_join (sv_storage s) ''.orphans''"

primrec sv_missing_any :: "sv_chunk option list \<Rightarrow> sv_store \<Rightarrow> sv_store \<times> bool" where
  "sv_missing_any [] s = (s, False)"
| "sv_missing_any (c # cs) s =
     (case c of
        None \<Rightarrow> (s, True)
      | Some chunk \<Rightarrow>
          (case sv_on_disk (os_Stat (sv_chunkPath s (sc_Key chunk))) s of
             (s, Absent) \<Rightarrow> (s, True)
           | (s, _) \<Rightarrow> sv_missing_any cs s))"

primrec sv_move_chunks :: "string \<Rightarrow> sv_chunk option list \<Rightarrow> sv_store \<Rightarrow> sv_store" where
  "sv_move_chunks dir [] s = s"
| "sv_move_chunks dir (c # cs) s =
     (case c of
        None \<Rightarrow> sv_move_chunks dir cs s
      | Some chunk \<Rightarrow>
          let srcPath = sv_chunkPath s (sc_Key chunk) in
          (case sv_on_disk (os_Stat srcPath) s of
             (s, st) \<Rightarrow>
               let s = (if st = Present
                        then fst (sv_on_disk (os_Rename srcPath (path_join dir (hex_encode (sc_Key chunk) @ FileExtension))) s)
                        else s)
               in sv_move_chunks dir cs (s\<lparr>sv_registry := AList.delete (sc_Key chunk) (sv_registry s)\<rparr>)))"

definition sv_orphan_file :: "bytes \<Rightarrow> sv_reference \<Rightarrow> sv_store \<Rightarrow> sv_store" where
  "sv_orphan_file fileHash fileRef s =
     (case sv_missing_any (sr_Chunks fileRef) s of
        (s, False) \<Rightarrow> s
      | (s, True) \<Rightarrow>
          let hexHash = hex_encode fileHash; dir = path_join (sv_orphans_root s) hexHash in
          (case sv_on_disk os_Access s of
             (s, False) \<Rightarrow> s
           | (s, True) \<Rightarrow>
               let s = sv_move_chunks dir (sr_Chunks fileRef) s;
                   metaName = hexHash @ toml_suffix;
                   s = fst (sv_on_disk (os_Rename (path_join (sv_metadata s) metaName)
                                                  (path_join (sv_orphans_root s) metaName)) s)
               in s\<lparr>sv_references := AList.delete fileHash (sv_references s)\<rparr>))"

definition sv_identifyOrphans :: "sv_store \<Rightarrow> unit sv_result" where
  "sv_identifyOrphans = with_lock (\<lambda>s.
     case sv_on_disk os_Access s of
       (s, False) \<Rightarrow> (s, Inl (Err MkdirFailed))
     | (s, True) \<Rightarrow> (fold (\<lambda>(h, f) s. sv_orphan_file h f s) (sv_references s) s, Inr ()))"

definition sv_BootstrapKeyStore :: "(bytes \<Rightarrow> sv_reference option) \<Rightarrow> string \<Rightarrow> disk \<Rightarrow> sv_store sv_result" where
  "sv_BootstrapKeyStore decode storageDir d =
     (let s = \<lparr>sv_references = [], sv_registry = [], sv_storage = storageDir, sv_metadata = ''default'',
               sv_locked = False, sv_disk = d\<rparr>;
          s = fst (sv_bootstrapDirs s)
      in case sv_on_disk (os_ReadDir (sv_metadata s)) s of
           (s, None) \<Rightarrow> (s, Inl (Err ReadDirFailed))
         | (s, Some names) \<Rightarrow>
             (case sv_identifyOrphans (sv_load_entries decode names s) of
                (s, Inl Blocked) \<Rightarrow> (s, Inl Blocked)
              | (s, Inl (Panic p)) \<Rightarrow> (s, Inl (Panic p))
              | (s, _) \<Rightarrow> (s, Inr s)))"

section \<open>Cleanup\<close>

primrec sv_remove_chunks :: "(string \<Rightarrow> bool) \<Rightarrow> (bytes \<times> sv_chunk) list \<Rightarrow> sv_store \<Rightarrow> unit sv_result" where
  "sv_remove_chunks sel [] s = (s, Inr ())"
| "sv_remove_chunks sel (x # xs) s =
     (if sel (sc_Location (snd x))
      then (case sv_on_disk (os_Remove (sc_Location (snd x))) s of
              (s, False) \<Rightarrow> (s, Inl (Err RemoveFailed))
            | (s, True) \<Rightarrow> sv_remove_chunks sel xs s)
      else sv_remove_chunks sel xs s)"

primrec sv_remove_names :: "(string \<Rightarrow> bool) \<Rightarrow> string \<Rightarrow> string list \<Rightarrow> sv_store \<Rightarrow> unit sv_result" where
  "sv_remove_names sel dir [] s = (s, Inr ())"
| "sv_remove_names sel dir (name # names) s =
     (if sel name
      then (case sv_on_disk (os_Remove (path_join dir name)) s of
              (s, False) \<Rightarrow> (s, Inl (Err RemoveFailed))
            | (s, True) \<Rightarrow> sv_remove_names sel dir names s)
      else sv_remove_names sel dir names s)"

definition sv_reset_maps :: "sv_store \<Rightarrow> sv_store" where
  "sv_reset_maps s = s\<lparr>sv_registry := [], sv_references := []\<rparr>"

definition sv_Cleanup :: "sv_store \<Rightarrow> unit sv_result" where
  "sv_Cleanup = with_lock (\<lambda>s.
     case sv_remove_chunks (\<lambda>_. True) (sv_registry s) s of
       (s, Inl e) \<Rightarrow> (s, Inl e)
     | (s, Inr _) \<Rightarrow>
    (case sv_on_disk (os_RemoveAll (sv_metadata_dir s)) s of
       (s, False) \<Rightarrow> (s, Inl (Err RemoveFailed))
     | (s, True) \<Rightarrow> (sv_reset_maps s, Inr ())))"

definition sv_CleanupExtensions :: "string list \<Rightarrow> sv_store \<Rightarrow> unit sv_result" where
  "sv_CleanupExtensions extensions = with_lock (\<lambda>s.
     let validExt = (\<lambda>p. path_ext p \<in> set extensions) in
     case sv_remove_chunks validExt (sv_registry s) s of
       (s, Inl e) \<Rightarrow> (s, Inl e)
     | (s, Inr _) \<Rightarrow>
    (case sv_on_disk (os_ReadDir (sv_metadata_dir s)) s of
       (s, None) \<Rightarrow> (sv_reset_maps s, Inr ())
     | (s, Some names) \<Rightarrow>
    (case sv_remove_names validExt (sv_metadata_dir s) names s of
       (s, Inl e) \<Rightarrow> (s, Inl e)
     | (s, Inr _) \<Rightarrow> (sv_reset_maps s, Inr ()))))"

definition sv_CleanupKDHT :: "sv_store \<Rightarrow> unit sv_result" where
  "sv_CleanupKDHT s = sv_CleanupExtensions [''.kdht''] s"

definition sv_CleanupMetaData :: "sv_store \<Rightarrow> unit sv_result" where
  "sv_CleanupMetaData s = sv_CleanupExtensions [''.toml''] s"

section \<open>The correspondence with \<open>storage/key_store\<close>\<close>

text \<open>
  \<open>up\<close> reads a store of this package as one of \<open>storage/key_store\<close>, with empty file names and without the
  lock. Under it every operation but \<open>StoreKey\<close> does what its namesake there does.
\<close>

definition up_meta :: "sv_meta \<Rightarrow> file_meta" where
  "up_meta m = \<lparr>fm_FileHash = sm_FileHash m, fm_TotalSize = sm_TotalSize m, fm_FileName = '''',
     fm_Modified = sm_Modified m, fm_Replicate = sm_Replicate m, fm_Permissions = sm_Permissions m,
     fm_Signature = sm_Signature m, fm_TTL = sm_TTL m, fm_ChunkSize = sm_ChunkSize m,
     fm_TotalChunks = sm_TotalChunks m\<rparr>"

definition up_chunk :: "sv_chunk \<Rightarrow> file_chunk" where
  "up_chunk c = \<lparr>fc_Key = sc_Key c, fc_FileName = '''', fc_Size = sc_Size c, fc_FileIndex = sc_FileIndex c,
     fc_Location = sc_Location c, fc_Protocol = sc_Protocol c, fc_DataHash = sc_DataHash c\<rparr>"

definition up_ref :: "sv_reference \<Rightarrow> file_reference" where
  "up_ref f = \<lparr>fr_MetaData = up_meta (sr_MetaData f), fr_Chunks = map (map_option up_chunk) (sr_Chunks f)\<rparr>"

definition up :: "sv_store \<Rightarrow> key_store" where
  "up s = \<lparr>ks_references = map (apsnd up_ref) (sv_references s),
     ks_registry = map (apsnd up_chunk) (sv_registry s),
     ks_storage = sv_storage s, ks_metadata = sv_metadata s, ks_disk = sv_disk s\<rparr>"

lemma up_chunk_simps [simp]:
  "fc_Key (up_chunk c) = sc_Key c" "fc_Size (up_chunk c) = sc_Size c" "fc_Location (up_chunk c) = sc_Location c"
  "fc_DataHash (up_chunk c) = sc_DataHash c"
  by (simp_all add: up_chunk_def)

lemma up_ref_simps [simp]: "fr_Chunks (up_ref f) = map (map_option up_chunk) (sr_Chunks f)"
  by (simp add: up_ref_def)

lemma up_simps [simp]:
  "ks_references (up s) = map (apsnd up_ref) (sv_references s)"
  "ks_registry (up s) = map (apsnd up_chunk) (sv_registry s)"
  "ks_storage (up s) = sv_storage s" "ks_metadata (up s) = sv_metadata s" "ks_disk (up s) = sv_disk s"
  "up (s\<lparr>sv_locked := b\<rparr>) = up s"
  by (simp_all add: up_def)

lemma up_updates:
  "up (s\<lparr>sv_disk := d\<rparr>) = (up s)\<lparr>ks_disk := d\<rparr>"
  "up (s\<lparr>sv_metadata := m\<rparr>) = (up s)\<lparr>ks_metadata := m\<rparr>"
  "up (s\<lparr>sv_registry := R\<rparr>) = (up s)\<lparr>ks_registry := map (apsnd up_chunk) R\<rparr>"
  "up (s\<lparr>sv_references := F\<rparr>) = (up s)\<lparr>ks_references := map (apsnd up_ref) F\<rparr>"
  by (simp_all add: up_def)

lemma update_apsnd: "AList.update k (f v) (map (apsnd f) xs) = map (apsnd f) (AList.update k v xs)"
  by (induction xs) auto

lemma delete_apsnd: "AList.delete k (map (apsnd f) xs) = map (apsnd f) (AList.delete k xs)"
  by (induction xs) (auto simp: AList.delete_eq)

lemma map_of_apsnd: "map_of (map (apsnd f) xs) k = map_option f (map_of xs k)"
  by (induction xs) auto

lemma on_disk_up: "on_disk f (up s) = apfst up (sv_on_disk f s)"
  by (simp add: on_disk_def sv_on_disk_def up_updates split: prod.split)

lemma paths_up [simp]:
  "chunkPath (up s) = sv_chunkPath s" "metadata_dir (up s) = sv_metadata_dir s" "orphans_root (up s) = sv_orphans_root s"
  by (simp_all add: fun_eq_iff chunkPath_def sv_chunkPath_def metadata_dir_def sv_metadata_dir_def
      orphans_root_def sv_orphans_root_def)

lemma reset_up: "reset_maps (up s) = up (sv_reset_maps s)"
  by (simp add: reset_maps_def sv_reset_maps_def up_updates)

lemma sv_on_disk_locked: "sv_locked (fst (sv_on_disk f s)) = sv_locked s"
  by (simp add: sv_on_disk_def split: prod.split)

text \<open>The loops.\<close>

lemma missing_any_up:
  "missing_any (map (map_option up_chunk) cs) (up s) = apfst up (sv_missing_any cs s)
    \<and> sv_locked (fst (sv_missing_any cs s)) = sv_locked s"
proof (induction cs arbitrary: s)
  case (Cons c cs)
  show ?case
  proof (cases c)
    case (Some ch)
    obtain s1 st where st: "sv_on_disk (os_Stat (sv_chunkPath s (sc_Key ch))) s = (s1, st)" by fastforce
    have l: "sv_locked s1 = sv_locked s" using sv_on_disk_locked [of _ s] st by (metis fst_conv)
    show ?thesis using Cons.IH [of s1] l by (cases st) (simp_all add: Some on_disk_up st)
  qed simp
qed simp

lemma move_chunks_up:
  "move_chunks dir (map (map_option up_chunk) cs) (up s) = up (sv_move_chunks dir cs s)
    \<and> sv_locked (sv_move_chunks dir cs s) = sv_locked s"
proof (induction cs arbitrary: s)
  case (Cons c cs)
  show ?case
  proof (cases c)
    case (Some ch)
    obtain s1 st where st: "sv_on_disk (os_Stat (sv_chunkPath s (sc_Key ch))) s = (s1, st)" by fastforce
    have l: "sv_locked s1 = sv_locked s" using sv_on_disk_locked [of _ s] st by (metis fst_conv)
    define s2 where "s2 = (if st = Present then fst (sv_on_disk (os_Rename (sv_chunkPath s (sc_Key ch))
        (path_join dir (hex_encode (sc_Key ch) @ FileExtension))) s1) else s1)"
    have l2: "sv_locked s2 = sv_locked s" using l by (simp add: s2_def sv_on_disk_locked)
    define s3 where "s3 = s2\<lparr>sv_registry := AList.delete (sc_Key ch) (sv_registry s2)\<rparr>"
    have "sv_move_chunks dir (c # cs) s = sv_move_chunks dir cs s3"
      by (simp add: Some st s3_def s2_def Let_def)
    moreover have "move_chunks dir (map (map_option up_chunk) (c # cs)) (up s) = move_chunks dir (map (map_option up_chunk) cs) (up s3)"
      by (simp add: Some on_disk_up st s3_def s2_def Let_def up_updates delete_apsnd)
    ultimately show ?thesis using Cons.IH [of s3] l2 by (simp add: s3_def)
  qed (use Cons.IH in simp)
qed simp

lemma orphan_file_up:
  "orphan_file h (up_ref f) (up s) = up (sv_orphan_file h f s) \<and> sv_locked (sv_orphan_file h f s) = sv_locked s"
proof -
  obtain s1 m where m: "sv_missing_any (sr_Chunks f) s = (s1, m)" by fastforce
  have M: "missing_any (map (map_option up_chunk) (sr_Chunks f)) (up s) = (up s1, m)" "sv_locked s1 = sv_locked s"
    using missing_any_up [of "sr_Chunks f" s] by (simp_all add: m)
  obtain s2 a where a: "sv_on_disk os_Access s1 = (s2, a)" by fastforce
  have l: "sv_locked s2 = sv_locked s" using sv_on_disk_locked [of _ s1] a M(2) by (metis fst_conv)
  show ?thesis
  proof (cases "m \<and> a")
    case True
    define s3 where "s3 = sv_move_chunks (path_join (sv_orphans_root s1) (hex_encode h)) (sr_Chunks f) s2"
    have s3: "move_chunks (path_join (sv_orphans_root s1) (hex_encode h)) (map (map_option up_chunk) (sr_Chunks f)) (up s2) = up s3"
      "sv_locked s3 = sv_locked s" using move_chunks_up l by (simp_all add: s3_def)
    show ?thesis using True s3(2)
      by (simp add: orphan_file_def sv_orphan_file_def M m on_disk_up a Let_def s3 flip: s3_def)
        (simp add: up_updates delete_apsnd sv_on_disk_locked s3)
  next
    case False
    then show ?thesis using M(2) l
      by (cases m; cases a) (simp_all add: orphan_file_def sv_orphan_file_def M m on_disk_up a Let_def)
  qed
qed

lemma orphan_files_up:
  "orphan_files (map (apsnd up_ref) refs) (up s) = up (fold (\<lambda>(h, f) s. sv_orphan_file h f s) refs s)
    \<and> sv_locked (fold (\<lambda>(h, f) s. sv_orphan_file h f s) refs s) = sv_locked s"
proof (induction refs arbitrary: s)
  case (Cons x refs)
  show ?case using Cons.IH [of "sv_orphan_file (fst x) (snd x) s"] orphan_file_up [of "fst x" "snd x" s]
    by (simp add: orphan_files_def case_prod_beta)
qed (simp add: orphan_files_def)

lemma remove_chunks_up:
  "remove_chunks sel (map (apsnd up_chunk) xs) (up s) = apfst up (sv_remove_chunks sel xs s)
    \<and> sv_locked (fst (sv_remove_chunks sel xs s)) = sv_locked s \<and> snd (sv_remove_chunks sel xs s) \<noteq> Inl Blocked"
proof (induction xs arbitrary: s)
  case (Cons x xs)
  obtain s1 ok where r: "sv_on_disk (os_Remove (sc_Location (snd x))) s = (s1, ok)" by fastforce
  have l: "sv_locked s1 = sv_locked s" using sv_on_disk_locked [of _ s] r by (metis fst_conv)
  show ?case using Cons.IH [of s] Cons.IH [of s1] l by (cases ok) (simp_all add: on_disk_up r)
qed simp

lemma remove_names_up:
  "remove_names sel dir names (up s) = apfst up (sv_remove_names sel dir names s)
    \<and> sv_locked (fst (sv_remove_names sel dir names s)) = sv_locked s \<and> snd (sv_remove_names sel dir names s) \<noteq> Inl Blocked"
proof (induction names arbitrary: s)
  case (Cons n names)
  obtain s1 ok where r: "sv_on_disk (os_Remove (path_join dir n)) s = (s1, ok)" by fastforce
  have l: "sv_locked s1 = sv_locked s" using sv_on_disk_locked [of _ s] r by (metis fst_conv)
  show ?case using Cons.IH [of s] Cons.IH [of s1] l by (cases ok) (simp_all add: on_disk_up r)
qed simp

lemma steady_loops:
  "sv_remove_chunks sel xs s = (s', r) \<Longrightarrow> sv_locked s' = sv_locked s \<and> r \<noteq> Inl Blocked"
  "sv_remove_names sel dir names s = (s', r) \<Longrightarrow> sv_locked s' = sv_locked s \<and> r \<noteq> Inl Blocked"
  using remove_chunks_up [of sel xs s] remove_names_up [of sel dir names s] by auto

section \<open>Guarded operations\<close>

text \<open>
  The contract of a method that takes the lock once: on a held lock it blocks and changes nothing; otherwise it
  returns, does to the store what its namesake \<open>ref\<close> does, with \<open>v\<close> for its values, and releases the lock.
\<close>

locale guarded_op =
  fixes run :: "sv_store \<Rightarrow> 'a sv_result" and ref :: "key_store \<Rightarrow> 'b ks_result" and v :: "'a \<Rightarrow> 'b"
  assumes stuck: "sv_locked s \<Longrightarrow> run s = (s, Inl Blocked)"
    and mirrors: "\<not> sv_locked s \<Longrightarrow> run s = (s', r) \<Longrightarrow>
      ref (up s) = (up s', map_sum id v r) \<and> \<not> sv_locked s' \<and> r \<noteq> Inl Blocked"
begin

lemma blocks_iff: "snd (run s) = Inl Blocked \<longleftrightarrow> sv_locked s"
  using stuck [of s] mirrors [of s "fst (run s)" "snd (run s)"] by (cases "sv_locked s") auto

lemma lock_kept: "sv_locked (fst (run s)) = sv_locked s"
  using stuck [of s] mirrors [of s "fst (run s)" "snd (run s)"] by (cases "sv_locked s") auto

lemma same_store: "\<not> sv_locked s \<Longrightarrow> up (fst (run s)) = fst (ref (up s))"
  using mirrors [of s "fst (run s)" "snd (run s)"] by simp

lemma same_result: "\<not> sv_locked s \<Longrightarrow> snd (ref (up s)) = map_sum id v (snd (run s))"
  using mirrors [of s "fst (run s)" "snd (run s)"] by simp

end

definition steady :: "(sv_store \<Rightarrow> 'a sv_result) \<Rightarrow> bool" where
  "steady body \<longleftrightarrow> (\<forall>s. sv_locked (fst (body s)) = sv_locked s \<and> snd (body s) \<noteq> Inl Blocked)"

lemma with_lock_guarded:
  assumes "\<And>s. ref (up s) = (up (fst (body s)), map_sum id v (snd (body s)))" and "steady body"
  shows "guarded_op (with_lock body) ref v"
proof
  fix s s' r
  show "sv_locked s \<Longrightarrow> with_lock body s = (s, Inl Blocked)" by (simp add: with_lock_def)
  assume u: "\<not> sv_locked s" and run: "with_lock body s = (s', r)"
  obtain s1 q where b: "body (s\<lparr>sv_locked := True\<rparr>) = (s1, q)" by fastforce
  have q: "q \<noteq> Inl Blocked" using assms(2) b by (metis snd_conv steady_def)
  then have r: "s' = s1\<lparr>sv_locked := False\<rparr> \<and> r = q"
    using u run b by (auto simp: with_lock_def split: sum.splits failure.splits)
  have "ref (up (s\<lparr>sv_locked := True\<rparr>)) = (up s1, map_sum id v q)" using assms(1) b by (metis fst_conv snd_conv)
  then show "ref (up s) = (up s', map_sum id v r) \<and> \<not> sv_locked s' \<and> r \<noteq> Inl Blocked"
    using r q by simp
qed

lemma with_rlock_guarded:
  assumes "\<And>s. ref (up s) = map_sum id v (body s)" and "\<And>s. body s \<noteq> Inl Blocked"
  shows "guarded_op (with_rlock body) (\<lambda>ks. (ks, ref ks)) v"
  using assms by unfold_locales (auto simp: with_rlock_def split: if_splits)


text \<open>Each method that locks meets the contract.\<close>

lemma up_chunk_update:
  "up_chunk (c\<lparr>sc_DataHash := h\<rparr>) = (up_chunk c)\<lparr>fc_DataHash := h\<rparr>"
  "up_chunk (c\<lparr>sc_Protocol := p, sc_Location := l\<rparr>) = (up_chunk c)\<lparr>fc_Protocol := p, fc_Location := l\<rparr>"
  by (simp_all add: up_chunk_def)

interpretation write_chunk: guarded_op "sv_WriteChunkToDisk H c data" "WriteChunkToDisk H (up_chunk c) data" up_chunk
  for H c data
  unfolding sv_WriteChunkToDisk_def
proof (rule with_lock_guarded, goal_cases)
  case (1 s)
  let ?p = "sv_chunkPath s (sc_Key c)"
  obtain s1 w where w: "sv_on_disk (os_WriteFile ?p data) s = (s1, w)" by fastforce
  obtain s2 r where r: "sv_on_disk (os_ReadFile ?p) s1 = (s2, r)" by fastforce
  define c' where "c' = c\<lparr>sc_DataHash := sha256 H data, sc_Protocol := ''file'', sc_Location := ?p\<rparr>"
  have c': "(up_chunk c)\<lparr>fc_DataHash := sha256 H data, fc_Protocol := ''file'', fc_Location := ?p\<rparr> = up_chunk c'"
    and key: "sc_Key c' = sc_Key c"
    by (simp_all add: up_chunk_def c'_def)
  show ?case
    by (cases w; cases r) (simp_all add: WriteChunkToDisk_def Let_def on_disk_up w r c' key up_updates update_apsnd
        flip: c'_def)
next
  case 2
  show ?case by (simp add: steady_def sv_on_disk_def Let_def split: prod.split option.split bool.split)
qed

interpretation orphans: guarded_op sv_identifyOrphans identifyOrphans id
  unfolding sv_identifyOrphans_def
proof (rule with_lock_guarded, goal_cases)
  case (1 s)
  show ?case by (simp add: identifyOrphans_def on_disk_up orphan_files_up split: prod.split bool.split)
next
  case 2
  show ?case by (simp add: steady_def sv_on_disk_def orphan_files_up split: prod.split bool.split)
qed

interpretation cleanup: guarded_op sv_Cleanup Cleanup id
  unfolding sv_Cleanup_def
proof (rule with_lock_guarded, goal_cases)
  case (1 s)
  obtain s1 a where a: "sv_remove_chunks (\<lambda>_. True) (sv_registry s) s = (s1, a)" by fastforce
  then have "remove_chunks (\<lambda>_. True) (map (apsnd up_chunk) (sv_registry s)) (up s) = (up s1, a)"
    by (simp add: remove_chunks_up)
  then show ?case
    by (simp add: Cleanup_def a on_disk_up reset_up split: prod.split bool.split sum.split)
next
  case 2
  have "sv_locked (sv_reset_maps s) = sv_locked s" for s by (simp add: sv_reset_maps_def)
  then show ?case
    by (auto simp: steady_def sv_on_disk_def dest!: steady_loops split: prod.split bool.split sum.split)
qed

interpretation cleanup_ext: guarded_op "sv_CleanupExtensions exts" "CleanupExtensions exts" id for exts
  unfolding sv_CleanupExtensions_def Let_def
proof (rule with_lock_guarded, goal_cases)
  case (1 s)
  obtain s1 a where a: "sv_remove_chunks (\<lambda>p. path_ext p \<in> set exts) (sv_registry s) s = (s1, a)" by fastforce
  then have "remove_chunks (\<lambda>p. path_ext p \<in> set exts) (map (apsnd up_chunk) (sv_registry s)) (up s) = (up s1, a)"
    by (simp add: remove_chunks_up)
  then show ?case
    by (simp add: CleanupExtensions_def Let_def a on_disk_up reset_up remove_names_up
        split: prod.split bool.split sum.split option.split)
next
  case 2
  have reset: "sv_locked (sv_reset_maps s) = sv_locked s" for s by (simp add: sv_reset_maps_def)
  show ?case
    unfolding steady_def
  proof (rule allI, goal_cases)
    case (1 s)
    let ?sel = "\<lambda>p. path_ext p \<in> set exts"
    obtain s1 a where a: "sv_remove_chunks ?sel (sv_registry s) s = (s1, a)" by fastforce
    obtain s2 names where b: "sv_on_disk (os_ReadDir (sv_metadata_dir s1)) s1 = (s2, names)" by fastforce
    obtain s3 d where d: "sv_remove_names ?sel (sv_metadata_dir s2) (the names) s2 = (s3, d)" by fastforce
    have "sv_locked s2 = sv_locked s1" using sv_on_disk_locked [of _ s1] b by (metis fst_conv)
    then show ?case using steady_loops(1) [OF a] steady_loops(2) [OF d] d
      by (cases a; cases names; cases d) (simp_all add: a b reset)
  qed
qed

interpretation chunk_location: guarded_op "sv_GetChunkLocation key" "\<lambda>ks. (ks, GetChunkLocation key ks)" up_chunk for key
  unfolding sv_GetChunkLocation_def
  by (rule with_rlock_guarded) (simp_all add: GetChunkLocation_def map_of_apsnd split: option.split)

interpretation reference: guarded_op "sv_ReferenceFromMemory key" "\<lambda>ks. (ks, ReferenceFromMemory key ks)" up_ref for key
  unfolding sv_ReferenceFromMemory_def
  by (rule with_rlock_guarded) (simp_all add: ReferenceFromMemory_def map_of_apsnd split: option.split)

interpretation list_chunks: guarded_op sv_ListLocalChunks "\<lambda>ks. (ks, Inr (ListLocalChunks ks))" "map up_chunk"
  unfolding sv_ListLocalChunks_def by (rule with_rlock_guarded) (simp_all add: ListLocalChunks_def)

interpretation list_references: guarded_op sv_ListKnownReferences "\<lambda>ks. (ks, Inr (ListKnownReferences ks))" "map up_ref"
  unfolding sv_ListKnownReferences_def by (rule with_rlock_guarded) (simp_all add: ListKnownReferences_def)

end
