(* ===== verification/LocalStorage.thy ===== *)
theory LocalStorage
  imports ServiceStore
begin

text \<open>
  The storage service of a node, \<open>storage/storage.go\<close>, and the functions of \<open>storage/store/config.go\<close> that work
  without a store. \<open>PutFile\<close> and \<open>GetFile\<close> are declared there without a body.
\<close>

section \<open>Functions on data and files\<close>

definition sv_NewChunkID :: "libs \<Rightarrow> bytes option \<Rightarrow> bytes \<Rightarrow> nat \<Rightarrow> bytes" where
  "sv_NewChunkID H chunkData fileHash index =
     (case chunkData of Some b \<Rightarrow> sha1 H b | None \<Rightarrow> sha1 H (fileHash @ le64 index))"

definition sv_CalculateChunkSize :: "nat \<Rightarrow> nat" where
  "sv_CalculateChunkSize fileSize =
     (if fileSize < 2 ^ 16 then u32 fileSize
      else let chunkSize = u64 (2 ^ round_log2 (fileSize div 1000))
           in if chunkSize < 2 ^ 16 then 2 ^ 16
              else if 2 ^ 22 < chunkSize then 2 ^ 22
              else u32 chunkSize)"

definition sv_HashFile :: "libs \<Rightarrow> string \<Rightarrow> sv_store \<Rightarrow> (bytes \<times> nat) sv_result" where
  "sv_HashFile H path s =
     (case sv_on_disk (os_Stat path) s of
        (s, Absent) \<Rightarrow> (s, Inl (Err OpenFailed))
      | (s, StatError) \<Rightarrow> (s, Inl (Err OpenFailed))
      | (s, Present) \<Rightarrow>
     (case sv_on_disk os_Access s of
        (s, False) \<Rightarrow> (s, Inl (Err StatFailed))
      | (s, True) \<Rightarrow>
          let size = (case file_at (sv_disk s) path of None \<Rightarrow> 0 | Some b \<Rightarrow> length b) in
     (case sv_on_disk (os_ReadFile path) s of
        (s, None) \<Rightarrow> (s, Inl (Err HashFailed))
      | (s, Some b) \<Rightarrow> (s, Inr (sha256 H b, size)))))"

definition sv_copyLocalData :: "(string \<Rightarrow> bool) \<Rightarrow> string \<Rightarrow> string \<Rightarrow> sv_store \<Rightarrow> unit sv_result" where
  "sv_copyLocalData is_dir src dst s =
     (let dst = (if is_dir dst then path_join dst (path_base src) else dst) in
      case sv_on_disk (os_Stat src) s of
        (s, Absent) \<Rightarrow> (s, Inl (Err OpenFailed))
      | (s, StatError) \<Rightarrow> (s, Inl (Err OpenFailed))
      | (s, Present) \<Rightarrow>
     (case sv_on_disk (os_WriteFile dst []) s of
        (s, False) \<Rightarrow> (s, Inl (Err CreateFailed))
      | (s, True) \<Rightarrow>
     (case sv_on_disk (os_ReadFile src) s of
        (s, None) \<Rightarrow> (s, Inl (Err CopyFailed))
      | (s, Some b) \<Rightarrow>
     (case sv_on_disk (os_Append dst b) s of
        (s, False) \<Rightarrow> (s, Inl (Err CopyFailed))
      | (s, True) \<Rightarrow> (s, Inr ())))))"

definition sv_SliceToKey :: "bytes \<Rightarrow> (nat, bytes) go" where
  "sv_SliceToKey b = (if length b \<noteq> 20 then Inl (Err (length b)) else Inr b)"

definition sv_ShaCheckSum :: "libs \<Rightarrow> bytes \<Rightarrow> int \<Rightarrow> bytes" where
  "sv_ShaCheckSum H obj n =
     (if n = 20 then sha1 H obj else if n = 32 then sha256 H obj
      else if n = 64 then sha512 H obj else sha1 H obj)"

text \<open>They are the functions of \<open>storage/key_store/config.go\<close>.\<close>

lemma config_copies:
  "sv_NewChunkID H = NewChunkID H" "sv_CalculateChunkSize = CalculateChunkSize"
  "sv_SliceToKey = SliceToKey" "sv_ShaCheckSum H = ShaCheckSum H"
  by (simp_all add: fun_eq_iff sv_NewChunkID_def NewChunkID_def sv_CalculateChunkSize_def CalculateChunkSize_def
      MinChunkSize_def MaxChunkSize_def TargetChunks_def sv_SliceToKey_def SliceToKey_def
      sv_ShaCheckSum_def ShaCheckSum_def KeySize_def HashSize_def CryptoSize_def Let_def)

lemma HashFile_up: "HashFile H path (up s) = apfst up (sv_HashFile H path s)"
  by (simp add: HashFile_def sv_HashFile_def on_disk_up Let_def split: prod.split stat.split bool.split option.split)

lemma copyLocalData_up: "copyLocalData is_dir src dst (up s) = apfst up (sv_copyLocalData is_dir src dst s)"
  by (simp add: copyLocalData_def sv_copyLocalData_def on_disk_up Let_def
      split: prod.split stat.split bool.split option.split)

section \<open>Start-up\<close>

text \<open>
  \<open>down\<close> forgets the file names of a store of \<open>storage/key_store\<close>. Both packages read the same metadata files; the
  TOML decoder ignores keys without a field, so what it gives this one is \<open>down_ref\<close> of what it gives the other, except
  for a file whose \<open>file_name\<close> is not a string, which the other one rejects.
\<close>

definition down_meta :: "file_meta \<Rightarrow> sv_meta" where
  "down_meta m = \<lparr>sm_FileHash = fm_FileHash m, sm_TotalSize = fm_TotalSize m, sm_Modified = fm_Modified m,
     sm_Replicate = fm_Replicate m, sm_Permissions = fm_Permissions m, sm_Signature = fm_Signature m, sm_TTL = fm_TTL m,
     sm_ChunkSize = fm_ChunkSize m, sm_TotalChunks = fm_TotalChunks m\<rparr>"

definition down_chunk :: "file_chunk \<Rightarrow> sv_chunk" where
  "down_chunk c = \<lparr>sc_Key = fc_Key c, sc_Size = fc_Size c, sc_FileIndex = fc_FileIndex c,
     sc_Location = fc_Location c, sc_Protocol = fc_Protocol c, sc_DataHash = fc_DataHash c\<rparr>"

definition down_ref :: "file_reference \<Rightarrow> sv_reference" where
  "down_ref f = \<lparr>sr_MetaData = down_meta (fr_MetaData f), sr_Chunks = map (map_option down_chunk) (fr_Chunks f)\<rparr>"

definition down :: "bool \<Rightarrow> key_store \<Rightarrow> sv_store" where
  "down locked ks = \<lparr>sv_references = map (apsnd down_ref) (ks_references ks),
     sv_registry = map (apsnd down_chunk) (ks_registry ks),
     sv_storage = ks_storage ks, sv_metadata = ks_metadata ks, sv_locked = locked, sv_disk = ks_disk ks\<rparr>"

text \<open>What a read of the disk can give.\<close>

definition disk_bytes :: "disk \<Rightarrow> bytes set" where
  "disk_bytes d = {b. (\<exists>p. file_at d p = Some b) \<or> (\<exists>t. dk_fault d t = Garbles b)}"

lemma down_simps [simp]:
  "sc_Key (down_chunk c) = fc_Key c" "sr_Chunks (down_ref f) = map (map_option down_chunk) (fr_Chunks f)"
  "sv_references (down l ks) = map (apsnd down_ref) (ks_references ks)"
  "sv_registry (down l ks) = map (apsnd down_chunk) (ks_registry ks)"
  "sv_storage (down l ks) = ks_storage ks" "sv_metadata (down l ks) = ks_metadata ks" "sv_disk (down l ks) = ks_disk ks"
  "sv_locked (down l ks) = l" "(down l ks)\<lparr>sv_locked := b\<rparr> = down b ks"
  by (simp_all add: down_chunk_def down_ref_def down_def)

lemma on_disk_down: "sv_on_disk f (down l ks) = apfst (down l) (on_disk f ks)"
  by (simp add: on_disk_def sv_on_disk_def down_def split: prod.split)

lemma paths_down [simp]:
  "sv_chunkPath (down l ks) = chunkPath ks" "sv_metadata_dir (down l ks) = metadata_dir ks"
  "sv_orphans_root (down l ks) = orphans_root ks"
  by (simp_all add: fun_eq_iff chunkPath_def sv_chunkPath_def metadata_dir_def sv_metadata_dir_def
      orphans_root_def sv_orphans_root_def)

lemma register_down:
  "sv_register_chunks (map (map_option down_chunk) cs) (map (apsnd down_chunk) R)
    = map (apsnd down_chunk) (register_chunks cs R)"
proof -
  have "fold (\<lambda>c reg. case c of None \<Rightarrow> reg | Some c \<Rightarrow> AList.update (sc_Key c) c reg) (map (map_option down_chunk) cs)
      (map (apsnd down_chunk) R)
    = map (apsnd down_chunk) (fold (\<lambda>c reg. case c of None \<Rightarrow> reg | Some c \<Rightarrow> AList.update (fc_Key c) c reg) cs R)"
    by (induction cs arbitrary: R) (auto simp: update_apsnd split: option.split)
  then show ?thesis by (simp add: sv_register_chunks_def register_chunks_def)
qed

lemma load_entries_down:
  assumes "\<And>b. b \<in> disk_bytes (ks_disk ks) \<Longrightarrow> decode b = map_option down_ref (toml_decode H b)"
  shows "sv_load_entries decode names (down l ks) = down l (load_entries H names ks)"
  using assms
proof (induction names arbitrary: ks)
  case (Cons name names)
  let ?p = "path_join (ks_metadata ks) name"
  obtain ks1 r where r: "on_disk (os_ReadFile ?p) ks = (ks1, r)" by fastforce
  have same: "disk_bytes (ks_disk ks1) = disk_bytes (ks_disk ks)" and got: "\<And>b. r = Some b \<Longrightarrow> b \<in> disk_bytes (ks_disk ks)"
    using r by (auto simp: on_disk_def os_ReadFile_def tick_def disk_bytes_def file_at_def next_fault_def
        split: fault.splits option.splits)
  have push: "(down l ks1)\<lparr>sv_references := AList.update h (down_ref f) (map (apsnd down_ref) (ks_references ks1)),
        sv_registry := sv_register_chunks (map (map_option down_chunk) (fr_Chunks f)) (map (apsnd down_chunk) (ks_registry ks1))\<rparr>
      = down l (ks1\<lparr>ks_references := AList.update h f (ks_references ks1),
               ks_registry := register_chunks (fr_Chunks f) (ks_registry ks1)\<rparr>)" for h f
    by (simp add: update_apsnd register_down down_def)
  have IH: "sv_load_entries decode names (down l k) = down l (load_entries H names k)"
    if "ks_disk k = ks_disk ks \<or> ks_disk k = ks_disk ks1" for k
    using that Cons.prems same by (intro Cons.IH) auto
  show ?case
    using IH [of ks] IH [of ks1] IH [of "ks1\<lparr>ks_references := F, ks_registry := R\<rparr>" for F R] Cons.prems [OF got]
    by (auto simp: on_disk_down r push split: option.split)
qed simp

lemma missing_any_down: "sv_missing_any (map (map_option down_chunk) cs) (down l ks) = apfst (down l) (missing_any cs ks)"
proof (induction cs arbitrary: ks)
  case (Cons c cs)
  then show ?case by (auto simp: on_disk_down split: option.split prod.split stat.split)
qed simp

lemma move_chunks_down: "sv_move_chunks dir (map (map_option down_chunk) cs) (down l ks) = down l (move_chunks dir cs ks)"
proof (induction cs arbitrary: ks)
  case (Cons c cs)
  have del: "(down l k)\<lparr>sv_registry := AList.delete key (map (apsnd down_chunk) R)\<rparr> = down l (k\<lparr>ks_registry := AList.delete key R\<rparr>)"
    for k key R by (simp add: down_def delete_apsnd)
  show ?case
  proof (cases c)
    case (Some ch)
    obtain ks1 st where st: "on_disk (os_Stat (chunkPath ks (fc_Key ch))) ks = (ks1, st)" by fastforce
    show ?thesis using Cons.IH by (simp add: Some on_disk_down st Let_def del)
  qed (use Cons.IH in simp)
qed simp

lemma orphan_file_down: "sv_orphan_file h (down_ref f) (down l ks) = down l (orphan_file h f ks)"
proof -
  obtain ks1 m where m: "missing_any (fr_Chunks f) ks = (ks1, m)" by fastforce
  obtain ks2 a where a: "on_disk os_Access ks1 = (ks2, a)" by fastforce
  have del: "(down l k)\<lparr>sv_references := AList.delete h (map (apsnd down_ref) R)\<rparr> = down l (k\<lparr>ks_references := AList.delete h R\<rparr>)"
    for k R by (simp add: down_def delete_apsnd)
  show ?thesis
    by (cases m; cases a) (simp_all add: orphan_file_def sv_orphan_file_def missing_any_down m on_disk_down a Let_def
        move_chunks_down del)
qed

lemma orphan_files_down:
  "fold (\<lambda>(h, f) s. sv_orphan_file h f s) (map (apsnd down_ref) refs) (down l ks) = down l (orphan_files refs ks)"
  by (induction refs arbitrary: ks) (auto simp: orphan_files_def orphan_file_down)

lemma identifyOrphans_down: "sv_identifyOrphans (down False ks) = apfst (down False) (identifyOrphans ks)"
  by (simp add: sv_identifyOrphans_def identifyOrphans_def with_lock_def on_disk_down orphan_files_down
      split: prod.split bool.split)

lemma Bootstrap_down:
  assumes "\<And>b. b \<in> disk_bytes d \<Longrightarrow> decode b = map_option down_ref (toml_decode H b)"
  shows "sv_BootstrapKeyStore decode dir d = map_prod (down False) (map_sum id (down False)) (BootstrapKeyStore H dir d)"
proof -
  define k0 where "k0 = \<lparr>ks_references = [], ks_registry = [], ks_storage = dir, ks_metadata = ''default'', ks_disk = d\<rparr>"
  have start: "\<lparr>sv_references = [], sv_registry = [], sv_storage = dir, sv_metadata = ''default'', sv_locked = False, sv_disk = d\<rparr> = down False k0"
    by (simp add: down_def k0_def)
  obtain k1 q where q: "bootstrapDirs k0 = (k1, q)" by fastforce
  have q': "fst (sv_bootstrapDirs (down False k0)) = down False k1"
    using q by (auto simp: bootstrapDirs_def sv_bootstrapDirs_def on_disk_down split: prod.splits bool.splits)
  obtain k2 names where n: "on_disk (os_ReadDir (ks_metadata k1)) k1 = (k2, names)" by fastforce
  have "disk_bytes (ks_disk k1) = disk_bytes d"
    using q by (auto simp: k0_def bootstrapDirs_def on_disk_def os_Access_def tick_def disk_bytes_def file_at_def split: prod.splits bool.splits)
  moreover have "disk_bytes (ks_disk k2) = disk_bytes (ks_disk k1)"
    using n by (auto simp: on_disk_def os_ReadDir_def tick_def disk_bytes_def file_at_def split: prod.splits)
  ultimately have load: "sv_load_entries decode ns (down False k2) = down False (load_entries H ns k2)" for ns
    using assms by (intro load_entries_down) simp
  have ends: "o3 = Inr () \<or> o3 = Inl (Err MkdirFailed)" if "identifyOrphans k = (k3, o3)" for k k3 o3
    using that by (auto simp: identifyOrphans_def split: prod.splits bool.splits)
  show ?thesis
  proof (cases names)
    case None
    then show ?thesis
      by (simp add: sv_BootstrapKeyStore_def BootstrapKeyStore_def Let_def start q q' on_disk_down n flip: k0_def)
  next
    case (Some ns)
    obtain k3 o3 where o3: "identifyOrphans (load_entries H ns k2) = (k3, o3)" by fastforce
    then show ?thesis using ends [OF o3] Some
      by (auto simp: sv_BootstrapKeyStore_def BootstrapKeyStore_def Let_def start q q' on_disk_down n load
          identifyOrphans_down simp flip: k0_def)
  qed
qed

section \<open>The service\<close>

record storage_cache =
  cache_data :: "(bytes \<times> bytes option) list"
  cache_accessed :: "(bytes \<times> int) list"
  cache_size :: int

record local_storage =
  ls_keyStore :: sv_store
  ls_cache :: storage_cache
  ls_accessKeys :: "(bytes \<times> applock) list"
  ls_locked :: bool

definition NewLocalStorage :: "(bytes \<Rightarrow> sv_reference option) \<Rightarrow> string \<Rightarrow> disk \<Rightarrow> (ks_error, local_storage) go" where
  "NewLocalStorage decode storageDir d =
     (case sv_BootstrapKeyStore decode storageDir d of
        (_, Inl e) \<Rightarrow> Inl e
      | (_, Inr ks) \<Rightarrow>
          Inr \<lparr>ls_keyStore = ks, ls_cache = \<lparr>cache_data = [], cache_accessed = [], cache_size = 0\<rparr>,
               ls_accessKeys = [], ls_locked = False\<rparr>)"

text \<open>The receiver is a pointer; after a failed start \<open>NewNode\<close> keeps a nil one.\<close>

definition SaveKey :: "libs \<Rightarrow> bytes \<Rightarrow> bytes \<Rightarrow> local_storage option
    \<Rightarrow> local_storage option \<times> (ks_error, unit) go" where
  "SaveKey H key val srv =
     (case srv of
        None \<Rightarrow> (None, Inl (Panic NilDereference))
      | Some ls \<Rightarrow>
          if ls_locked ls then (srv, Inl Blocked)
          else (case sv_StoreKey H key val (ls_keyStore ls) of
                  (ks, Inl Blocked) \<Rightarrow> (Some (ls\<lparr>ls_keyStore := ks, ls_locked := True\<rparr>), Inl Blocked)
                | (ks, r) \<Rightarrow> (Some (ls\<lparr>ls_keyStore := ks\<rparr>), r)))"

definition FindKey :: "bytes \<Rightarrow> local_storage option \<Rightarrow> (ks_error, bytes option \<times> bool) go" where
  "FindKey key srv = Inr (None, False)"

lemma StoreKey_stuck: "sv_StoreKey H key val s = (s\<lparr>sv_locked := True\<rparr>, Inl Blocked)"
proof (cases "sv_locked s")
  case True
  then have "s\<lparr>sv_locked := True\<rparr> = s" by simp
  then show ?thesis using True by (simp add: sv_StoreKey_def with_lock_def)
next
  case False
  then show ?thesis by (simp add: sv_StoreKey_def with_lock_def sv_WriteChunkToDisk_def)
qed

lemmas blocks_iff =
  write_chunk.blocks_iff orphans.blocks_iff cleanup.blocks_iff cleanup_ext.blocks_iff chunk_location.blocks_iff
  reference.blocks_iff list_chunks.blocks_iff list_references.blocks_iff

section \<open>Properties\<close>

text \<open>What a method does when its lock is free.\<close>

definition returns_as :: "(sv_store \<Rightarrow> 'a sv_result) \<Rightarrow> (key_store \<Rightarrow> 'b ks_result) \<Rightarrow> ('a \<Rightarrow> 'b) \<Rightarrow> sv_store \<Rightarrow> bool" where
  "returns_as run ref v s \<longleftrightarrow>
     (\<exists>s' r. run s = (s', r) \<and> r \<noteq> Inl Blocked \<and> \<not> sv_locked s' \<and> ref (up s) = (up s', map_sum id v r))"

text \<open>
  C32. The store of the storage service is the key store of \<open>storage/key_store\<close> with a lock. On a store whose lock is free
  every exported method but \<open>StoreKey\<close> returns, releases the lock, and has the result and the effect on
  memory and disk of its namesake. Start-up, where the decoder reads every metadata file as its namesake's does but for the file
  names, ends as its namesake, with a free lock and the store without the file names.
\<close>

theorem service_store_mirrors:
  assumes "\<not> sv_locked s" and "\<And>b. b \<in> disk_bytes d \<Longrightarrow> decode b = map_option down_ref (toml_decode H b)"
  shows "returns_as (sv_WriteChunkToDisk H c data) (WriteChunkToDisk H (up_chunk c) data) up_chunk s
    \<and> returns_as (sv_GetChunkLocation k) (\<lambda>ks. (ks, GetChunkLocation k ks)) up_chunk s
    \<and> returns_as (sv_ReferenceFromMemory h) (\<lambda>ks. (ks, ReferenceFromMemory h ks)) up_ref s
    \<and> returns_as sv_ListLocalChunks (\<lambda>ks. (ks, Inr (ListLocalChunks ks))) (map up_chunk) s
    \<and> returns_as sv_ListKnownReferences (\<lambda>ks. (ks, Inr (ListKnownReferences ks))) (map up_ref) s
    \<and> returns_as sv_identifyOrphans identifyOrphans id s
    \<and> returns_as sv_Cleanup Cleanup id s
    \<and> returns_as (sv_CleanupExtensions exts) (CleanupExtensions exts) id s
    \<and> returns_as sv_CleanupKDHT CleanupKDHT id s
    \<and> returns_as sv_CleanupMetaData CleanupMetaData id s
    \<and> sv_BootstrapKeyStore decode dir d = map_prod (down False) (map_sum id (down False)) (BootstrapKeyStore H dir d)"
proof -
  have ext: "returns_as (sv_CleanupExtensions e) (CleanupExtensions e) id s" for e
    using cleanup_ext.mirrors [OF assms(1)] unfolding returns_as_def by (metis surj_pair)
  then have "returns_as sv_CleanupKDHT CleanupKDHT id s" "returns_as sv_CleanupMetaData CleanupMetaData id s"
    by (simp_all add: returns_as_def sv_CleanupKDHT_def CleanupKDHT_def sv_CleanupMetaData_def CleanupMetaData_def)
  moreover have "returns_as (sv_WriteChunkToDisk H c data) (WriteChunkToDisk H (up_chunk c) data) up_chunk s"
    using write_chunk.mirrors [OF assms(1)] unfolding returns_as_def by (metis surj_pair)
  moreover have "returns_as (sv_GetChunkLocation k) (\<lambda>ks. (ks, GetChunkLocation k ks)) up_chunk s"
    using chunk_location.mirrors [OF assms(1)] unfolding returns_as_def by (metis surj_pair)
  moreover have "returns_as (sv_ReferenceFromMemory h) (\<lambda>ks. (ks, ReferenceFromMemory h ks)) up_ref s"
    using reference.mirrors [OF assms(1)] unfolding returns_as_def by (metis surj_pair)
  moreover have "returns_as sv_identifyOrphans identifyOrphans id s"
    using orphans.mirrors [OF assms(1)] unfolding returns_as_def by (metis surj_pair)
  moreover have "returns_as sv_Cleanup Cleanup id s"
    using cleanup.mirrors [OF assms(1)] unfolding returns_as_def by (metis surj_pair)
  moreover have "returns_as sv_ListLocalChunks (\<lambda>ks. (ks, Inr (ListLocalChunks ks))) (map up_chunk) s"
    using list_chunks.mirrors [OF assms(1)] unfolding returns_as_def by (metis surj_pair)
  moreover have "returns_as sv_ListKnownReferences (\<lambda>ks. (ks, Inr (ListKnownReferences ks))) (map up_ref) s"
    using list_references.mirrors [OF assms(1)] unfolding returns_as_def by (metis surj_pair)
  ultimately show ?thesis using ext Bootstrap_down [OF assms(2)] by blast
qed

definition demo_sv :: sv_store where
  "demo_sv = \<lparr>sv_references = [], sv_registry = [], sv_storage = ''s'', sv_metadata = ''s/metadata'',
     sv_locked = False, sv_disk = \<lparr>dk_files = [], dk_fault = \<lambda>_. Works, dk_time = 0\<rparr>\<rparr>"

text \<open>A decoder that finds a named file without chunks in every metadata file.\<close>

definition named_libs :: libs where
  "named_libs = demo_libs\<lparr>toml_decode := (\<lambda>b. Some \<lparr>fr_MetaData = blank_meta\<lparr>fm_FileHash := b, fm_FileName := ''n''\<rparr>, fr_Chunks = []\<rparr>)\<rparr>"

theorem service_store_mirrors_witness:
  "(\<exists>s' c. sv_WriteChunkToDisk named_libs (sv_NewFileChunk named_libs [7] ''net'' '''') [7] demo_sv = (s', Inr c)
      \<and> file_at (sv_disk s') (sv_chunkPath demo_sv [7]) = Some [7]
      \<and> WriteChunkToDisk named_libs (up_chunk (sv_NewFileChunk named_libs [7] ''net'' '''')) [7] (up demo_sv)
         = (up s', Inr (up_chunk c)))
   \<and> sv_BootstrapKeyStore (map_option down_ref \<circ> toml_decode named_libs) ''s'' (sv_disk demo_sv)
      = map_prod (down False) (map_sum id (down False)) (BootstrapKeyStore named_libs ''s'' (sv_disk demo_sv))"
proof -
  let ?c = "sv_NewFileChunk named_libs [7] ''net'' ''''"
  have free: "\<not> sv_locked demo_sv" by (simp add: demo_sv_def)
  have dec: "(map_option down_ref \<circ> toml_decode named_libs) b = map_option down_ref (toml_decode named_libs b)" for b by simp
  note m = service_store_mirrors [OF free dec]
  then have "returns_as (sv_WriteChunkToDisk named_libs ?c [7]) (WriteChunkToDisk named_libs (up_chunk ?c) [7]) up_chunk demo_sv"
    and boot: "sv_BootstrapKeyStore (map_option down_ref \<circ> toml_decode named_libs) ''s'' (sv_disk demo_sv)
      = map_prod (down False) (map_sum id (down False)) (BootstrapKeyStore named_libs ''s'' (sv_disk demo_sv))"
    by blast+
  then obtain s' r where run: "sv_WriteChunkToDisk named_libs ?c [7] demo_sv = (s', r)"
    "WriteChunkToDisk named_libs (up_chunk ?c) [7] (up demo_sv) = (up s', map_sum id up_chunk r)"
    unfolding returns_as_def by blast
  have "\<exists>t d. sv_WriteChunkToDisk named_libs ?c [7] demo_sv = (t, Inr d)
      \<and> file_at (sv_disk t) (sv_chunkPath demo_sv [7]) = Some [7]"
    by (simp add: sv_WriteChunkToDisk_def with_lock_def demo_sv_def sv_NewFileChunk_def named_libs_def demo_libs_def u32_def
        sv_on_disk_def os_WriteFile_def os_ReadFile_def next_fault_def file_at_def put_file_def tick_def
        sv_chunkPath_def Let_def)
  then have "\<exists>s' c. sv_WriteChunkToDisk named_libs ?c [7] demo_sv = (s', Inr c)
      \<and> file_at (sv_disk s') (sv_chunkPath demo_sv [7]) = Some [7]
      \<and> WriteChunkToDisk named_libs (up_chunk ?c) [7] (up demo_sv) = (up s', Inr (up_chunk c))" using run by auto
  then show ?thesis using boot by blast
qed

text \<open>
  C33. \<open>SaveKey\<close> never returns: \<open>StoreKey\<close> calls \<open>WriteChunkToDisk\<close> with the lock held. Nothing is stored, and from
  then on every other \<open>SaveKey\<close> and every method of the store blocks as well; only \<open>FindKey\<close>, which never finds
  anything, still answers. On the nil service that \<open>NewNode\<close> keeps after a failed start, \<open>SaveKey\<close> panics.
\<close>

theorem SaveKey_deadlocks:
  assumes "\<not> ls_locked ls"
  shows "snd (SaveKey H key val None) = Inl (Panic NilDereference)
    \<and> (\<exists>ls'. SaveKey H key val (Some ls) = (Some ls', Inl Blocked)
      \<and> up (ls_keyStore ls') = up (ls_keyStore ls)
      \<and> (\<forall>k v. snd (SaveKey H k v (Some ls')) = Inl Blocked)
      \<and> FindKey k (Some ls') = Inr (None, False)
      \<and> (let s = ls_keyStore ls' in
          snd (sv_WriteChunkToDisk H c data s) = Inl Blocked \<and> snd (sv_GetChunkLocation k s) = Inl Blocked
          \<and> snd (sv_ReferenceFromMemory k s) = Inl Blocked \<and> snd (sv_ListLocalChunks s) = Inl Blocked
          \<and> snd (sv_ListKnownReferences s) = Inl Blocked \<and> snd (sv_Cleanup s) = Inl Blocked
          \<and> snd (sv_CleanupKDHT s) = Inl Blocked \<and> snd (sv_CleanupMetaData s) = Inl Blocked))"
  using assms
  by (simp add: SaveKey_def StoreKey_stuck FindKey_def blocks_iff sv_CleanupKDHT_def sv_CleanupMetaData_def)

theorem SaveKey_deadlocks_witness:
  "\<exists>ls ls'. NewLocalStorage (\<lambda>_. None) ''s'' (sv_disk demo_sv) = Inr ls
     \<and> SaveKey demo_libs [1] [2] (Some ls) = (Some ls', Inl Blocked)
     \<and> snd (sv_Cleanup (ls_keyStore ls')) = Inl Blocked"
proof -
  have "\<exists>ks. BootstrapKeyStore demo_libs ''s'' (sv_disk demo_sv) = (ks, Inr ks)"
    by (simp add: BootstrapKeyStore_def bootstrapDirs_def on_disk_def os_Access_def os_ReadDir_def
        demo_sv_def next_fault_def tick_def Let_def)
  moreover have "sv_BootstrapKeyStore (\<lambda>_. None) ''s'' (sv_disk demo_sv)
      = map_prod (down False) (map_sum id (down False)) (BootstrapKeyStore demo_libs ''s'' (sv_disk demo_sv))"
    by (rule Bootstrap_down) (simp add: demo_libs_def)
  ultimately have "\<exists>s k. sv_BootstrapKeyStore (\<lambda>_. None) ''s'' (sv_disk demo_sv) = (s, Inr k)" by auto
  then obtain ls where ls: "NewLocalStorage (\<lambda>_. None) ''s'' (sv_disk demo_sv) = Inr ls" "\<not> ls_locked ls"
    by (auto simp: NewLocalStorage_def)
  show ?thesis
    using ls(1) SaveKey_deadlocks [OF ls(2), of demo_libs "[1]" "[2]"] unfolding Let_def by blast
qed

end
