(* ===== verification/Printing.thy ===== *)
theory Printing
  imports Node LocalStorage
begin

text \<open>
  The printed forms of the key stores, \<open>string.go\<close> of \<open>storage/key_store\<close> and of \<open>storage/store\<close>. Times
  (RFC 3339) and quotients of floats with one decimal are printed by Go's library, which is an argument here.
\<close>

record printers =
  rfc3339 :: "int \<Rightarrow> string"
  one_decimal :: "64 word \<Rightarrow> 64 word \<Rightarrow> string"

section \<open>Lines\<close>

definition nl :: char where "nl = CHR 0x0A"

text \<open>\<open>strings.Split\<close> and \<open>strings.Join\<close> at line feeds.\<close>

fun split_lines :: "string \<Rightarrow> string list" where
  "split_lines [] = [[]]"
| "split_lines (c # cs) =
     (if c = nl then [] # split_lines cs
      else case split_lines cs of [] \<Rightarrow> [[c]] | l # ls \<Rightarrow> (c # l) # ls)"

fun join_lines :: "string list \<Rightarrow> string" where
  "join_lines [] = []"
| "join_lines [l] = l"
| "join_lines (l # ls) = l @ nl # join_lines ls"

definition indent :: "string \<Rightarrow> string" where
  "indent s = join_lines (map (\<lambda>line. if line \<noteq> [] then ''  '' @ line else line) (split_lines s))"

lemma split_lines_not_Nil [simp]: "split_lines s \<noteq> []"
  by (induction s) (auto split: list.splits)

lemma join_lines_Cons: "ls \<noteq> [] \<Longrightarrow> join_lines (l # ls) = l @ nl # join_lines ls"
  by (cases ls) simp_all

lemma join_split: "join_lines (split_lines s) = s"
proof (induction s)
  case (Cons c s)
  obtain l ls where s: "split_lines s = l # ls" by (cases "split_lines s") auto
  show ?case using Cons.IH s by (cases ls) (auto simp: join_lines_Cons)
qed simp

lemma split_lines_line: "nl \<notin> set l \<Longrightarrow> split_lines l = [l]"
  by (induction l) auto

lemma split_lines_append: "nl \<notin> set l \<Longrightarrow> split_lines (l @ nl # s) = l # split_lines s"
  by (induction l) auto

lemma split_join: "ls \<noteq> [] \<Longrightarrow> \<forall>l \<in> set ls. nl \<notin> set l \<Longrightarrow> split_lines (join_lines ls) = ls"
proof (induction ls)
  case (Cons l ls)
  then show ?case
    by (cases "ls = []") (simp_all add: split_lines_line join_lines_Cons split_lines_append)
qed simp

lemma split_lines_clean: "l \<in> set (split_lines s) \<Longrightarrow> nl \<notin> set l"
proof (induction s arbitrary: l)
  case (Cons c s)
  then show ?case by (cases "split_lines s") (fastforce split: if_splits)+
qed simp

lemma split_indent: "split_lines (indent s) = map (\<lambda>l. if l \<noteq> [] then ''  '' @ l else l) (split_lines s)"
proof -
  have "nl \<noteq> CHR '' ''" by (simp add: nl_def)
  then show ?thesis unfolding indent_def
    using split_lines_clean [of _ s] by (intro split_join) auto
qed

section \<open>The printed forms\<close>

fun octal :: "nat \<Rightarrow> string" where
  "octal n = (if n < 8 then nat_digits n else octal (n div 8) @ nat_digits (n mod 8))"

declare octal.simps [simp del]

definition chunk_String :: "file_chunk \<Rightarrow> string" where
  "chunk_String fr =
     ''FileReference {'' @ [nl] @
     ''  Key: '' @ hex_encode (fc_Key fr) @ [nl] @
     ''  FileName: '' @ fc_FileName fr @ [nl] @
     ''  ChunkSize: '' @ nat_digits (fc_Size fr) @ [nl] @
     ''  ChunkIndex: '' @ nat_digits (fc_FileIndex fr) @ [nl] @
     ''  Location: '' @ fc_Location fr @ [nl] @
     ''  Protocol: '' @ fc_Protocol fr @ [nl] @
     ''  DataHash: '' @ hex_encode (fc_DataHash fr) @ [nl] @
     ''}''"

definition meta_String :: "printers \<Rightarrow> file_meta \<Rightarrow> string" where
  "meta_String P md =
     ''MetaData {'' @ [nl] @
     ''  FileHash: '' @ hex_encode (fm_FileHash md) @ [nl] @
     ''  TotalSize: '' @ nat_digits (fm_TotalSize md) @ [nl] @
     ''  FileName: '' @ fm_FileName md @ [nl] @
     ''  Modified: '' @ rfc3339 P (fm_Modified md) @ [nl] @
     ''  Permissions: '' @ octal (fm_Permissions md) @ [nl] @
     ''  Signature: '' @ hex_encode (fm_Signature md) @ [nl] @
     ''  TTL: '' @ nat_digits (fm_TTL md) @ [nl] @
     ''  ChunkSize: '' @ nat_digits (fm_ChunkSize md) @ [nl] @
     ''  TotalChunks: '' @ nat_digits (fm_TotalChunks md) @ [nl] @
     ''}''"

definition ref_lines :: "file_chunk option list \<Rightarrow> string" where
  "ref_lines cs = concat (map (\<lambda>(i, c). case c of None \<Rightarrow> []
     | Some c \<Rightarrow> ''    '' @ nat_digits i @ '': '' @ indent (chunk_String c) @ [nl]) (enumerate 0 cs))"

definition ref_String :: "printers \<Rightarrow> file_reference \<Rightarrow> string" where
  "ref_String P f =
     ''File {'' @ [nl] @
     ''  MetaData: '' @ indent (meta_String P (fr_MetaData f)) @ [nl] @
     ''  References: ['' @ [nl] @ ref_lines (fr_Chunks f) @ ''  ]'' @ [nl] @
     ''}''"

definition ref_ShortString :: "file_reference \<Rightarrow> string" where
  "ref_ShortString f =
     ''File{name: '' @ fm_FileName (fr_MetaData f) @ '', size: '' @ nat_digits (fm_TotalSize (fr_MetaData f)) @
     '', chunks: '' @ nat_digits (fm_TotalChunks (fr_MetaData f)) @ ''}''"

definition chunk_ShortString :: "file_chunk \<Rightarrow> string" where
  "chunk_ShortString fr =
     ''Chunk{idx: '' @ nat_digits (fc_FileIndex fr) @ '', size: '' @ nat_digits (fc_Size fr) @
     '', hash: '' @ hex_encode (take 4 (fc_DataHash fr)) @ ''...}''"

definition meta_ShortString :: "file_meta \<Rightarrow> string" where
  "meta_ShortString md =
     ''MetaData{name: '' @ fm_FileName md @ '', size: '' @ nat_digits (fm_TotalSize md) @
     '', chunks: '' @ nat_digits (fm_TotalChunks md) @ ''}''"

section \<open>The printed forms of the service store\<close>

text \<open>\<open>string.go\<close> of \<open>storage/store\<close> leaves the file names out; its helpers are the same code.\<close>

definition sv_indent :: "string \<Rightarrow> string" where
  "sv_indent s = join_lines (map (\<lambda>line. if line \<noteq> [] then ''  '' @ line else line) (split_lines s))"

definition sv_chunk_String :: "sv_chunk \<Rightarrow> string" where
  "sv_chunk_String fr =
     ''FileReference {'' @ [nl] @
     ''  Key: '' @ hex_encode (sc_Key fr) @ [nl] @
     ''  ChunkSize: '' @ nat_digits (sc_Size fr) @ [nl] @
     ''  ChunkIndex: '' @ nat_digits (sc_FileIndex fr) @ [nl] @
     ''  Location: '' @ sc_Location fr @ [nl] @
     ''  Protocol: '' @ sc_Protocol fr @ [nl] @
     ''  DataHash: '' @ hex_encode (sc_DataHash fr) @ [nl] @
     ''}''"

definition sv_meta_String :: "printers \<Rightarrow> sv_meta \<Rightarrow> string" where
  "sv_meta_String P md =
     ''MetaData {'' @ [nl] @
     ''  FileHash: '' @ hex_encode (sm_FileHash md) @ [nl] @
     ''  TotalSize: '' @ nat_digits (sm_TotalSize md) @ [nl] @
     ''  Modified: '' @ rfc3339 P (sm_Modified md) @ [nl] @
     ''  Permissions: '' @ octal (sm_Permissions md) @ [nl] @
     ''  Signature: '' @ hex_encode (sm_Signature md) @ [nl] @
     ''  TTL: '' @ nat_digits (sm_TTL md) @ [nl] @
     ''  ChunkSize: '' @ nat_digits (sm_ChunkSize md) @ [nl] @
     ''  TotalChunks: '' @ nat_digits (sm_TotalChunks md) @ [nl] @
     ''}''"

definition sv_ref_lines :: "sv_chunk option list \<Rightarrow> string" where
  "sv_ref_lines cs = concat (map (\<lambda>(i, c). case c of None \<Rightarrow> []
     | Some c \<Rightarrow> ''    '' @ nat_digits i @ '': '' @ sv_indent (sv_chunk_String c) @ [nl]) (enumerate 0 cs))"

definition sv_ref_String :: "printers \<Rightarrow> sv_reference \<Rightarrow> string" where
  "sv_ref_String P f =
     ''File {'' @ [nl] @
     ''  MetaData: '' @ sv_indent (sv_meta_String P (sr_MetaData f)) @ [nl] @
     ''  References: ['' @ [nl] @ sv_ref_lines (sr_Chunks f) @ ''  ]'' @ [nl] @
     ''}''"

definition sv_ref_ShortString :: "sv_reference \<Rightarrow> string" where
  "sv_ref_ShortString f =
     ''File{size: '' @ nat_digits (sm_TotalSize (sr_MetaData f)) @
     '', chunks: '' @ nat_digits (sm_TotalChunks (sr_MetaData f)) @ ''}''"

definition sv_chunk_ShortString :: "sv_chunk \<Rightarrow> string" where
  "sv_chunk_ShortString fr =
     ''Chunk{idx: '' @ nat_digits (sc_FileIndex fr) @ '', size: '' @ nat_digits (sc_Size fr) @
     '', hash: '' @ hex_encode (take 4 (sc_DataHash fr)) @ ''...}''"

definition sv_meta_ShortString :: "sv_meta \<Rightarrow> string" where
  "sv_meta_ShortString md =
     ''MetaData{size: '' @ nat_digits (sm_TotalSize md) @ '', chunks: '' @ nat_digits (sm_TotalChunks md) @ ''}''"

section \<open>Sizes\<close>

text \<open>The loop over \<open>n\<close>, with \<open>div\<close> and \<open>exp\<close>, on 64-bit words.\<close>

function size_loop :: "64 word \<Rightarrow> 64 word \<Rightarrow> nat \<Rightarrow> 64 word \<times> nat" where
  "size_loop n d e = (if 1024 \<le> n then size_loop (n div 1024) (d * 1024) (e + 1) else (d, e))"
  by pat_completeness auto
termination
proof (relation "measure (\<lambda>(n, d, e). unat n)")
  fix n d :: "64 word" and e :: nat
  assume "1024 \<le> n"
  then have "1024 \<le> unat n" by (simp add: word_le_nat_alt)
  then show "((n div 1024, d * 1024, e + 1), (n, d, e)) \<in> measure (\<lambda>(n, d, e). unat n)"
    by (simp add: unat_div)
qed simp

declare size_loop.simps [simp del]

definition units :: string where "units = ''KMGTPE''"

definition formatBytes :: "printers \<Rightarrow> 64 word \<Rightarrow> ('e, string) go" where
  "formatBytes P b =
     (if b < 1024 then Inr (nat_digits (unat b) @ '' B'')
      else let (d, e) = size_loop (b div 1024) 1024 0 in
        if length units \<le> e then Inl (Panic IndexOutOfRange)
        else Inr (one_decimal P b d @ '' '' @ [units ! e] @ ''iB''))"

definition sv_formatBytes :: "printers \<Rightarrow> 64 word \<Rightarrow> ('e, string) go" where
  "sv_formatBytes P b =
     (if b < 1024 then Inr (nat_digits (unat b) @ '' B'')
      else let (d, e) = size_loop (b div 1024) 1024 0 in
        if length units \<le> e then Inl (Panic IndexOutOfRange)
        else Inr (one_decimal P b d @ '' '' @ [units ! e] @ ''iB''))"

lemma sv_helpers_same: "sv_indent = indent" "sv_formatBytes = formatBytes"
  by (simp_all add: fun_eq_iff sv_indent_def indent_def sv_formatBytes_def formatBytes_def)

text \<open>\<open>PrintMemUsage\<close>, on the counters it reads from the runtime.\<close>

record mem_stats =
  ms_Alloc :: "64 word"
  ms_TotalAlloc :: "64 word"
  ms_Sys :: "64 word"
  ms_NumGC :: "32 word"

definition PrintMemUsage :: "mem_stats \<Rightarrow> string" where
  "PrintMemUsage m =
     ''Alloc = '' @ nat_digits (unat (ms_Alloc m div 1024 div 1024)) @ '' MiB'' @
     [CHR 0x09] @ ''TotalAlloc = '' @ nat_digits (unat (ms_TotalAlloc m div 1024 div 1024)) @ '' MiB'' @
     [CHR 0x09] @ ''Sys = '' @ nat_digits (unat (ms_Sys m div 1024 div 1024)) @ '' MiB'' @
     [CHR 0x09] @ ''NumGC = '' @ nat_digits (unat (ms_NumGC m)) @ [nl]"

text \<open>While \<open>d\<close> and \<open>n\<close> are the power and the quotient after \<open>e\<close> rounds, nothing wraps.\<close>

lemma size_loop_exact:
  assumes "unat n = B div 1024 ^ (e + 1)" and "unat d = 1024 ^ (e + 1)" and "1024 ^ (e + 1) \<le> B" and "B < 2 ^ 64"
  shows "\<exists>k \<le> 5. snd (size_loop n d e) = k \<and> e \<le> k \<and> unat (fst (size_loop n d e)) = 1024 ^ (k + 1)
    \<and> 1024 ^ (k + 1) \<le> B \<and> B < 1024 ^ (k + 2)"
  using assms
proof (induction n d e rule: size_loop.induct)
  case (1 n d e)
  have small: "e \<le> 5"
  proof (rule ccontr)
    assume "\<not> e \<le> 5"
    then have "(1024 :: nat) ^ 7 \<le> 1024 ^ (e + 1)" by (intro power_increasing) simp_all
    then show False using 1(4,5) by simp
  qed
  show ?case
  proof (cases "1024 \<le> n")
    case True
    then have "1024 \<le> B div 1024 ^ (e + 1)" using 1(2) by (simp add: word_le_nat_alt)
    then have le: "1024 ^ (e + 2) \<le> B"
      by (simp add: less_eq_div_iff_mult_less_eq mult.commute)
    have "unat (d * 1024) = 1024 ^ (e + 2)"
      using 1(3) le 1(5) by (simp add: unat_mult_lem [THEN iffD1] unat_word_ariths)
    moreover have "unat (n div 1024) = B div 1024 ^ (e + 2)"
      using 1(2) by (simp add: unat_div div_mult2_eq [symmetric] mult.commute)
    ultimately show ?thesis using 1(1) [OF True] le 1(5) True
      by (force simp: size_loop.simps [of n d e])
  next
    case False
    then have "B div 1024 ^ (e + 1) < 1024" using 1(2) by (simp add: word_le_nat_alt)
    then have "B < 1024 ^ (e + 2)" by (simp add: div_less_iff_less_mult mult.commute)
    then show ?thesis using 1 False small by (simp add: size_loop.simps [of n d e])
  qed
qed

section \<open>Nothing is lost\<close>

lemma nat_digits_not_Nil [simp]: "nat_digits n \<noteq> []"
  by (simp add: nat_digits.simps [of n])

lemma nat_digits_value:
  "foldl (\<lambda>v c. 10 * v + (of_char c - 48)) 0 (nat_digits n) = (n :: nat)"
proof (induction n rule: nat_digits.induct)
  case (1 n)
  show ?case
  proof (cases "n < 10")
    case True
    then show ?thesis by (simp add: nat_digits.simps [of n] of_char_of)
  next
    case False
    then show ?thesis using 1 by (simp add: nat_digits.simps [of n] of_char_of)
  qed
qed

lemma nat_digits_inj: "nat_digits m = nat_digits n \<longleftrightarrow> m = n"
  using nat_digits_value by metis

lemma nat_digits_no_nl: "nl \<notin> set (nat_digits n)"
proof (induction n rule: nat_digits.induct)
  case (1 n)
  have "nl \<noteq> char_of (48 + d)" if "d < 10" for d :: nat
  proof
    assume "nl = char_of (48 + d)"
    then have "(of_char nl :: nat) = of_char (char_of (48 + d) :: char)" by simp
    then have "of_char nl = (48 + d) mod 256" by (simp only: of_char_of)
    then show False using that by (simp add: nl_def)
  qed
  then show ?case using 1 by (simp add: nat_digits.simps [of n])
qed

lemma hex_encode_no_nl: "nl \<notin> set (hex_encode b)"
  by (rule hex_encode_no_char) code_simp

definition printable :: "file_chunk \<Rightarrow> bool" where
  "printable c \<longleftrightarrow> nl \<notin> set (fc_FileName c) \<and> nl \<notin> set (fc_Location c) \<and> nl \<notin> set (fc_Protocol c)"

lemma split_chunk_String:
  assumes "printable c"
  shows "split_lines (chunk_String c) =
    [''FileReference {'', ''  Key: '' @ hex_encode (fc_Key c), ''  FileName: '' @ fc_FileName c,
     ''  ChunkSize: '' @ nat_digits (fc_Size c), ''  ChunkIndex: '' @ nat_digits (fc_FileIndex c),
     ''  Location: '' @ fc_Location c, ''  Protocol: '' @ fc_Protocol c,
     ''  DataHash: '' @ hex_encode (fc_DataHash c), ''}'']" (is "_ = ?ls")
proof -
  have "chunk_String c = join_lines ?ls" by (simp add: chunk_String_def)
  moreover have "\<forall>l \<in> set ?ls. nl \<notin> set l"
    using assms hex_encode_no_nl nat_digits_no_nl by (simp add: printable_def nl_def)
  then have "split_lines (join_lines ?ls) = ?ls" by (intro split_join) simp_all
  ultimately show ?thesis by simp
qed

text \<open>The printed form of a chunk determines it, as long as no line feed is in its name, location or protocol.\<close>

lemma chunk_String_determines:
  assumes "printable c" and "printable c'" and "chunk_String c = chunk_String c'"
  shows "c = c'"
proof -
  have "split_lines (chunk_String c) = split_lines (chunk_String c')" using assms(3) by simp
  then show ?thesis unfolding split_chunk_String [OF assms(1)] split_chunk_String [OF assms(2)]
    by (simp add: nat_digits_inj hex_encode_inj)
qed

lemma sv_chunk_String_determines:
  assumes "nl \<notin> set (sc_Location c) \<and> nl \<notin> set (sc_Protocol c)" and "nl \<notin> set (sc_Location c') \<and> nl \<notin> set (sc_Protocol c')"
    and "sv_chunk_String c = sv_chunk_String c'"
  shows "c = c'"
proof -
  have split: "split_lines (sv_chunk_String c) =
    [''FileReference {'', ''  Key: '' @ hex_encode (sc_Key c), ''  ChunkSize: '' @ nat_digits (sc_Size c),
     ''  ChunkIndex: '' @ nat_digits (sc_FileIndex c), ''  Location: '' @ sc_Location c,
     ''  Protocol: '' @ sc_Protocol c, ''  DataHash: '' @ hex_encode (sc_DataHash c), ''}'']" (is "_ = ?ls")
    if "nl \<notin> set (sc_Location c) \<and> nl \<notin> set (sc_Protocol c)" for c
  proof -
    have "sv_chunk_String c = join_lines
      [''FileReference {'', ''  Key: '' @ hex_encode (sc_Key c), ''  ChunkSize: '' @ nat_digits (sc_Size c),
       ''  ChunkIndex: '' @ nat_digits (sc_FileIndex c), ''  Location: '' @ sc_Location c,
       ''  Protocol: '' @ sc_Protocol c, ''  DataHash: '' @ hex_encode (sc_DataHash c), ''}'']"
      by (simp add: sv_chunk_String_def)
    then show ?thesis
      using that hex_encode_no_nl nat_digits_no_nl by (simp only:) (rule split_join; simp add: nl_def)
  qed
  have "split_lines (sv_chunk_String c) = split_lines (sv_chunk_String c')" using assms(3) by simp
  then show ?thesis unfolding split [OF assms(1)] split [OF assms(2)]
    by (simp add: nat_digits_inj hex_encode_inj)
qed

section \<open>Properties\<close>

text \<open>
  \<open>indent\<close> puts two spaces before every line that is not empty and changes nothing else: it keeps the number of
  lines, and taking the spaces away again gives the string back.
\<close>

lemma indent_round_trip:
  "join_lines (map (drop 2) (split_lines (indent s))) = s
    \<and> length (split_lines (indent s)) = length (split_lines s)
    \<and> list_all (\<lambda>l. l = [] \<or> take 2 l = ''  '') (split_lines (indent s))"
proof -
  have "map (drop 2) (split_lines (indent s)) = split_lines s"
    unfolding split_indent map_map by (rule map_idI) auto
  then show ?thesis by (simp add: join_split) (auto simp: split_indent list_all_iff)
qed

text \<open>
  C35. \<open>formatBytes\<close> on every 64-bit size: its loop ends after at most five rounds, the divisor does not wrap
  and is the largest power of 1024 that is at most the size, and the index into the unit letters is in range.
\<close>

theorem formatBytes_exact:
  "if b < 1024 then formatBytes P b = Inr (nat_digits (unat b) @ '' B'')
   else \<exists>d k. formatBytes P b = Inr (one_decimal P b d @ '' '' @ [units ! k] @ ''iB'')
     \<and> k \<le> 5 \<and> unat d = 1024 ^ (k + 1) \<and> unat d \<le> unat b \<and> unat b < 1024 * unat d"
proof (cases "b < 1024")
  case False
  have "1024 \<le> unat b" using False by (simp add: word_less_nat_alt)
  then obtain k where k: "k \<le> 5" "snd (size_loop (b div 1024) 1024 0) = k"
    "unat (fst (size_loop (b div 1024) 1024 0)) = 1024 ^ (k + 1)" "1024 ^ (k + 1) \<le> unat b" "unat b < 1024 ^ (k + 2)"
    using size_loop_exact [of "b div 1024" "unat b" 0 1024] unsigned_less [of b] by (auto simp: unat_div)
  then show ?thesis using False
    by (auto simp: formatBytes_def units_def case_prod_beta)
qed (simp add: formatBytes_def)

end
