(* ===== verification/TableText.thy ===== *)
theory TableText
  imports Printing
begin

text \<open>
  What the program shows of a routing table: \<open>PrintString\<close> and \<open>RoutingTableString\<close> of \<open>network/routing\<close>, the
  accessors of the table, the manager and the node, and \<open>cmd/insert_n_routing\<close>, which fills a table with random contacts and
  prints it. Identifiers are printed bit by bit, so the text determines what is in the table.
\<close>

section \<open>Formatting\<close>

text \<open>The verb \<open>%08b\<close> on a byte and on a slice or array of bytes, and \<open>%03d\<close> on a number that is not negative.\<close>

definition byte_bits :: "8 word \<Rightarrow> string" where
  "byte_bits b = map (\<lambda>i. if bit b i then CHR ''1'' else CHR ''0'') (rev [0..<8])"

fun spaced :: "string list \<Rightarrow> string" where
  "spaced [] = []"
| "spaced [w] = w"
| "spaced (w # ws) = w @ CHR '' '' # spaced ws"

definition bits_text :: "bytes \<Rightarrow> string" where
  "bits_text b = ''['' @ spaced (map byte_bits b) @ '']''"

definition pad_zero :: "nat \<Rightarrow> string \<Rightarrow> string" where
  "pad_zero w s = replicate (w - length s) (CHR ''0'') @ s"

section \<open>The table as text\<close>

definition peer_line :: "nodeid \<Rightarrow> cptr \<Rightarrow> string" where
  "peer_line selfID p =
     (let peerID = SliceToNodeID (GetId p) in
      [CHR 0x09] @ '': prefix '' @ pad_zero 3 (nat_digits (SharedPrefixLength selfID peerID)) @ '' : '' @
      bits_text peerID @ '' '' @ [nl])"

definition PrintString :: "'z router_scheme \<Rightarrow> kbucket \<Rightarrow> string" where
  "PrintString r b =
     (let selfID = SliceToNodeID (GetId (rt_local r)) in
      ''Bucket '' @ nat_digits (depth b) @ '' -> '' @ [nl] @ concat (map (peer_line selfID) (peers b)))"

definition RoutingTableString :: "routing_table \<Rightarrow> string" where
  "RoutingTableString rt =
     ''Routing table: ['' @ bits_text (GetId (rt_local rt)) @ '']'' @ [nl] @
     nat_digits (length (buckets rt)) @ '' buckets: '' @ [nl] @ concat (map (PrintString rt) (buckets rt))"

definition GetLocal :: "'z router_scheme \<Rightarrow> cptr" where "GetLocal rt = rt_local rt"
definition rt_K :: "'z router_scheme \<Rightarrow> nat" where "rt_K rt = rt_k rt"
definition nm_Stats :: "network_manager \<Rightarrow> netlog" where "nm_Stats nm = nm_log nm"
definition nm_Router :: "network_manager \<Rightarrow> routing_table" where "nm_Router nm = nm_router nm"

definition nm_RoutingTableString :: "network_manager \<Rightarrow> string" where
  "nm_RoutingTableString nm = RoutingTableString (nm_Router nm)"

definition PrintRoutingTable :: "'s node \<Rightarrow> string" where
  "PrintRoutingTable n = nm_RoutingTableString (n_nm n) @ [nl]"

definition node_Stats :: "'s node \<Rightarrow> netlog" where "node_Stats n = nm_Stats (n_nm n)"

section \<open>Filling a table\<close>

text \<open>\<open>GenerateRandomNodeID\<close> and \<open>GenerateRandomBytes\<close>: what the random source gives for the number of bytes asked for.\<close>

definition GenerateRandomNodeID :: "(nat \<Rightarrow> bytes) \<Rightarrow> nodeid" where
  "GenerateRandomNodeID source = take KeyBytes (source KeyBytes @ replicate KeyBytes 0)"

definition GenerateRandomBytes :: "(nat \<Rightarrow> bytes) \<Rightarrow> nat \<Rightarrow> bytes" where
  "GenerateRandomBytes source n = take n (source n @ replicate n 0)"

text \<open>The loop of \<open>insert_n_routing\<close>; the error of \<open>Update\<close> is ignored, a panic is not. Contact \<open>i\<close> is made at time \<open>now i\<close>.\<close>

fun insert_n :: "(nat \<Rightarrow> nat \<Rightarrow> bytes) \<Rightarrow> (nat \<Rightarrow> int) \<Rightarrow> nat \<Rightarrow> nat \<Rightarrow> routing_table \<Rightarrow> (rt_error, routing_table) go" where
  "insert_n source now i 0 rt = Inr rt"
| "insert_n source now i (Suc m) rt =
     (let ident = GenerateRandomNodeID (source i);
          c = NewContact (now i) ident ''localhost'' (Itoa (6667 - int i)) (Itoa (6670 + int i)) in
      case rt_Update rt (Some c) of
        (_, Inl (Panic p)) \<Rightarrow> Inl (Panic p)
      | (_, Inl Blocked) \<Rightarrow> Inl Blocked
      | (rt, _) \<Rightarrow> insert_n source now (Suc i) m rt)"

text \<open>The main function with its flags, answering what it prints.\<close>

definition insert_n_routing :: "int \<Rightarrow> int \<Rightarrow> int \<Rightarrow> (nat \<Rightarrow> bytes) \<Rightarrow> int \<Rightarrow> (nat \<Rightarrow> nat \<Rightarrow> bytes) \<Rightarrow> (nat \<Rightarrow> int)
    \<Rightarrow> (rt_error, string) go" where
  "insert_n_routing num k alpha source0 now0 source now =
     (let selfID = GenerateRandomNodeID source0;
          local = NewContact now0 selfID ''localhost'' ''6668'' ''6669'' in
      case NewRoutingTable (Some local) k alpha of
        Inl e \<Rightarrow> Inl e
      | Inr rt \<Rightarrow>
     (case insert_n source now 0 (nat num) rt of
        Inl e \<Rightarrow> Inl e
      | Inr rt \<Rightarrow> Inr (RoutingTableString rt)))"

section \<open>The text determines the table\<close>

lemma length_byte_bits [simp]: "length (byte_bits b) = 8"
  by (simp add: byte_bits_def)

lemma byte_bits_inj: "byte_bits a = byte_bits b \<longleftrightarrow> a = b"
proof
  assume "byte_bits a = byte_bits b"
  then have "\<forall>i \<in> set (rev [0..<8]). bit a i = bit b i"
    unfolding byte_bits_def by (subst (asm) map_eq_conv) (auto split: if_splits)
  then show "a = b" by (intro bit_word_eqI) simp
qed simp

lemma spaced_Cons: "ws \<noteq> [] \<Longrightarrow> spaced (w # ws) = w @ CHR '' '' # spaced ws"
  by (cases ws) simp_all

lemma length_spaced_bits: "length (spaced (map byte_bits bs)) = (if bs = [] then 0 else 9 * length bs - 1)"
proof (induction bs)
  case (Cons b bs)
  then show ?case by (cases "bs = []") (simp_all add: spaced_Cons)
qed simp

lemma spaced_bits_inj: "length as = length bs \<Longrightarrow> spaced (map byte_bits as) = spaced (map byte_bits bs) \<Longrightarrow> as = bs"
proof (induction as bs rule: list_induct2)
  case (Cons a as b bs)
  then have "as = [] \<longleftrightarrow> bs = []" by auto
  then show ?case using Cons by (cases "as = []") (auto simp: spaced_Cons byte_bits_inj)
qed simp

lemma bits_text_inj: "bits_text as = bits_text bs \<longleftrightarrow> as = bs"
proof
  assume h: "bits_text as = bits_text bs"
  then have s: "spaced (map byte_bits as) = spaced (map byte_bits bs)" by (simp add: bits_text_def)
  then have "length (spaced (map byte_bits as)) = length (spaced (map byte_bits bs))" by simp
  then have "length as = length bs" unfolding length_spaced_bits
    by (cases as; cases bs) (auto split: if_splits)
  then show "as = bs" using s by (rule spaced_bits_inj)
qed simp

text \<open>The lines of the text.\<close>

definition bucket_head :: "nat \<Rightarrow> string" where
  "bucket_head d = ''Bucket '' @ nat_digits d @ '' -> ''"

definition id_line :: "nodeid \<Rightarrow> nodeid \<Rightarrow> string" where
  "id_line selfID ident =
     [CHR 0x09] @ '': prefix '' @ pad_zero 3 (nat_digits (SharedPrefixLength selfID ident)) @ '' : '' @ bits_text ident @ '' ''"

definition bucket_lines :: "nodeid \<Rightarrow> nat \<times> nodeid list \<Rightarrow> string list" where
  "bucket_lines selfID = (\<lambda>(d, ids). bucket_head d # map (id_line selfID) ids)"

definition shown :: "routing_table \<Rightarrow> (nat \<times> nodeid list) list" where
  "shown rt = map (\<lambda>b. (depth b, map nid (peers b))) (buckets rt)"

definition table_lines :: "routing_table \<Rightarrow> string list" where
  "table_lines rt =
     [''Routing table: ['' @ bits_text (GetId (rt_local rt)) @ '']'', nat_digits (length (buckets rt)) @ '' buckets: '']
     @ concat (map (bucket_lines (localID rt)) (shown rt))"

definition unlines :: "string list \<Rightarrow> string" where
  "unlines ls = concat (map (\<lambda>l. l @ [nl]) ls)"

lemma unlines_simps [simp]: "unlines [] = []" "unlines (l # ls) = l @ nl # unlines ls" "unlines (as @ bs) = unlines as @ unlines bs"
  by (simp_all add: unlines_def)

lemma unlines_inj:
  "\<forall>l\<in>set as. nl \<notin> set l \<Longrightarrow> \<forall>l\<in>set bs. nl \<notin> set l \<Longrightarrow> unlines as = unlines bs \<Longrightarrow> as = bs"
proof -
  have "split_lines (unlines ls) = ls @ [[]]" if "\<forall>l\<in>set ls. nl \<notin> set l" for ls
    using that by (induction ls) (simp_all add: split_lines_append)
  then show "\<forall>l\<in>set as. nl \<notin> set l \<Longrightarrow> \<forall>l\<in>set bs. nl \<notin> set l \<Longrightarrow> unlines as = unlines bs \<Longrightarrow> as = bs"
    by (metis append_same_eq)
qed

lemma RoutingTableString_lines: "RoutingTableString rt = unlines (table_lines rt)"
proof -
  have "concat (map (peer_line selfID) ps) = unlines (map (id_line selfID) (map nid ps))" for selfID ps
    by (induction ps) (simp_all add: peer_line_def id_line_def nid_def Let_def)
  then have "PrintString rt b = unlines (bucket_lines (localID rt) (depth b, map nid (peers b)))" for b
    by (simp add: PrintString_def bucket_lines_def bucket_head_def localID_def Let_def)
  then have "concat (map (PrintString rt) bs) = unlines (concat (map (bucket_lines (localID rt))
      (map (\<lambda>b. (depth b, map nid (peers b))) bs)))" for bs
    by (induction bs) simp_all
  then show ?thesis by (simp add: RoutingTableString_def table_lines_def shown_def)
qed

lemma table_lines_clean: "l \<in> set (table_lines rt) \<Longrightarrow> nl \<notin> set l"
proof -
  have "nl \<notin> set (spaced (map byte_bits bs))" for bs
    by (induction bs rule: induct_list012) (auto simp: byte_bits_def nl_def split: if_splits)
  then have b: "nl \<notin> set (bits_text bs)" for bs by (simp add: bits_text_def nl_def)
  have "nl \<notin> set (pad_zero 3 (nat_digits n))" for n using nat_digits_no_nl [of n] by (simp add: pad_zero_def nl_def)
  then have "nl \<notin> set (id_line selfID ident)" "nl \<notin> set (bucket_head d)" for selfID ident d
    using b [of ident] nat_digits_no_nl [of d] by (simp_all add: id_line_def bucket_head_def) (simp_all add: nl_def)
  then show "l \<in> set (table_lines rt) \<Longrightarrow> nl \<notin> set l"
    using b [of "GetId (rt_local rt)"] nat_digits_no_nl [of "length (buckets rt)"]
    by (auto simp: table_lines_def bucket_lines_def) (simp_all add: nl_def)
qed

lemma bucket_head_inj: "bucket_head d = bucket_head e \<longleftrightarrow> d = e"
  by (simp add: bucket_head_def nat_digits_inj)

lemma middle_inj: "a @ x @ c = b @ y @ c \<Longrightarrow> length x = length y \<Longrightarrow> x = y"
  by simp

lemma id_line_inj:
  assumes "length i = 20" and "length j = 20" and "id_line s i = id_line t j"
  shows "i = j"
proof -
  have split: "\<exists>a. id_line u k = a @ bits_text k @ '' ''" for u k
    by (intro exI [of _ "[CHR 0x09] @ '': prefix '' @ pad_zero 3 (nat_digits (SharedPrefixLength u k)) @ '' : ''"])
      (simp add: id_line_def)
  obtain a b where "a @ bits_text i @ '' '' = b @ bits_text j @ '' ''" using split [of s i] split [of t j] assms(3) by metis
  moreover have "length (bits_text i) = length (bits_text j)"
    using assms(1,2) by (auto simp: bits_text_def length_spaced_bits)
  ultimately have "bits_text i = bits_text j" by (rule middle_inj)
  then show ?thesis by (simp add: bits_text_inj)
qed

text \<open>Groups with a head that no member looks like can be told apart.\<close>

lemma groups_inj:
  assumes "\<forall>(d, ids) \<in> set xs \<union> set ys. \<forall>i\<in>set ids. length i = 20"
    and "concat (map (bucket_lines s) xs) = concat (map (bucket_lines t) ys)"
  shows "xs = ys"
  using assms
proof (induction xs arbitrary: ys)
  case Nil
  then show ?case by (cases ys) (auto simp: bucket_lines_def)
next
  case (Cons x xs)
  obtain d ids where x: "x = (d, ids)" by (cases x)
  obtain e jds ys' where ys: "ys = (e, jds) # ys'"
    using Cons.prems(2) by (cases ys) (auto simp: bucket_lines_def x)
  define P where "P l = (l \<noteq> [] \<and> hd l = CHR 0x09)" for l :: string
  have tw: "takeWhile P (map (id_line u) ks @ concat (map (bucket_lines u) zs)) = map (id_line u) ks"
    "dropWhile P (map (id_line u) ks @ concat (map (bucket_lines u) zs)) = concat (map (bucket_lines u) zs)" for u ks zs
    by (induction ks; cases zs; auto simp: P_def id_line_def bucket_lines_def bucket_head_def)+
  have eq: "bucket_head d = bucket_head e"
    "map (id_line s) ids @ concat (map (bucket_lines s) xs) = map (id_line t) jds @ concat (map (bucket_lines t) ys')"
    using Cons.prems(2) by (simp_all add: x ys bucket_lines_def)
  from eq(2) have lines: "map (id_line s) ids = map (id_line t) jds" and rest: "concat (map (bucket_lines s) xs) = concat (map (bucket_lines t) ys')"
    using tw by metis+
  have "length ids = length jds" using lines by (metis length_map)
  moreover have "ids ! k = jds ! k" if "k < length ids" "k < length jds" for k
  proof (rule id_line_inj)
    show "id_line s (ids ! k) = id_line t (jds ! k)" using that arg_cong [OF lines, of "\<lambda>ls. ls ! k"] by simp
  qed (use that Cons.prems(1) in \<open>auto simp: x ys\<close>)
  ultimately have "ids = jds" by (simp add: nth_equalityI)
  moreover have "xs = ys'" using Cons.IH [OF _ rest] Cons.prems(1) by (simp add: ys)
  ultimately show ?case using eq(1) by (simp add: x ys bucket_head_inj)
qed

lemma RoutingTableString_determines:
  assumes "RoutingTableString rt = RoutingTableString rt'"
  shows "GetId (rt_local rt) = GetId (rt_local rt') \<and> shown rt = shown rt'"
proof -
  have "table_lines rt = table_lines rt'"
    using assms table_lines_clean unfolding RoutingTableString_lines by (intro unlines_inj) blast+
  then have "bits_text (GetId (rt_local rt)) = bits_text (GetId (rt_local rt'))"
    "concat (map (bucket_lines (localID rt)) (shown rt)) = concat (map (bucket_lines (localID rt')) (shown rt'))"
    by (simp_all add: table_lines_def)
  moreover have "\<forall>(d, ids) \<in> set (shown rt) \<union> set (shown rt'). \<forall>i\<in>set ids. length i = 20"
    by (auto simp: shown_def)
  ultimately show ?thesis using groups_inj bits_text_inj by blast
qed

section \<open>The filled table\<close>

definition fill_id :: "(nat \<Rightarrow> nat \<Rightarrow> bytes) \<Rightarrow> nat \<Rightarrow> nodeid" where
  "fill_id source i = GenerateRandomNodeID (source i)"

lemma length_GenerateRandomNodeID [simp]: "length (GenerateRandomNodeID source) = 20"
  by (simp add: GenerateRandomNodeID_def)

lemma insert_n_ok:
  "rt_reach l k rt \<Longrightarrow> \<exists>rt'. insert_n source now i m rt = Inr rt' \<and> rt_reach l k rt'
     \<and> nid ` table_peers rt' \<subseteq> nid ` table_peers rt \<union> fill_id source ` {i..<i + m}"
proof (induction m arbitrary: i rt)
  case (Suc m)
  define c where "c = NewContact (now i) (fill_id source i) ''localhost'' (Itoa (6667 - int i)) (Itoa (6670 + int i))"
  have nid: "nid (Some c) = fill_id source i" by (simp add: c_def NewContact_def fill_id_def nid_Some)
  have inv: "rt_inv rt" using rt_reach_frame [OF Suc.prems] by simp
  obtain rt1 where u: "rt_Update rt (Some c) = (rt1, Inr ())"
    and sub: "nid ` table_peers rt1 \<subseteq> insert (fill_id source i) (nid ` table_peers rt)"
  proof (cases "nid (Some c) = localID rt")
    case True
    then show thesis using that rt_Update_local rt_inv_basic(2) [OF inv] by blast
  next
    case False
    then show thesis using that rt_Update_total [OF inv] by (fastforce simp: updated_with_def nid)
  qed
  have "rt_reach l k rt1" using rt_reach.update [OF Suc.prems, of "Some c"] u by simp
  then obtain rt' where r: "insert_n source now (Suc i) m rt1 = Inr rt'" "rt_reach l k rt'"
    "nid ` table_peers rt' \<subseteq> nid ` table_peers rt1 \<union> fill_id source ` {Suc i..<Suc i + m}"
    using Suc.IH by blast
  moreover have "{i..<i + Suc m} = insert i {Suc i..<Suc i + m}" by auto
  then have "fill_id source ` {i..<i + Suc m} = insert (fill_id source i) (fill_id source ` {Suc i..<Suc i + m})" by simp
  ultimately have "nid ` table_peers rt' \<subseteq> nid ` table_peers rt \<union> fill_id source ` {i..<i + Suc m}" using sub by blast
  moreover have "insert_n source now i (Suc m) rt = Inr rt'"
    using u r(1) by (simp add: c_def fill_id_def Let_def)
  ultimately show ?case using r(2) by blast
qed auto

text \<open>
  C38. \<open>insert_n_routing\<close> with a positive bucket size always ends and prints a well-formed table around its random local
  identifier, holding no identifier but that one and the generated ones; and what it prints, like every printed
  table, determines the local identifier and, bucket by bucket, the depth and the identifiers in their order.
\<close>

theorem insert_n_routing_prints:
  assumes "0 < k"
  shows "\<exists>rt. insert_n_routing num k alpha source0 now0 source now = Inr (RoutingTableString rt)
    \<and> (\<exists>l. GetId l = GenerateRandomNodeID source0 \<and> rt_reach l k rt)
    \<and> nid ` table_peers rt \<subseteq> insert (GenerateRandomNodeID source0) (fill_id source ` {0..<nat num})
    \<and> (\<forall>rt'. RoutingTableString rt' = RoutingTableString rt \<longrightarrow>
         GetId (rt_local rt') = GenerateRandomNodeID source0 \<and> shown rt' = shown rt)"
proof -
  define l where "l = Some (NewContact now0 (GenerateRandomNodeID source0) ''localhost'' ''6668'' ''6669'')"
  have l: "GetId l = GenerateRandomNodeID source0" by (simp add: l_def NewContact_def)
  obtain rt0 where n: "NewRoutingTable l k alpha = Inr rt0" "table_peers rt0 = {l}" by (rule NewRoutingTable_inv [OF assms])
  obtain rt where r: "insert_n source now 0 (nat num) rt0 = Inr rt" "rt_reach l k rt"
    "nid ` table_peers rt \<subseteq> nid ` table_peers rt0 \<union> fill_id source ` {0..<nat num}"
    using insert_n_ok [OF rt_reach.new [OF assms n(1)], of source now 0 "nat num"] by auto
  have "insert_n_routing num k alpha source0 now0 source now = Inr (RoutingTableString rt)"
    using n(1) r(1) by (simp add: insert_n_routing_def l_def Let_def)
  moreover have "nid ` table_peers rt \<subseteq> insert (GenerateRandomNodeID source0) (fill_id source ` {0..<nat num})"
    using r(3) n(2) l by (simp add: nid_def SliceToNodeID_id)
  moreover have "\<exists>l. GetId l = GenerateRandomNodeID source0 \<and> rt_reach l k rt" using l r(2) by blast
  moreover have "GetId (rt_local rt) = GenerateRandomNodeID source0" using rt_reach_frame [OF r(2)] l by simp
  moreover have "GetId (rt_local rt') = GenerateRandomNodeID source0 \<and> shown rt' = shown rt"
    if "RoutingTableString rt' = RoutingTableString rt" for rt'
    using RoutingTableString_determines [OF that] \<open>GetId (rt_local rt) = GenerateRandomNodeID source0\<close> by simp
  ultimately show ?thesis by blast
qed

theorem insert_n_routing_prints_witness:
  "\<exists>rt. insert_n_routing 3 20 3 (\<lambda>n. replicate n 1) 0 (\<lambda>i n. replicate n (of_nat i)) (\<lambda>_. 0) = Inr (RoutingTableString rt)
     \<and> nid ` table_peers rt \<subseteq> insert (GenerateRandomNodeID (\<lambda>n. replicate n 1)) (fill_id (\<lambda>i n. replicate n (of_nat i)) ` {0..<3})"
proof -
  have k: "(0 :: int) < 20" and n: "nat 3 = 3" by simp_all
  from insert_n_routing_prints [OF k, of 3 3 "\<lambda>n. replicate n 1" 0 "\<lambda>i n. replicate n (of_nat i)" "\<lambda>_. 0", unfolded n]
  show ?thesis by (elim exE conjE) (intro exI conjI)
qed

end
