(* ===== verification/Logs.thy ===== *)
theory Logs
  imports Printing
begin

text \<open>
  The log files of the client, \<open>cmd/test_client/logs.go\<close>: the menu, the numbering of the files in \<open>logs\<close>, their
  deletion and compression. The directory is an association list, \<open>None\<close> when it does not exist; as for the key
  store, every system call consumes one entry of a script of faults. The compressor and the modification
  times are arguments. What is printed is left out, and so are the lines the logger appends to the open file: a log keeps
  the content it has when a command begins. A failure of the compressor's \<open>Close\<close>, which the code ignores, is a
  write that reports success but leaves other bytes (\<open>Garbles\<close>).
\<close>

section \<open>The directory\<close>

datatype log_entry = LogFile bytes | LogSubdir

record log_state =
  lg_dir :: "(string \<times> log_entry) list option"
  lg_out :: "string option"
  lg_fault :: "nat \<Rightarrow> fault"
  lg_time :: nat

datatype log_error =
    CreateDirFailed
  | ReadLogsFailed
  | OpenLogFailed string
  | DeleteLogsFailed
  | OpenInFailed string
  | CreateOutFailed string
  | InfoFailed string
  | CompressFailed string
  | RemoveOriginalFailed string

type_synonym 'a log_result = "log_state \<times> (log_error, 'a) go"

definition lg_next :: "log_state \<Rightarrow> fault" where
  "lg_next s = lg_fault s (lg_time s)"

definition lg_tick :: "log_state \<Rightarrow> log_state" where
  "lg_tick s = s\<lparr>lg_time := Suc (lg_time s)\<rparr>"

definition lg_entry :: "string \<Rightarrow> log_state \<Rightarrow> log_entry option" where
  "lg_entry name s = (case lg_dir s of None \<Rightarrow> None | Some d \<Rightarrow> map_of d name)"

definition lg_put :: "string \<Rightarrow> bytes \<Rightarrow> log_state \<Rightarrow> log_state" where
  "lg_put name b s = s\<lparr>lg_dir := map_option (AList.update name (LogFile b)) (lg_dir s)\<rparr>"

text \<open>\<open>os.MkdirAll\<close>, \<open>os.ReadDir\<close> (in increasing order of the names), \<open>os.RemoveAll\<close>, which may stop half-way, and \<open>os.Remove\<close>.\<close>

definition lg_MkdirAll :: "log_state \<Rightarrow> log_state \<times> bool" where
  "lg_MkdirAll s =
     (if lg_next s = Works
      then ((lg_tick s)\<lparr>lg_dir := Some (case lg_dir s of None \<Rightarrow> [] | Some d \<Rightarrow> d)\<rparr>, True)
      else (lg_tick s, False))"

definition name_order :: "string \<Rightarrow> string \<Rightarrow> bool" where
  "name_order a b \<longleftrightarrow> bytes_compare (map of_char a) (map of_char b) < 0"

definition lg_ReadDir :: "log_state \<Rightarrow> log_state \<times> string list option" where
  "lg_ReadDir s =
     (lg_tick s, if lg_next s = Works then map_option (sort_slice name_order \<circ> map fst) (lg_dir s) else None)"

definition lg_RemoveAll :: "log_state \<Rightarrow> log_state \<times> bool" where
  "lg_RemoveAll s =
     (case lg_next s of
        Works \<Rightarrow> ((lg_tick s)\<lparr>lg_dir := None\<rparr>, True)
      | Fails (Some b) \<Rightarrow> ((lg_tick s)\<lparr>lg_dir := map_option (drop (length b)) (lg_dir s)\<rparr>, False)
      | _ \<Rightarrow> (lg_tick s, False))"

definition lg_Remove :: "string \<Rightarrow> log_state \<Rightarrow> log_state \<times> bool" where
  "lg_Remove name s =
     (if lg_next s = Works \<and> lg_entry name s \<noteq> None
      then ((lg_tick s)\<lparr>lg_dir := map_option (AList.delete name) (lg_dir s)\<rparr>, True)
      else (lg_tick s, False))"

text \<open>Opening for reading, opening for appending (which creates the file) and creating (which empties it).\<close>

definition lg_Open :: "string \<Rightarrow> log_state \<Rightarrow> log_state \<times> bytes option" where
  "lg_Open name s =
     (lg_tick s, if lg_next s \<noteq> Works then None
       else case lg_entry name s of Some (LogFile b) \<Rightarrow> Some b | _ \<Rightarrow> None)"

definition lg_Append :: "string \<Rightarrow> log_state \<Rightarrow> log_state \<times> bool" where
  "lg_Append name s =
     (if lg_next s \<noteq> Works \<or> lg_dir s = None then (lg_tick s, False)
      else case lg_entry name s of
        None \<Rightarrow> (lg_put name [] (lg_tick s), True)
      | Some (LogFile _) \<Rightarrow> (lg_tick s, True)
      | Some LogSubdir \<Rightarrow> (lg_tick s, False))"

definition lg_Create :: "string \<Rightarrow> log_state \<Rightarrow> log_state \<times> bool" where
  "lg_Create name s =
     (if lg_next s \<noteq> Works \<or> lg_dir s = None \<or> lg_entry name s = Some LogSubdir then (lg_tick s, False)
      else (lg_put name [] (lg_tick s), True))"

definition lg_Call :: "log_state \<Rightarrow> log_state \<times> bool" where
  "lg_Call s = (lg_tick s, lg_next s = Works)"

text \<open>Writing a whole file; a failure can leave some bytes.\<close>

definition lg_Write :: "string \<Rightarrow> bytes \<Rightarrow> log_state \<Rightarrow> log_state \<times> bool" where
  "lg_Write name b s =
     (case lg_next s of
        Works \<Rightarrow> (lg_put name b (lg_tick s), True)
      | Fails None \<Rightarrow> (lg_tick s, False)
      | Fails (Some left) \<Rightarrow> (lg_put name left (lg_tick s), False)
      | Garbles left \<Rightarrow> (lg_put name left (lg_tick s), True))"

section \<open>The menu\<close>

definition log_name :: "nat \<Rightarrow> string" where
  "log_name n = ''net_'' @ nat_digits n @ ''.log''"

text \<open>Errors of \<open>initLogs\<close> end the process. The logger's output is the opened file from then on.\<close>

definition initLogs :: "log_state \<Rightarrow> unit log_result" where
  "initLogs s =
     (case lg_MkdirAll s of
        (s, False) \<Rightarrow> (s, Inl (Err CreateDirFailed))
      | (s, True) \<Rightarrow>
     (case lg_ReadDir s of
        (s, None) \<Rightarrow> (s, Inl (Err ReadLogsFailed))
      | (s, Some entries) \<Rightarrow>
          let filePath = log_name (length entries) in
     (case lg_Append filePath s of
        (s, False) \<Rightarrow> (s, Inl (Err (OpenLogFailed filePath)))
      | (s, True) \<Rightarrow> (s\<lparr>lg_out := Some filePath\<rparr>, Inr ()))))"

definition clearLogs :: "log_state \<Rightarrow> unit log_result" where
  "clearLogs s =
     (case lg_RemoveAll s of
        (s, False) \<Rightarrow> (s, Inl (Err DeleteLogsFailed))
      | (s, True) \<Rightarrow> (s, Inr ()))"

record gzip =
  gz_pack :: "string \<Rightarrow> int \<Rightarrow> bytes \<Rightarrow> bytes"
  gz_time :: "string \<Rightarrow> int"

definition gz_suffix :: string where "gz_suffix = ''.gz''"

definition compress_entry :: "gzip \<Rightarrow> string \<Rightarrow> log_state \<Rightarrow> unit log_result" where
  "compress_entry G name s =
     (if lg_entry name s = Some LogSubdir then (s, Inr ())
      else let outPath = name @ gz_suffix in
     (case lg_Open name s of
        (s, None) \<Rightarrow> (s, Inl (Err (OpenInFailed name)))
      | (s, Some content) \<Rightarrow>
     (case lg_Create outPath s of
        (s, False) \<Rightarrow> (s, Inl (Err (CreateOutFailed outPath)))
      | (s, True) \<Rightarrow>
     (case lg_Call s of
        (s, False) \<Rightarrow> (s, Inl (Err (InfoFailed outPath)))
      | (s, True) \<Rightarrow>
     (case lg_Write outPath (gz_pack G name (gz_time G name) content) s of
        (s, False) \<Rightarrow> (s, Inl (Err (CompressFailed name)))
      | (s, True) \<Rightarrow>
     (case lg_Remove name s of
        (s, False) \<Rightarrow> (s, Inl (Err (RemoveOriginalFailed name)))
      | (s, True) \<Rightarrow> (s, Inr ())))))))"

primrec compress_all :: "gzip \<Rightarrow> string list \<Rightarrow> log_state \<Rightarrow> unit log_result" where
  "compress_all G [] s = (s, Inr ())"
| "compress_all G (name # names) s =
     (case compress_entry G name s of
        (s, Inl e) \<Rightarrow> (s, Inl e)
      | (s, Inr _) \<Rightarrow> compress_all G names s)"

definition compressLogs :: "gzip \<Rightarrow> log_state \<Rightarrow> unit log_result" where
  "compressLogs G s =
     (case lg_ReadDir s of
        (s, None) \<Rightarrow> (s, Inl (Err ReadLogsFailed))
      | (s, Some entries) \<Rightarrow> compress_all G entries s)"

text \<open>White space of ASCII text.\<close>

definition is_space :: "char \<Rightarrow> bool" where
  "is_space ch \<longleftrightarrow> ch = CHR '' '' \<or> (9 \<le> (of_char ch :: nat) \<and> (of_char ch :: nat) \<le> 13)"

definition trim_space :: "string \<Rightarrow> string" where
  "trim_space s = rev (dropWhile is_space (rev (dropWhile is_space s)))"

text \<open>The menu reads lines until it is left; errors of the two commands are printed, those of \<open>initLogs\<close> are fatal.\<close>

fun logsMenu :: "gzip \<Rightarrow> string list \<Rightarrow> log_state \<Rightarrow> unit log_result" where
  "logsMenu G [] s = (s, Inr ())"
| "logsMenu G (line # lines) s =
     (let cmd = trim_space line in
      if cmd = ''clear'' then
        (case initLogs (fst (clearLogs s)) of
           (s, Inl e) \<Rightarrow> (s, Inl e)
         | (s, Inr _) \<Rightarrow> logsMenu G lines s)
      else if cmd = ''compress'' then
        (case initLogs (fst (compressLogs G s)) of
           (s, Inl e) \<Rightarrow> (s, Inl e)
         | (s, Inr _) \<Rightarrow> logsMenu G lines s)
      else if cmd = ''back'' \<or> cmd = ''exit'' then (s, Inr ())
      else logsMenu G lines s)"

text \<open>The lines that leave it.\<close>

definition leaves_menu :: "string \<Rightarrow> bool" where
  "leaves_menu line \<longleftrightarrow> trim_space line = ''back'' \<or> trim_space line = ''exit''"

section \<open>No log is lost\<close>

definition zipped :: "nat \<Rightarrow> string \<Rightarrow> string" where
  "zipped k name = name @ concat (replicate k gz_suffix)"

text \<open>Unpacking \<open>k\<close> times, with an unpacker for \<open>gz_pack\<close>.\<close>

primrec unpack :: "(bytes \<Rightarrow> bytes option) \<Rightarrow> nat \<Rightarrow> bytes \<Rightarrow> bytes option" where
  "unpack gunzip 0 b = Some b"
| "unpack gunzip (Suc k) b = (case gunzip b of None \<Rightarrow> None | Some c \<Rightarrow> unpack gunzip k c)"

text \<open>
  The directory holds one file for each log of a history, under its number, log \<open>i\<close> packed \<open>K i\<close> times into the
  bytes \<open>B i\<close>, and nothing else.
\<close>

definition archived ::
  "(bytes \<Rightarrow> bytes option) \<Rightarrow> (nat \<Rightarrow> nat) \<Rightarrow> (nat \<Rightarrow> bytes) \<Rightarrow> (string \<times> log_entry) list \<Rightarrow> bytes list \<Rightarrow> bool" where
  "archived gunzip K B d hist \<longleftrightarrow> distinct (map fst d) \<and>
     (\<forall>name e. map_of d name = Some e \<longleftrightarrow> (\<exists>i<length hist. name = zipped (K i) (log_name i) \<and> e = LogFile (B i))) \<and>
     (\<forall>i<length hist. unpack gunzip (K i) (B i) = Some (hist ! i))"

definition lg_files :: "log_state \<Rightarrow> (string \<times> log_entry) list" where
  "lg_files s = (case lg_dir s of None \<Rightarrow> [] | Some d \<Rightarrow> d)"

definition archives :: "(bytes \<Rightarrow> bytes option) \<Rightarrow> log_state \<Rightarrow> bytes list \<Rightarrow> bool" where
  "archives gunzip s hist \<longleftrightarrow> (\<exists>K B. archived gunzip K B (lg_files s) hist)"

text \<open>What the menu does to the history: \<open>clear\<close> forgets it, and both commands start a new, empty log.\<close>

fun log_history :: "string list \<Rightarrow> bytes list \<Rightarrow> bytes list" where
  "log_history [] hist = hist"
| "log_history (line # lines) hist =
     (let cmd = trim_space line in
      if cmd = ''clear'' then log_history lines [[]]
      else if cmd = ''compress'' then log_history lines (hist @ [[]])
      else if cmd = ''back'' \<or> cmd = ''exit'' then hist
      else log_history lines hist)"

definition lg_working :: "log_state \<Rightarrow> bool" where
  "lg_working s \<longleftrightarrow> (\<forall>t. lg_fault s t = Works)"

lemma length_sort_slice [simp]: "length (sort_slice lt xs) = length xs"
  by (rule go_sort.srt_length)

lemma lg_working_simps [simp]:
  "lg_working s \<Longrightarrow> lg_next s = Works"
  "lg_working (lg_tick s) = lg_working s"
  "lg_working (s\<lparr>lg_dir := d\<rparr>) = lg_working s"
  "lg_working (s\<lparr>lg_out := f\<rparr>) = lg_working s"
  "lg_working (lg_put name b s) = lg_working s"
  by (simp_all add: lg_working_def lg_next_def lg_tick_def lg_put_def)

lemma lg_dir_simps [simp]:
  "lg_dir (lg_tick s) = lg_dir s"
  "lg_dir (lg_put name b s) = map_option (AList.update name (LogFile b)) (lg_dir s)"
  by (simp_all add: lg_tick_def lg_put_def)

lemma digits_no_dot: "CHR ''.'' \<notin> set (nat_digits n)"
proof (induction n rule: nat_digits.induct)
  case (1 n)
  have "CHR ''.'' \<noteq> char_of (48 + d)" if "d < 10" for d :: nat
  proof
    assume "CHR ''.'' = char_of (48 + d)"
    then have "(of_char (CHR ''.'') :: nat) = of_char (char_of (48 + d) :: char)" by simp
    then have "of_char (CHR ''.'') = (48 + d) mod 256" by (simp only: of_char_of)
    then show False using that by simp
  qed
  then show ?case using 1 by (subst nat_digits.simps) simp
qed

lemma zipped_index: "zipped k (log_name i) = zipped l (log_name j) \<Longrightarrow> i = j"
proof -
  have t: "takeWhile (\<lambda>c. c \<noteq> CHR ''.'') (zipped k (log_name i)) = ''net_'' @ nat_digits i" for k i
  proof -
    have "\<forall>c\<in>set (''net_'' @ nat_digits i). c \<noteq> CHR ''.''" using digits_no_dot [of i] by auto
    then have "takeWhile (\<lambda>c. c \<noteq> CHR ''.'') ((''net_'' @ nat_digits i) @ ''.log'' @ concat (replicate k gz_suffix)) = ''net_'' @ nat_digits i"
      by (subst takeWhile_append2) auto
    then show ?thesis by (simp add: zipped_def log_name_def)
  qed
  assume "zipped k (log_name i) = zipped l (log_name j)"
  then have "''net_'' @ nat_digits i = ''net_'' @ nat_digits j" using t by metis
  then show "i = j" by (simp add: nat_digits_inj)
qed

lemma zipped_simps [simp]: "zipped 0 name = name" "zipped k name @ gz_suffix = zipped (Suc k) name"
  by (simp_all add: zipped_def replicate_append_same flip: replicate_append_same)

lemma archived_length:
  assumes "archived gunzip K B d hist"
  shows "length d = length hist"
proof -
  let ?f = "\<lambda>i. zipped (K i) (log_name i)"
  have "set (map fst d) = ?f ` {..<length hist}"
    using assms by (auto simp: archived_def dom_map_of_conv_image_fst [symmetric])
  moreover have "inj_on ?f {..<length hist}" by (rule inj_onI) (rule zipped_index)
  ultimately have "card (set (map fst d)) = length hist" by (simp add: card_image)
  moreover have "card (set (map fst d)) = length d"
    using assms by (metis archived_def distinct_card length_map)
  ultimately show ?thesis by simp
qed

text \<open>The number of the next log is free.\<close>

lemma archived_fresh:
  assumes "archived gunzip K B d hist"
  shows "map_of d (log_name (length hist)) = None"
proof (rule ccontr)
  assume "map_of d (log_name (length hist)) \<noteq> None"
  then obtain i where "i < length hist" "zipped 0 (log_name (length hist)) = zipped (K i) (log_name i)"
    using assms by (auto simp: archived_def)
  then show False using zipped_index by fastforce
qed

lemma archived_new:
  assumes "archived gunzip K B d hist"
  shows "archived gunzip (K(length hist := 0)) (B(length hist := [])) (AList.update (log_name (length hist)) (LogFile []) d)
    (hist @ [[]])"
proof -
  let ?n = "length hist"
  have d: "distinct (map fst d)" and u: "\<And>i. i < ?n \<Longrightarrow> unpack gunzip (K i) (B i) = Some (hist ! i)"
    and m: "\<And>name e. map_of d name = Some e \<longleftrightarrow> (\<exists>i<?n. name = zipped (K i) (log_name i) \<and> e = LogFile (B i))"
    using assms by (auto simp: archived_def)
  have "((map_of d)(log_name ?n \<mapsto> LogFile [])) name = Some e \<longleftrightarrow>
      (\<exists>i<Suc ?n. name = zipped ((K(?n := 0)) i) (log_name i) \<and> e = LogFile ((B(?n := [])) i))" for name e
  proof (cases "name = log_name ?n")
    case True
    have "\<not> (\<exists>i<?n. name = zipped (K i) (log_name i))"
      using m [of name] archived_fresh [OF assms] True by fastforce
    then show ?thesis using True by (auto simp: less_Suc_eq)
  next
    case False
    then have "((map_of d)(log_name ?n \<mapsto> LogFile [])) name = Some e \<longleftrightarrow>
        (\<exists>i<?n. name = zipped (K i) (log_name i) \<and> e = LogFile (B i))" using m [of name e] by simp
    also have "\<dots> \<longleftrightarrow> (\<exists>i<Suc ?n. name = zipped ((K(?n := 0)) i) (log_name i) \<and> e = LogFile ((B(?n := [])) i))"
      (is "?l \<longleftrightarrow> ?r")
    proof
      assume ?l then show ?r by (metis fun_upd_other less_Suc_eq nat_neq_iff)
    next
      assume ?r
      then obtain j where "j < Suc ?n" "name = zipped ((K(?n := 0)) j) (log_name j)" "e = LogFile ((B(?n := [])) j)"
        by blast
      moreover from this False have "j \<noteq> ?n" by (cases "j = ?n") simp_all
      ultimately show ?l by (intro exI [of _ j]) simp
    qed
    finally show ?thesis .
  qed
  then show ?thesis using d u by (simp add: archived_def update_conv' distinct_update nth_append less_Suc_eq)
qed

lemma archived_zip:
  assumes "archived gunzip K B d hist" and i: "i < length hist" and c: "gunzip c = Some (B i)"
  shows "archived gunzip (K(i := Suc (K i))) (B(i := c))
    (AList.delete (zipped (K i) (log_name i)) (AList.update (zipped (Suc (K i)) (log_name i)) (LogFile c) d)) hist"
proof -
  let ?old = "zipped (K i) (log_name i)" and ?new = "zipped (Suc (K i)) (log_name i)"
  have d: "distinct (map fst d)" and u: "\<And>i. i < length hist \<Longrightarrow> unpack gunzip (K i) (B i) = Some (hist ! i)"
    and m: "\<And>name e. map_of d name = Some e \<longleftrightarrow> (\<exists>i<length hist. name = zipped (K i) (log_name i) \<and> e = LogFile (B i))"
    using assms by (auto simp: archived_def)
  have ne: "?new \<noteq> ?old" by (simp add: zipped_def gz_suffix_def)
  have "(((map_of d)(?new \<mapsto> LogFile c))(?old := None)) name = Some e \<longleftrightarrow>
      (\<exists>j<length hist. name = zipped ((K(i := Suc (K i))) j) (log_name j) \<and> e = LogFile ((B(i := c)) j))" (is "?l \<longleftrightarrow> ?r") for name e
  proof
    assume ?l
    then consider "name = ?new" "e = LogFile c" | "name \<noteq> ?new" "name \<noteq> ?old" "map_of d name = Some e"
      using ne by (auto split: if_splits)
    then show ?r
    proof cases
      case 1 then show ?thesis using i by auto
    next
      case 2
      then obtain j where j: "j < length hist" "name = zipped (K j) (log_name j)" "e = LogFile (B j)" using m by blast
      then have "j \<noteq> i" using 2 by blast
      then show ?thesis using j by auto
    qed
  next
    assume ?r
    then obtain j where j: "j < length hist" "name = zipped ((K(i := Suc (K i))) j) (log_name j)"
      "e = LogFile ((B(i := c)) j)" by blast
    show ?l
    proof (cases "j = i")
      case True then show ?thesis using j ne by simp
    next
      case False
      then have "name \<noteq> ?new" "name \<noteq> ?old" using j zipped_index by auto
      moreover have "map_of d name = Some e" using m [of name e] j False by auto
      ultimately show ?thesis by simp
    qed
  qed
  then show ?thesis using d u i c
    by (simp add: archived_def update_conv' delete_conv' distinct_update distinct_delete)
qed

text \<open>One round of \<open>compressLogs\<close>, and the whole loop.\<close>

lemma compress_entry_archived:
  assumes w: "lg_working s" and dir: "lg_dir s = Some d" and a: "archived gunzip K B d hist" and i: "i < length hist"
    and g: "\<And>n t b. gunzip (gz_pack G n t b) = Some b"
  obtains s' c where "compress_entry G (zipped (K i) (log_name i)) s = (s', Inr ())" and "lg_working s'"
    and "gunzip c = Some (B i)"
    and "lg_dir s' = Some (AList.delete (zipped (K i) (log_name i))
           (AList.update (zipped (Suc (K i)) (log_name i)) (LogFile c) d))"
proof -
  let ?old = "zipped (K i) (log_name i)" and ?new = "zipped (Suc (K i)) (log_name i)"
  have m: "\<And>name e. map_of d name = Some e \<longleftrightarrow> (\<exists>i<length hist. name = zipped (K i) (log_name i) \<and> e = LogFile (B i))"
    using a by (auto simp: archived_def)
  have old: "map_of d ?old = Some (LogFile (B i))" using m i by blast
  have "map_of d ?new = None"
  proof (rule ccontr)
    assume "map_of d ?new \<noteq> None"
    then obtain j where "j < length hist" "?new = zipped (K j) (log_name j)" using m by blast
    moreover from this have "j = i" using zipped_index by metis
    ultimately show False by (simp add: zipped_def gz_suffix_def)
  qed
  moreover have "?new \<noteq> ?old" by (simp add: zipped_def gz_suffix_def)
  ultimately show ?thesis
    using that [of _ "gz_pack G ?old (gz_time G ?old) (B i)"] w dir old g
    by (simp add: compress_entry_def lg_entry_def lg_Open_def lg_Create_def lg_Call_def lg_Write_def lg_Remove_def
        Let_def update_conv')
qed

lemma compress_all_archived:
  assumes "lg_working s" and "lg_dir s = Some d" and "archived gunzip K B d hist"
    and g: "\<And>n t b. gunzip (gz_pack G n t b) = Some b"
    and "distinct names" and "set names \<subseteq> fst ` set d"
  shows "\<exists>s'. compress_all G names s = (s', Inr ()) \<and> lg_working s' \<and> archives gunzip s' hist"
  using assms(1,2,3,5,6)
proof (induction names arbitrary: s d K B)
  case Nil
  then show ?case by (auto simp: archives_def lg_files_def)
next
  case (Cons name names)
  have "name \<in> dom (map_of d)" using Cons.prems(5) by (simp add: dom_map_of_conv_image_fst)
  then obtain i where i: "i < length hist" "name = zipped (K i) (log_name i)"
    using Cons.prems(3) by (auto simp: archived_def)
  obtain s' c where s': "compress_entry G name s = (s', Inr ())" "lg_working s'" "gunzip c = Some (B i)"
    "lg_dir s' = Some (AList.delete name (AList.update (zipped (Suc (K i)) (log_name i)) (LogFile c) d))"
    using compress_entry_archived [OF Cons.prems(1-3) i(1), of G] g i(2) by metis
  let ?d = "AList.update (zipped (Suc (K i)) (log_name i)) (LogFile c) d"
  have "fst ` set (AList.delete name ?d) = fst ` set ?d - {name}"
    using delete_keys [of name ?d] by (metis set_map set_removeAll)
  then have "set names \<subseteq> fst ` set (AList.delete name ?d)"
    using Cons.prems(4,5) by (auto simp: dom_update)
  from Cons.IH [OF s'(2,4) archived_zip [OF Cons.prems(3) i(1) s'(3), folded i(2)] _ this] Cons.prems(4) s'(1)
  show ?case by simp
qed

lemma initLogs_archives:
  assumes w: "lg_working s" and a: "archives gunzip s hist"
  obtains s' where "initLogs s = (s', Inr ())" and "lg_working s'" and "archives gunzip s' (hist @ [[]])"
    and "lg_out s' = Some (log_name (length hist))"
    and "lg_entry (log_name (length hist)) s' = Some (LogFile [])"
proof -
  obtain K B where a: "archived gunzip K B (lg_files s) hist" using a by (auto simp: archives_def)
  have "archives gunzip s' (hist @ [[]])"
    if "lg_dir s' = Some (AList.update (log_name (length hist)) (LogFile []) (lg_files s))" for s' :: log_state
    using archived_new [OF a] that by (auto simp: archives_def lg_files_def)
  then show ?thesis using that w archived_fresh [OF a] archived_length [OF a]
    by (simp add: initLogs_def lg_MkdirAll_def lg_ReadDir_def lg_Append_def lg_entry_def Let_def update_conv'
        flip: lg_files_def)
qed

lemma compressLogs_archives:
  assumes w: "lg_working s" and a: "archives gunzip s hist" and d: "lg_dir s \<noteq> None"
    and g: "\<And>n t b. gunzip (gz_pack G n t b) = Some b"
  obtains s' where "compressLogs G s = (s', Inr ())" and "lg_working s'" and "archives gunzip s' hist"
proof -
  obtain dir where dir: "lg_dir s = Some dir" using d by blast
  then obtain K B where a: "archived gunzip K B dir hist" using a by (auto simp: archives_def lg_files_def)
  let ?names = "sort_slice name_order (map fst dir)"
  have "mset ?names = mset (map fst dir)" by (rule shortlist_rules)
  moreover have "distinct (map fst dir)" using a by (simp add: archived_def)
  ultimately have "set ?names = fst ` set dir" "distinct ?names"
    by (metis mset_eq_setD set_map, metis mset_eq_imp_distinct_iff)
  from compress_all_archived [of "lg_tick s", OF _ _ a g this(2)] this(1) w dir
  show ?thesis using that by (auto simp: compressLogs_def lg_ReadDir_def)
qed

lemma clearLogs_archives:
  assumes "lg_working s"
  obtains s' where "clearLogs s = (s', Inr ())" and "lg_working s'" and "archives gunzip s' []"
  using assms by (simp add: clearLogs_def lg_RemoveAll_def archives_def archived_def lg_files_def)

text \<open>On a working file system whose directory holds files only, the menu cannot end the process, and leaves it so.\<close>

definition logs_ok :: "log_state \<Rightarrow> bool" where
  "logs_ok s \<longleftrightarrow> lg_working s \<and> (\<forall>name. lg_entry name s \<noteq> Some LogSubdir)"

lemma logs_ok_tick [simp]: "logs_ok (lg_tick s) = logs_ok s"
  by (simp add: logs_ok_def lg_entry_def)

lemma logs_ok_put: "logs_ok s \<Longrightarrow> logs_ok (lg_put name b s)"
  by (auto simp: logs_ok_def lg_entry_def update_conv' split: option.splits)

lemma logs_ok_next: "logs_ok s \<Longrightarrow> lg_next s = Works"
  by (simp add: logs_ok_def)

lemma logs_ok_calls:
  assumes "logs_ok s"
  shows "logs_ok (fst (lg_ReadDir s))" "logs_ok (fst (lg_RemoveAll s))" "logs_ok (fst (lg_Remove name s))"
    "logs_ok (fst (lg_Open name s))" "logs_ok (fst (lg_Create name s))" "logs_ok (fst (lg_Call s))"
    "logs_ok (fst (lg_Write name b s))"
  using assms logs_ok_put [of "lg_tick s"]
  by (auto simp: lg_ReadDir_def lg_RemoveAll_def lg_Remove_def lg_Open_def lg_Create_def lg_Call_def lg_Write_def
      logs_ok_next logs_ok_def lg_entry_def delete_conv' split: option.splits)

lemma initLogs_ok:
  assumes "logs_ok s"
  obtains s' where "initLogs s = (s', Inr ())" and "logs_ok s'"
proof -
  let ?d = "case lg_dir s of None \<Rightarrow> [] | Some d \<Rightarrow> d"
  define s1 where "s1 = lg_tick ((lg_tick s)\<lparr>lg_dir := Some ?d\<rparr>)"
  have s1: "logs_ok s1" "lg_dir s1 = Some ?d"
    using assms by (auto simp: s1_def logs_ok_def lg_entry_def split: option.splits)
  let ?name = "log_name (length ?d)"
  have "fst (lg_MkdirAll s) = (lg_tick s)\<lparr>lg_dir := Some ?d\<rparr>" "snd (lg_MkdirAll s)"
    using logs_ok_next [OF assms] by (simp_all add: lg_MkdirAll_def)
  moreover have "lg_ReadDir ((lg_tick s)\<lparr>lg_dir := Some ?d\<rparr>) = (s1, Some (sort_slice name_order (map fst ?d)))"
    using assms by (simp add: lg_ReadDir_def s1_def logs_ok_def)
  ultimately have run: "initLogs s = (case lg_Append ?name s1 of
      (s, False) \<Rightarrow> (s, Inl (Err (OpenLogFailed ?name))) | (s, True) \<Rightarrow> (s\<lparr>lg_out := Some ?name\<rparr>, Inr ()))"
    by (cases "lg_MkdirAll s") (simp add: initLogs_def Let_def)
  have t: "logs_ok (lg_tick s1)" "logs_ok (lg_put ?name [] (lg_tick s1))" using s1(1) logs_ok_put [of "lg_tick s1"] by simp_all
  have "lg_entry ?name s1 \<noteq> Some LogSubdir" "lg_next s1 = Works" using s1(1) by (simp_all add: logs_ok_def)
  then have "\<exists>s2. lg_Append ?name s1 = (s2, True) \<and> logs_ok s2"
    using t s1(2) unfolding lg_Append_def by (cases "lg_entry ?name s1") (auto split: log_entry.splits simp del: logs_ok_tick)
  then obtain s2 where "lg_Append ?name s1 = (s2, True)" "logs_ok s2" by blast
  then show thesis using that run by (simp add: logs_ok_def lg_entry_def)
qed

lemma compress_entry_ok: "logs_ok s \<Longrightarrow> logs_ok (fst (compress_entry G name s))"
  using logs_ok_calls by (auto simp: compress_entry_def Let_def split: prod.split option.split bool.split) (metis fst_conv)+

lemma compress_all_ok: "logs_ok s \<Longrightarrow> logs_ok (fst (compress_all G names s))"
proof (induction names arbitrary: s)
  case (Cons name names)
  then show ?case using compress_entry_ok [OF Cons.prems, of G name] by (auto split: prod.split sum.split)
qed simp

lemma menu_commands_ok: "logs_ok s \<Longrightarrow> logs_ok (fst (clearLogs s))" "logs_ok s \<Longrightarrow> logs_ok (fst (compressLogs G s))"
proof -
  show "logs_ok s \<Longrightarrow> logs_ok (fst (clearLogs s))"
    using logs_ok_calls(2) [of s] by (auto simp: clearLogs_def split: prod.split bool.split)
  show "logs_ok s \<Longrightarrow> logs_ok (fst (compressLogs G s))"
    using logs_ok_calls(1) [of s] by (auto simp: compressLogs_def compress_all_ok split: prod.split option.split)
qed

lemma logsMenu_ok: "logs_ok s \<Longrightarrow> \<exists>s'. logsMenu G lines s = (s', Inr ()) \<and> logs_ok s'"
proof (induction lines arbitrary: s)
  case (Cons line lines)
  have restart: "\<exists>s'. (case initLogs s0 of (s, Inl e) \<Rightarrow> (s, Inl e) | (s, Inr _) \<Rightarrow> logsMenu G lines s) = (s', Inr ()) \<and> logs_ok s'"
    if "logs_ok s0" for s0 by (rule initLogs_ok [OF that]) (use Cons.IH in simp)
  show ?case using restart [OF menu_commands_ok(1)] restart [OF menu_commands_ok(2)] Cons by (simp add: Let_def)
qed simp

text \<open>
  C40. On a working file system, with an unpacker for the compressor's output, a session in the log menu refines the
  history: it ends without error, no log is lost by compressing any number of times and each is found, packed,
  under its own number; a new log always gets an unused number; only \<open>clear\<close> forgets.
\<close>

theorem logsMenu_keeps_logs:
  assumes "lg_working s" and "archives gunzip s hist" and "lg_dir s \<noteq> None"
    and g: "\<And>n t b. gunzip (gz_pack G n t b) = Some b"
  shows "\<exists>s'. logsMenu G lines s = (s', Inr ()) \<and> archives gunzip s' (log_history lines hist)"
  using assms(1-3)
proof (induction lines arbitrary: s hist)
  case Nil
  then show ?case by simp
next
  case (Cons line lines)
  have restart: "\<exists>s''. initLogs s' = (s'', Inr ()) \<and>
      (\<exists>s3. logsMenu G lines s'' = (s3, Inr ()) \<and> archives gunzip s3 (log_history lines (h @ [[]])))"
    if h: "lg_working s'" "archives gunzip s' h" for s' h
  proof -
    obtain s'' where "initLogs s' = (s'', Inr ())" "lg_working s''" "archives gunzip s'' (h @ [[]])"
      "lg_entry (log_name (length h)) s'' = Some (LogFile [])"
      using initLogs_archives [OF h] by metis
    then show ?thesis using Cons.IH [of s'' "h @ [[]]"] by (auto simp: lg_entry_def split: option.splits)
  qed
  consider "trim_space line = ''clear''" | "trim_space line = ''compress''"
    | "trim_space line \<noteq> ''clear''" "trim_space line \<noteq> ''compress''" by blast
  then show ?case
  proof cases
    case 1
    obtain s' where "clearLogs s = (s', Inr ())" "lg_working s'" "archives gunzip s' []"
      using clearLogs_archives [OF Cons.prems(1)] by metis
    then show ?thesis using restart [of s' "[]"] 1 by auto
  next
    case 2
    obtain s' where "compressLogs G s = (s', Inr ())" "lg_working s'" "archives gunzip s' hist"
      using compressLogs_archives [of s gunzip hist G, OF Cons.prems(1-3) g] by metis
    then show ?thesis using restart [of s' hist] 2 by auto
  next
    case 3
    then show ?thesis using Cons by (simp add: Let_def)
  qed
qed

text \<open>Two rounds of compression in a fresh directory: the first log is packed twice, the second once.\<close>

definition demo_gzip :: gzip where
  "demo_gzip = \<lparr>gz_pack = (\<lambda>_ _ b. 31 # b), gz_time = (\<lambda>_. 0)\<rparr>"

definition demo_gunzip :: "bytes \<Rightarrow> bytes option" where
  "demo_gunzip b = (case b of [] \<Rightarrow> None | x # c \<Rightarrow> if x = 31 then Some c else None)"

definition demo_logs :: log_state where
  "demo_logs = \<lparr>lg_dir = Some [], lg_out = None, lg_fault = (\<lambda>_. Works), lg_time = 0\<rparr>"

theorem logsMenu_keeps_logs_witness:
  "\<exists>s'. logsMenu demo_gzip [''compress'', '' compress '', ''back''] demo_logs = (s', Inr ()) \<and>
     archives demo_gunzip s' [[], []]"
proof -
  have "log_history [''compress'', '' compress '', ''back''] [] = [[], []]" by code_simp
  moreover have "lg_working demo_logs" "archives demo_gunzip demo_logs []" "lg_dir demo_logs \<noteq> None"
    by (simp_all add: lg_working_def archives_def archived_def lg_files_def demo_logs_def)
  moreover have "demo_gunzip (gz_pack demo_gzip n t b) = Some b" for n t b
    by (simp add: demo_gunzip_def demo_gzip_def)
  ultimately show ?thesis
    using logsMenu_keeps_logs [of demo_logs demo_gunzip "[]" demo_gzip "[''compress'', '' compress '', ''back'']"]
    by metis
qed

end
