(* ===== verification/TestClient.thy ===== *)
theory TestClient
  imports TableText Logs
begin

text \<open>
  The command-line client, \<open>cmd/test_client\<close>: its commands and the loop that reads them. Nodes are objects
  shared by pointer, since the bootstrap node is also the first peer; so they live in a list and
  pointers are indices into it. What the clock, the random source, the files and the network do during a
  command is the command's \<open>world\<close>. The input comes in reads of whole lines, one line per read from a terminal, many from
  a pipe; the client and the log menu each have a scanner with a buffer of its own, whose limit of 64 KiB per
  line is not modelled. What the commands print is kept; the prompt and what goes to standard error are left out, and
  so are the requests of other nodes that arrive while the client runs (\<open>Serving\<close>).
\<close>

section \<open>State\<close>

datatype client_error = FatalErr "node_error option" | LogErr | LogFatal log_error

record client =
  cl_nodes :: "unit node list"
  cl_local :: nat
  cl_bootstrap :: "nat option"
  cl_peers :: "nat list"
  cl_env :: "string \<Rightarrow> string"
  cl_logs :: log_state
  cl_out :: string

record world =
  w_codec :: router_codec
  w_now :: int
  w_ident :: nodeid
  w_fresh :: nodeid
  w_outbound :: string
  w_is_file :: "string \<Rightarrow> bool"
  w_decode :: "string \<Rightarrow> config \<Rightarrow> config option"
  w_duration :: "string \<Rightarrow> int option"
  w_store :: "unit option"
  w_resolve :: "string \<Rightarrow> string option"
  w_listens :: "string \<Rightarrow> bool"
  w_pings :: "nat \<Rightarrow> client_net"
  w_lookups :: "nat \<Rightarrow> client_net"
  w_lookup_env :: lookup_env
  w_sched :: "string list \<Rightarrow> string list"
  w_rand :: "nat \<Rightarrow> bytes option"
  w_bucket_lookups :: "nat \<Rightarrow> nat \<Rightarrow> client_net"
  w_bucket_pings :: "nat \<Rightarrow> nat \<Rightarrow> client_net"
  w_gzip :: gzip

definition w_load :: "world \<Rightarrow> (string \<Rightarrow> string) \<Rightarrow> string \<Rightarrow> (config_error, config) go" where
  "w_load w env path =
     Load (w_fresh w) (w_outbound w) (w_is_file w) (w_decode w) (w_duration w) env path"

type_synonym 'a cl_result = "client \<times> (client_error, 'a) go"

text \<open>A call on the node behind a pointer, and printing.\<close>

definition on_node :: "nat \<Rightarrow> (unit node \<Rightarrow> unit node \<times> 'r) \<Rightarrow> client \<Rightarrow> client \<times> 'r" where
  "on_node i f c = (case f (cl_nodes c ! i) of (n, r) \<Rightarrow> (c\<lparr>cl_nodes := (cl_nodes c)[i := n]\<rparr>, r))"

definition say :: "string \<Rightarrow> client \<Rightarrow> client" where
  "say s c = c\<lparr>cl_out := cl_out c @ s\<rparr>"

text \<open>\<open>LogError\<close> and \<open>FatalError\<close> wrap the error of a call; a panic goes through.\<close>

definition LogError :: "'e failure \<Rightarrow> client_error failure" where
  "LogError = map_failure (\<lambda>_. LogErr)"

definition FatalError :: "node_error failure \<Rightarrow> client_error failure" where
  "FatalError = map_failure (\<lambda>e. FatalErr (Some e))"

section \<open>Commands\<close>

definition help_cmds :: "(string \<times> string) list" where
  "help_cmds = [
     (''start'', ''Start networking (UDP server)''),
     (''join <peerAddr>'', ''Join a peer network (e.g. \"localhost:6669\")''),
     (''ping <peerAddr>'', ''Ping a peer (e.g. \"localhost:6669\")''),
     (''spin'', ''Spin up a dummy peer''),
     (''table <opt:index>'', ''Print a node'' @ [CHR 0xE2, CHR 0x80, CHR 0x99] @ ''s routing table''),
     (''stats'', ''Print network stats''),
     (''killp'', ''Stop all dummy peers''),
     (''logs'', ''Open logs menu''),
     (''exit, quit'', ''Stop and exit this client''),
     (''help'', ''Show this message'')]"

definition pad_right :: "nat \<Rightarrow> string \<Rightarrow> string" where
  "pad_right w s = s @ replicate (w - length s) (CHR '' '')"

definition help_text :: string where
  "help_text =
     (let maxName = foldl (\<lambda>m (name, _). if m < length name then length name else m) 0 help_cmds in
      [nl] @ '' Available commands:'' @ [nl] @
      concat (map (\<lambda>(name, desc). ''   '' @ pad_right maxName name @ ''  '' @ desc @ [nl]) help_cmds) @ [nl])"

definition cl_help :: "string list \<Rightarrow> client \<Rightarrow> unit cl_result" where
  "cl_help args c = (say help_text c, Inr ())"

definition cl_start :: "world \<Rightarrow> string list \<Rightarrow> client \<Rightarrow> unit cl_result" where
  "cl_start w args c =
     (case on_node (cl_local c) (node_Start (w_codec w) (w_pings w) (w_resolve w) (w_listens w)) c of
        (c, Inl e) \<Rightarrow> (c, Inl (FatalError e))
      | (c, Inr _) \<Rightarrow> (say (''Node started successfully.'' @ [nl]) c, Inr ()))"

text \<open>An argument of fewer than eight characters that is a number below the number of peers means a peer.\<close>

definition peer_address :: "client \<Rightarrow> string \<Rightarrow> (client_error, string) go" where
  "peer_address c addr =
     (if length addr < 8 then
        (case Atoi addr of
           None \<Rightarrow> Inr addr
         | Some t \<Rightarrow>
             if t < int (length (cl_peers c)) then
               (if t < 0 then Inl (Panic IndexOutOfRange)
                else GetUDPAddress (Some (n_Contact (cl_nodes c ! (cl_peers c ! nat t)))))
             else Inr addr)
      else Inr addr)"

definition cl_join :: "world \<Rightarrow> string list \<Rightarrow> client \<Rightarrow> unit cl_result" where
  "cl_join w args c =
     (case args of
        [] \<Rightarrow> (say (''Usage: join <peerAddr>'' @ [nl]) c, Inl (Err LogErr))
      | a # _ \<Rightarrow>
     (case peer_address c a of
        Inl e \<Rightarrow> (c, Inl e)
      | Inr addr \<Rightarrow>
     (case on_node (cl_local c) (\<lambda>n.
             node_Join (w_codec w) (w_pings w) (w_lookups w) (w_lookup_env w) (w_sched w) n addr) c of
        (c, Inl e) \<Rightarrow> (c, Inl (LogError e))
      | (c, Inr _) \<Rightarrow> (say (''Join to '' @ addr @ '' succeeded.'' @ [nl]) c, Inr ()))))"

definition cl_ping :: "world \<Rightarrow> string list \<Rightarrow> client \<Rightarrow> unit cl_result" where
  "cl_ping w args c =
     (case args of
        [] \<Rightarrow> (say (''Usage: ping <peerAddr>'' @ [nl]) c, Inl (Err LogErr))
      | a # _ \<Rightarrow>
     (case peer_address c a of
        Inl e \<Rightarrow> (c, Inl e)
      | Inr addr \<Rightarrow>
     (case on_node (cl_local c) (\<lambda>n. node_Ping (w_codec w) (w_pings w 0) n addr) c of
        (c, Inl e) \<Rightarrow> (c, Inl (LogError e))
      | (c, Inr _) \<Rightarrow> (say (''Ping to '' @ addr @ '' succeeded.'' @ [nl]) c, Inr ()))))"

definition peerCfg :: string where "peerCfg = ''config/peer.toml''"
definition peerTCP :: int where "peerTCP = 6668"
definition peerUDP :: int where "peerUDP = 6670"

text \<open>\<open>P%05d\<close>.\<close>

definition genPeerUsername :: "nat \<Rightarrow> string" where
  "genPeerUsername n = CHR ''P'' # pad_zero 5 (nat_digits n)"

text \<open>
  \<open>randString\<close>, which nothing calls; \<open>rand i\<close> is what the random source gives for position \<open>i\<close>, a number below the one it
  was asked for.
\<close>

definition letters :: string where
  "letters = ''abcdefghijklmnopqrstuvwxyzABCDEFGHIJKLMNOPQRSTUVWXYZ0123456789''"

primrec rand_loop :: "(nat \<Rightarrow> nat option) \<Rightarrow> nat \<Rightarrow> (unit, string) go" where
  "rand_loop rand 0 = Inr ''''"
| "rand_loop rand (Suc n) =
     (case rand_loop rand n of
        Inl e \<Rightarrow> Inl e
      | Inr b \<Rightarrow>
          (case rand n of
             None \<Rightarrow> Inl (Err ())
           | Some idx \<Rightarrow> if idx < length letters then Inr (b @ [letters ! idx]) else Inl (Panic IndexOutOfRange)))"

definition randString :: "(nat \<Rightarrow> nat option) \<Rightarrow> int \<Rightarrow> (unit, string) go" where
  "randString rand n = (if n < 0 then Inl (Panic NegativeMake) else rand_loop rand (nat n))"

lemma randString_length:
  assumes "randString rand n = Inr s"
  shows "int (length s) = n \<and> set s \<subseteq> set letters"
proof -
  have "rand_loop rand k = Inr s \<Longrightarrow> length s = k \<and> set s \<subseteq> set letters" for k s
    by (induction k arbitrary: s) (fastforce split: sum.splits option.splits if_splits)+
  then show ?thesis using assms by (auto simp: randString_def split: if_splits)
qed

text \<open>\<open>os.Setenv\<close> fails only on empty names, on names with \<open>=\<close> and on zero bytes, none of which occur.\<close>

definition initSpin :: "nodeid \<Rightarrow> client \<Rightarrow> client" where
  "initSpin ident c =
     (let n = length (cl_peers c);
          env = (cl_env c)(''NODE_ID'' := NodeID_String ident, ''UDP_PORT'' := Itoa (peerUDP + int n),
                           ''TCP_PORT'' := Itoa (peerTCP - int n));
          env = (if n = 0 then env else env(''NODE_USER'' := genPeerUsername n))
      in c\<lparr>cl_env := env\<rparr>)"

definition bootstrapping :: string where
  "bootstrapping = ''Node started and listening for RPCs.'' @ [nl] @ '' Bootstrapping ...'' @ [nl]"

text \<open>One round of \<open>spin\<close>; what \<open>Join\<close> returns is ignored.\<close>

definition spin_once :: "world \<Rightarrow> client \<Rightarrow> unit cl_result" where
  "spin_once w c =
     (let c = initSpin (w_ident w) c in
      case NewNode (w_codec w) (w_now w) (w_store w) (w_load w (cl_env c) peerCfg) of
        Inl (Err _) \<Rightarrow> (c, Inl (Err LogErr))
      | Inl (Panic p) \<Rightarrow> (c, Inl (Panic p))
      | Inl Blocked \<Rightarrow> (c, Inl Blocked)
      | Inr peer \<Rightarrow>
     (let ptr = length (cl_nodes c); c = c\<lparr>cl_nodes := cl_nodes c @ [peer]\<rparr> in
      case on_node ptr (node_Start (w_codec w) (w_pings w) (w_resolve w) (w_listens w)) c of
        (c, Inl (Err _)) \<Rightarrow> (c, Inl (Err LogErr))
      | (c, Inl (Panic p)) \<Rightarrow> (c, Inl (Panic p))
      | (c, Inl Blocked) \<Rightarrow> (c, Inl Blocked)
      | (c, Inr _) \<Rightarrow>
     (let c = c\<lparr>cl_peers := cl_peers c @ [ptr]\<rparr> in
      if length (cl_peers c) = 1 then (c\<lparr>cl_bootstrap := Some ptr\<rparr>, Inr ())
      else let c = say bootstrapping c in
        case cl_bootstrap c of
        None \<Rightarrow> (c, Inl (Panic NilDereference))
      | Some b \<Rightarrow>
     (case GetUDPAddress (Some (n_Contact (cl_nodes c ! b))) of
        Inl e \<Rightarrow> (c, Inl e)
      | Inr addr \<Rightarrow>
     (case on_node ptr (\<lambda>n. node_Join (w_codec w) (w_pings w) (w_lookups w) (w_lookup_env w) (w_sched w) n addr) c of
        (c, Inl (Panic p)) \<Rightarrow> (c, Inl (Panic p))
      | (c, Inl Blocked) \<Rightarrow> (c, Inl Blocked)
      | (c, _) \<Rightarrow> (c, Inr ()))))))"

text \<open>Round \<open>i\<close> happens in the world \<open>ws i\<close>.\<close>

primrec spin_loop :: "(nat \<Rightarrow> world) \<Rightarrow> nat \<Rightarrow> nat \<Rightarrow> client \<Rightarrow> unit cl_result" where
  "spin_loop ws i 0 c = (c, Inr ())"
| "spin_loop ws i (Suc m) c =
     (case spin_once (ws i) c of
        (c, Inl e) \<Rightarrow> (c, Inl e)
      | (c, Inr _) \<Rightarrow> spin_loop ws (Suc i) m c)"

definition cl_spin :: "(nat \<Rightarrow> world) \<Rightarrow> string list \<Rightarrow> client \<Rightarrow> unit cl_result" where
  "cl_spin ws args c =
     (case args of
        [] \<Rightarrow> spin_loop ws 0 1 c
      | a # _ \<Rightarrow>
          (case Atoi a of
             None \<Rightarrow> (c, Inl (Err LogErr))
           | Some n \<Rightarrow> spin_loop ws 0 (nat n) c))"

fun stop_all :: "nat list \<Rightarrow> client \<Rightarrow> unit cl_result" where
  "stop_all [] c = (c, Inr ())"
| "stop_all (p # ps) c =
     (case on_node p node_Stop c of
        (c, Inl (Panic q)) \<Rightarrow> (c, Inl (Panic q))
      | (c, Inl Blocked) \<Rightarrow> (c, Inl Blocked)
      | (c, _) \<Rightarrow> stop_all ps c)"

fun kill_some :: "string list \<Rightarrow> client \<Rightarrow> unit cl_result" where
  "kill_some [] c = (c, Inr ())"
| "kill_some (a # as) c =
     (case Atoi a of
        None \<Rightarrow> kill_some as c
      | Some n \<Rightarrow>
          if int (length (cl_peers c)) \<le> n then kill_some as c
          else if n < 0 then (c, Inl (Panic IndexOutOfRange))
          else (case on_node (cl_peers c ! nat n) node_Stop c of
              (c, Inl (Panic q)) \<Rightarrow> (c, Inl (Panic q))
            | (c, Inl Blocked) \<Rightarrow> (c, Inl Blocked)
            | (c, _) \<Rightarrow> kill_some as c))"

definition cl_killp :: "string list \<Rightarrow> client \<Rightarrow> unit cl_result" where
  "cl_killp args c =
     (if args \<noteq> [] then kill_some args c
      else case stop_all (cl_peers c) c of
        (c, Inl e) \<Rightarrow> (c, Inl e)
      | (c, Inr _) \<Rightarrow> (c\<lparr>cl_peers := []\<rparr>, Inr ()))"

definition cl_shutdown :: "string list \<Rightarrow> client \<Rightarrow> unit cl_result" where
  "cl_shutdown args c =
     (case stop_all (cl_local c # cl_peers c) c of
        (c, Inl e) \<Rightarrow> (c, Inl e)
      | (c, Inr _) \<Rightarrow> (c, Inl (Err (FatalErr None))))"

definition udp_address :: "'s node \<Rightarrow> string" where
  "udp_address n = c_Address (n_Contact n) @ '':'' @ c_UdpPort (n_Contact n)"

definition netstat_text :: "client \<Rightarrow> nat \<Rightarrow> string" where
  "netstat_text c b =
     (let local = cl_nodes c ! cl_local c; tab = CHR 0x09 in
      [nl, nl] @ ''  Net Stats =>'' @ [nl, tab] @
      ''Local: '' @ c_Username (n_Contact local) @ '':'' @ udp_address local @ [nl, tab] @
      ''Bootstrap: '' @ udp_address (cl_nodes c ! b) @ [nl, tab] @
      ''Peers: '' @ nat_digits (length (cl_peers c)) @ [nl, tab] @
      ''Packets: '' @ Itoa (sint (nl_Packets (node_Stats local))) @ [nl, nl])"

definition cl_netstat :: "string list \<Rightarrow> client \<Rightarrow> unit cl_result" where
  "cl_netstat args c =
     (case cl_bootstrap c of
        None \<Rightarrow> (c, Inl (Panic NilDereference))
      | Some b \<Rightarrow> (say (netstat_text c b) c, Inr ()))"

text \<open>The peer a single argument of \<open>table\<close> and \<open>refresh\<close> names.\<close>

definition peer_index :: "string \<Rightarrow> client \<Rightarrow> (client_error, nat) go" where
  "peer_index a c =
     (case Atoi a of
        None \<Rightarrow> Inl (Err LogErr)
      | Some n \<Rightarrow>
          if int (length (cl_peers c)) \<le> n then Inl (Err LogErr)
          else if n < 0 then Inl (Panic IndexOutOfRange)
          else Inr (cl_peers c ! nat n))"

definition table_text :: "'s node \<Rightarrow> string" where
  "table_text n =
     [nl, nl] @ ''Routing Table for Node: '' @ c_Username (n_Contact n) @ '':'' @ udp_address n @ '' '' @ [nl, nl] @
     PrintRoutingTable n"

definition cl_table :: "string list \<Rightarrow> client \<Rightarrow> unit cl_result" where
  "cl_table args c =
     (case args of
        [a] \<Rightarrow> (case peer_index a c of Inl e \<Rightarrow> (c, Inl e) | Inr i \<Rightarrow> (say (table_text (cl_nodes c ! i)) c, Inr ()))
      | _ \<Rightarrow> (say (table_text (cl_nodes c ! cl_local c)) c, Inr ()))"

definition refresh_node :: "world \<Rightarrow> string \<Rightarrow> nat \<Rightarrow> client \<Rightarrow> unit cl_result" where
  "refresh_node w msg i c =
     (case on_node i (RefreshBuckets (w_codec w) (w_rand w) (w_bucket_lookups w) (w_bucket_pings w) (w_lookup_env w)) c of
        (c, Inl (Panic p)) \<Rightarrow> (c, Inl (Panic p))
      | (c, Inl Blocked) \<Rightarrow> (c, Inl Blocked)
      | (c, _) \<Rightarrow> (say msg c, Inr ()))"

definition cl_refresh :: "world \<Rightarrow> string list \<Rightarrow> client \<Rightarrow> unit cl_result" where
  "cl_refresh w args c =
     (case args of
        [a] \<Rightarrow> (case peer_index a c of 
           Inl e \<Rightarrow> (c, Inl e)
         | Inr i \<Rightarrow> refresh_node w (''buckets refreshed for peer['' @ Itoa (the (Atoi a)) @ '']'') i c)
      | _ \<Rightarrow> refresh_node w (''buckets refreshed for local'' @ [nl]) (cl_local c) c)"

section \<open>The loop\<close>

text \<open>\<open>strings.Fields\<close> on ASCII text.\<close>

definition fields :: "string \<Rightarrow> string list" where
  "fields s =
     filter (\<lambda>f. f \<noteq> []) (split_on (CHR '' '') (map (\<lambda>ch. if is_space ch then CHR '' '' else ch) s))"

text \<open>
  The registered commands; \<open>stdin\<close> is what another scanner can still read. The menu's fatal errors end the process.
\<close>

definition cl_logsMenu :: "world \<Rightarrow> string list \<Rightarrow> string list \<Rightarrow> client \<Rightarrow> unit cl_result" where
  "cl_logsMenu w stdin args c =
     (case logsMenu (w_gzip w) stdin (cl_logs c) of (s, r) \<Rightarrow> (c\<lparr>cl_logs := s\<rparr>, map_sum (map_failure LogFatal) id r))"

definition commands :: "(nat \<Rightarrow> world) \<Rightarrow> string list \<Rightarrow> string \<Rightarrow> (string list \<Rightarrow> client \<Rightarrow> unit cl_result) option" where
  "commands ws stdin = map_of [
     (''start'', cl_start (ws 0)), (''ping'', cl_ping (ws 0)), (''spin'', cl_spin ws), (''killp'', cl_killp),
     (''join'', cl_join (ws 0)), (''refresh'', cl_refresh (ws 0)), (''table'', cl_table),
     (''stats'', cl_netstat), (''help'', cl_help), (''exit'', cl_shutdown), (''quit'', cl_shutdown),
     (''logs'', cl_logsMenu (ws 0) stdin)]"

datatype start_error = StartLogs log_error | StartNode node_error

definition NewClient :: "world \<Rightarrow> (string \<Rightarrow> string) \<Rightarrow> log_state \<Rightarrow> (start_error, client) go" where
  "NewClient w env logs =
     (case initLogs logs of
        (_, Inl e) \<Rightarrow> Inl (map_failure StartLogs e)
      | (logs, Inr _) \<Rightarrow>
     (case NewNode (w_codec w) (w_now w) (w_store w) (w_load w env '''') of
        Inl e \<Rightarrow> Inl (map_failure StartNode e)
      | Inr n \<Rightarrow> Inr \<lparr>cl_nodes = [n], cl_local = 0, cl_bootstrap = None, cl_peers = [], cl_env = env, cl_logs = logs,
                       cl_out = ''[Node] initialized (not running)'' @ [nl]\<rparr>))"

datatype run_end = InputEnded | CleanExit | ExitFailure | Crash go_panic | Hung

text \<open>
  The lines still to come are the reads of the input, each line with the world in which it runs. The menu takes whole
  reads, up to the one with the line that leaves it; the rest of that read is lost with its scanner.
\<close>

type_synonym input = "(string \<times> (nat \<Rightarrow> world)) list"

fun after_menu :: "input list \<Rightarrow> input list" where
  "after_menu [] = []"
| "after_menu (rd # reads) = (if \<exists>(line, ws)\<in>set rd. leaves_menu line then reads else after_menu reads)"

definition unread :: "string \<Rightarrow> input list \<Rightarrow> input list" where
  "unread cmd reads = (if cmd = ''logs'' then after_menu reads else reads)"

lemma length_unread: "length (unread cmd reads) \<le> length reads"
proof -
  have "length (after_menu reads) \<le> length reads" by (induction reads) auto
  then show ?thesis by (simp add: unread_def)
qed

text \<open>The loop; \<open>buf\<close> is what the client's scanner has read and not returned yet.\<close>

function run_client :: "input \<Rightarrow> input list \<Rightarrow> client \<Rightarrow> client \<times> run_end" where
  "run_client [] [] c = (c, InputEnded)"
| "run_client [] (rd # reads) c = run_client rd reads c"
| "run_client ((line, ws) # buf) reads c =
     (case fields line of
        [] \<Rightarrow> run_client buf reads c
      | cmd # args \<Rightarrow>
     (case commands ws (map fst (concat reads)) cmd of
        None \<Rightarrow> run_client buf reads c
      | Some fn \<Rightarrow>
     (case fn args c of
        (c, Inr _) \<Rightarrow> run_client buf (unread cmd reads) c
      | (c, Inl (Err LogErr)) \<Rightarrow> run_client buf (unread cmd reads) c
      | (c, Inl (Err (FatalErr None))) \<Rightarrow> (c, CleanExit)
      | (c, Inl (Err (FatalErr (Some _)))) \<Rightarrow> (c, ExitFailure)
      | (c, Inl (Err (LogFatal _))) \<Rightarrow> (c, ExitFailure)
      | (c, Inl (Panic p)) \<Rightarrow> (c, Crash p)
      | (c, Inl Blocked) \<Rightarrow> (c, Hung))))"
  by pat_completeness auto
termination
  by (relation "measures [\<lambda>(buf, reads, c). length reads, \<lambda>(buf, reads, c). length buf]")
    (auto simp: le_imp_less_or_eq length_unread)



section \<open>Nodes keep their life cycle\<close>

text \<open>Requests to others leave the channel, the socket, the configuration and the contact alone.\<close>

definition nm_life :: "network_manager \<Rightarrow> chan_state option \<times> udp_server option" where
  "nm_life nm = (nm_receiver nm, nm_udpServ nm)"

definition life :: "'s node \<Rightarrow> (chan_state option \<times> udp_server option) \<times> config \<times> contact" where
  "life n = (nm_life (n_nm n), n_cfg n, n_Contact n)"













section \<open>What the client keeps\<close>

text \<open>A node that can be maintained, and one that \<open>Stop\<close> has not closed yet.\<close>

definition gnode :: "'s node \<Rightarrow> bool" where
  "gnode n \<longleftrightarrow> node_ok n \<and> 0 < cf_Refresh (n_cfg n)"

fun openable :: "(chan_state option \<times> udp_server option) \<times> 'b \<Rightarrow> bool" where
  "openable ((rc, us), _) \<longleftrightarrow> rc \<noteq> Some ChanClosed \<and> (\<forall>u. us = Some u \<longrightarrow> us_cancel u \<noteq> None)"

definition usable :: "'s node \<Rightarrow> bool" where
  "usable n \<longleftrightarrow> gnode n \<and> openable (life n)"

definition client_ok :: "client \<Rightarrow> bool" where
  "client_ok c \<longleftrightarrow> distinct (cl_local c # cl_peers c) \<and> logs_ok (cl_logs c)
     \<and> (\<forall>p\<in>set (cl_local c # cl_peers c). p < length (cl_nodes c) \<and> usable (cl_nodes c ! p))
     \<and> (\<forall>n\<in>set (cl_nodes c). gnode n)
     \<and> (cl_peers c \<noteq> [] \<longrightarrow> cl_bootstrap c \<noteq> None)
     \<and> (\<forall>b. cl_bootstrap c = Some b \<longrightarrow> b < length (cl_nodes c))"

text \<open>The outside world of a command: answers are whole contacts and configurations are sensible.\<close>

definition good_world :: "world \<Rightarrow> bool" where
  "good_world w \<longleftrightarrow> (\<forall>i. honest (w_codec w) (w_pings w i)) \<and> (\<forall>i. honest (w_codec w) (w_lookups w i))
     \<and> (\<forall>k i. honest (w_codec w) (w_bucket_lookups w k i)) \<and> (\<forall>k i. honest (w_codec w) (w_bucket_pings w k i))
     \<and> lookup_env_ok (w_lookup_env w)
     \<and> (\<forall>env path cfg. w_load w env path = Inr cfg \<longrightarrow> 0 < cf_K cfg \<and> 0 \<le> cf_Alpha cfg
          \<and> 0 < cf_Refresh cfg \<and> distinct (map fst (cf_AppLocks cfg)))"


lemma mgr_ok_life:
  "mgr_ok (nm\<lparr>nm_receiver := r\<rparr>) = mgr_ok nm" "mgr_ok (nm\<lparr>nm_receiver := r, nm_udpServ := u\<rparr>) = mgr_ok nm"
  "mgr_ok (nm\<lparr>nm_udpServ := u\<rparr>) = mgr_ok nm" "mgr_ok (nm\<lparr>nm_udpServ := u, nm_receiver := r\<rparr>) = mgr_ok nm"
  by (simp_all add: mgr_ok_def nm_inv_def table_ok_def shared.truncate_def)



lemma Stop_usable:
  assumes "usable n"
  obtains n' where "node_Stop n = (n', Inr ())" and "gnode n'"
proof -
  have g: "gnode (n\<lparr>n_nm := (n_nm n)\<lparr>nm_udpServ := u, nm_receiver := r\<rparr>, n_cancelled := b\<rparr>)"
      "gnode (n\<lparr>n_nm := (n_nm n)\<lparr>nm_udpServ := u\<rparr>, n_cancelled := b\<rparr>)" for u r b
    using assms by (simp_all add: usable_def gnode_def node_ok_def mgr_ok_life)
  have o: "openable (life n)" using assms by (simp add: usable_def)
  then obtain u where u: "(case nm_udpServ (n_nm n) of None \<Rightarrow> Inr None | Some u \<Rightarrow> map_sum id Some (udp_Stop u)) = Inr u"
    by (cases "nm_udpServ (n_nm n)") (auto simp: life_def nm_life_def udp_Stop_def)
  consider "nm_receiver (n_nm n) = None" | "nm_receiver (n_nm n) = Some ChanOpen"
    using o by (cases "nm_receiver (n_nm n)") (auto simp: life_def nm_life_def intro: chan_state.exhaust)
  then show thesis
    by cases (use that g in \<open>simp_all add: node_Stop_def nm_Shutdown_def u Let_def\<close>)
qed


text \<open>A constructed node is usable, and construction ends in a node or an error.\<close>

lemma NewNode_usable:
  assumes "good_world w"
  obtains n :: "unit node" where "NewNode cd now store (w_load w env path) = Inr n" and "usable n"
  | e where "NewNode cd now store (w_load w env path) = (Inl (Err e) :: (node_error, unit node) go)"
proof (cases "w_load w env path")
  case (Inl f)
  then have "\<exists>e. f = Err e" by (auto simp: w_load_def Load_def Let_def split: option.splits if_splits)
  then show thesis using that(2) Inl by (auto simp: NewNode_def)
next
  case (Inr cfg)
  then have g: "0 < cf_K cfg" "0 \<le> cf_Alpha cfg" "0 < cf_Refresh cfg" "distinct (map fst (cf_AppLocks cfg))"
    using assms unfolding good_world_def by blast+
  show thesis
  proof (cases "StringToNodeID (cf_NodeID cfg)")
    case (Inl f)
    then have "\<exists>e. f = Err e" by (auto simp: StringToNodeID_def split: option.splits if_splits)
    then show thesis using that(2) Inl \<open>w_load w env path = Inr cfg\<close> by (auto simp: NewNode_def)
  next
    case id: (Inr ident)
    then have len: "length ident = 20" by (auto simp: StringToNodeID_def split: option.splits if_splits)
    define ct where "ct = UpdateUsername (NewContact now ident (cf_Address cfg) (port_string (cf_TCPPort cfg))
      (port_string (cf_UDPPort cfg))) (cf_Username cfg)"
    have cid: "c_Id ct = ident" by (simp add: ct_def UpdateUsername_def NewContact_def)
    have new: "NewNode cd now store (w_load w env path) = (case NewNetworkManager cd (Some ct) cfg of
        Inl e \<Rightarrow> Inl (map_failure InitManager e)
      | Inr nm \<Rightarrow> Inr \<lparr>n_ID = ident, n_Contact = ct, n_cfg = cfg, n_nm = nm, n_storage = store, n_cancelled = False\<rparr>)"
      by (simp add: NewNode_def Inr id ct_def Let_def split: sum.split)
    have res: "(\<exists>nm. NewNetworkManager cd (Some ct) cfg = Inr nm) \<or> (\<exists>e. NewNetworkManager cd (Some ct) cfg = Inl (Err e))"
      "\<And>nm. NewNetworkManager cd (Some ct) cfg = Inr nm \<Longrightarrow>
         nm_serving cd nm \<and> nm_cfg nm = cfg \<and> nm_info nm = Some ct \<and> table_peers (nm_router nm) = {Some ct}"
      using NewNetworkManager_result [of "Some ct" cfg cd, OF _ _ g(4)] g len by (auto simp: cid simp del: split_paired_All)
    from res(1) show thesis
    proof (elim disjE exE)
      fix nm assume nm: "NewNetworkManager cd (Some ct) cfg = Inr nm"
      then have "nm_receiver nm = None \<and> nm_udpServ nm = None"
        by (auto simp: NewNetworkManager_def RegisterService_def Let_def count_service_def count_error_def
            split: sum.splits prod.splits metadata.splits if_splits option.splits)
      moreover have "mgr_ok nm" using res(2) [OF nm] g(1,2) len by (simp add: mgr_ok_def nm_serving_def whole_def cid)
      ultimately show thesis
        by (intro that(1)) (auto simp: new nm usable_def gnode_def node_ok_def life_def nm_life_def g(3) is_nodeid_def whole_def cid len)
    next
      fix e assume "NewNetworkManager cd (Some ct) cfg = Inl (Err e)"
      then show thesis by (intro that(2)) (auto simp: new)
    qed
  qed
qed

section \<open>What a command does\<close>


lemma say_simps [simp]:
  "client_ok (say s c) = client_ok c" "cl_nodes (say s c) = cl_nodes c" "cl_peers (say s c) = cl_peers c"
  "cl_local (say s c) = cl_local c" "cl_bootstrap (say s c) = cl_bootstrap c" "cl_logs (say s c) = cl_logs c"
  by (simp_all add: say_def client_ok_def)


lemma client_ok_node:
  assumes "client_ok c" and "p \<in> set (cl_local c # cl_peers c)"
  shows "p < length (cl_nodes c)" and "usable (cl_nodes c ! p)"
  using assms by (auto simp: client_ok_def)












lemma initSpin_ok [simp]:
  "client_ok (initSpin ident c) = client_ok c" "cl_nodes (initSpin ident c) = cl_nodes c"
  "cl_peers (initSpin ident c) = cl_peers c" "cl_bootstrap (initSpin ident c) = cl_bootstrap c"
  by (simp_all add: initSpin_def Let_def client_ok_def)




text \<open>Stopping usable nodes, each once.\<close>

lemma stop_all_ok:
  assumes "distinct ps" and "\<forall>p\<in>set ps. p < length (cl_nodes c) \<and> usable (cl_nodes c ! p)" and "\<forall>n\<in>set (cl_nodes c). gnode n"
  shows "\<exists>ns. stop_all ps c = (c\<lparr>cl_nodes := ns\<rparr>, Inr ()) \<and> length ns = length (cl_nodes c) \<and> (\<forall>n\<in>set ns. gnode n)
    \<and> (\<forall>i. i \<notin> set ps \<longrightarrow> ns ! i = cl_nodes c ! i)"
  using assms
proof (induction ps arbitrary: c)
  case Nil
  then show ?case by (intro exI [of _ "cl_nodes c"]) simp
next
  case (Cons p ps)
  obtain n where n: "node_Stop (cl_nodes c ! p) = (n, Inr ())" "gnode n"
    using Stop_usable Cons.prems(2) by (metis list.set_intros(1))
  define c1 where "c1 = c\<lparr>cl_nodes := (cl_nodes c)[p := n]\<rparr>"
  have "\<forall>q\<in>set ps. q < length (cl_nodes c1) \<and> usable (cl_nodes c1 ! q)"
    using Cons.prems(1,2) by (auto simp: c1_def nth_list_update)
  moreover have "\<forall>m\<in>set (cl_nodes c1). gnode m"
    using Cons.prems(3) n(2) set_update_subset_insert [of "cl_nodes c" p n] by (auto simp: c1_def)
  ultimately obtain ns where "stop_all ps c1 = (c1\<lparr>cl_nodes := ns\<rparr>, Inr ())" "length ns = length (cl_nodes c1)"
    "\<forall>n\<in>set ns. gnode n" "\<forall>i. i \<notin> set ps \<longrightarrow> ns ! i = cl_nodes c1 ! i"
    using Cons.IH [of c1] Cons.prems(1) by auto
  then show ?case by (intro exI [of _ ns]) (auto simp: on_node_def n c1_def)
qed



section \<open>Properties\<close>

definition quits :: "string \<Rightarrow> bool" where
  "quits line \<longleftrightarrow> (case fields line of [] \<Rightarrow> False | cmd # _ \<Rightarrow> cmd \<in> {''exit'', ''quit''})"









lemma NewClient_ok:
  assumes "good_world w" and "logs_ok logs"
  obtains c where "NewClient w env logs = Inr c" and "client_ok c" and "cl_bootstrap c = None"
  | e where "NewClient w env logs = Inl (Err (StartNode e))"
proof -
  obtain s where s: "initLogs logs = (s, Inr ())" "logs_ok s" by (rule initLogs_ok [OF assms(2)])
  show thesis
  proof (rule NewNode_usable [OF assms(1), of "w_codec w" "w_now w" "w_store w" env "[]"])
    fix n :: "unit node"
    assume "NewNode (w_codec w) (w_now w) (w_store w) (w_load w env []) = Inr n" and n: "usable n"
    then have new: "NewClient w env logs = Inr \<lparr>cl_nodes = [n], cl_local = 0, cl_bootstrap = None, cl_peers = [], cl_env = env,
        cl_logs = s, cl_out = ''[Node] initialized (not running)'' @ [nl]\<rparr>" by (simp add: NewClient_def s(1))
    then show thesis using n s(2) by (intro that(1) [OF new]) (simp_all add: client_ok_def usable_def)
  next
    fix e assume "NewNode (w_codec w) (w_now w) (w_store w) (w_load w env []) = (Inl (Err e) :: (node_error, unit node) go)"
    then show thesis by (intro that(2)) (simp add: NewClient_def s(1))
  qed
qed

text \<open>A world in which nobody answers and every configuration file holds the demonstration settings.\<close>

definition demo_world :: world where
  "demo_world = \<lparr>w_codec = demo_codec, w_now = 0, w_ident = zero_id, w_fresh = zero_id, w_outbound = ''localhost'',
     w_is_file = (\<lambda>_. True), w_decode = (\<lambda>_ _. Some (demo_config routing_service)), w_duration = (\<lambda>_. None), w_store = None,
     w_resolve = Some, w_listens = (\<lambda>_. True), w_pings = (\<lambda>_. dead_net), w_lookups = (\<lambda>_. dead_net),
     w_lookup_env = prompt_env, w_sched = (\<lambda>as. as), w_rand = (\<lambda>_. None), w_bucket_lookups = (\<lambda>_ _. dead_net),
     w_bucket_pings = (\<lambda>_ _. dead_net), w_gzip = demo_gzip\<rparr>"

lemma demo_world_good: "good_world demo_world"
  by (auto simp: good_world_def demo_world_def dead_honest w_load_def Load_def env_overrides_fields demo_config_def
      default_config_def prompt_env_ok split: if_splits)

lemma demo_logs_ok: "logs_ok demo_logs"
  by (simp add: logs_ok_def lg_working_def lg_entry_def demo_logs_def)

lemma demo_client:
  obtains c where "NewClient demo_world (\<lambda>_. []) demo_logs = Inr c" and "client_ok c" and "cl_bootstrap c = None"
proof -
  have id: "StringToNodeID (cf_NodeID (demo_config routing_service)) = Inr zero_id"
    by (simp add: demo_config_def default_config_def; code_simp)
  have bad: "StringToNodeID ''zz'' = Inl (Err InvalidHex)" by code_simp
  obtain n :: "unit node" where "NewNode demo_codec 0 None (Inr (demo_config routing_service)) = Inr n"
    using NewNode_result [OF id, of "(demo_config routing_service)\<lparr>cf_NodeID := ''zz''\<rparr>" InvalidHex demo_codec 0 None] bad
    by (auto simp: demo_config_def default_config_def good_demo_lock)
  moreover obtain s where "initLogs demo_logs = (s, Inr ())" by (rule initLogs_ok [OF demo_logs_ok])
  ultimately have "NewClient demo_world (\<lambda>_. []) demo_logs \<noteq> Inl (Err (StartNode e))" for e
    by (simp add: NewClient_def demo_world_def w_load_def Load_def)
  then show thesis using that NewClient_ok [OF demo_world_good demo_logs_ok, of "\<lambda>_. []"] by metis
qed



text \<open>Stopping a closed node panics; the nodes stopped before it do not matter.\<close>

lemma Stop_closed:
  assumes "nm_receiver (n_nm n) = Some ChanClosed"
  shows "snd (node_Stop n) \<noteq> Inl Blocked" "\<forall>u. nm_udpServ (n_nm n) = Some u \<longrightarrow> us_cancel u \<noteq> None \<Longrightarrow>
    snd (node_Stop n) = Inl (Panic ClosedChannel)"
  using assms by (auto simp: node_Stop_def nm_Shutdown_def udp_Stop_def Let_def split: option.splits)

lemma Stop_open:
  assumes "usable n" and "nm_receiver (n_nm n) = Some ChanOpen"
  shows "snd (node_Stop n) = Inr () \<and> nm_receiver (n_nm (fst (node_Stop n))) = Some ChanClosed
    \<and> (\<forall>u. nm_udpServ (n_nm (fst (node_Stop n))) = Some u \<longrightarrow> us_cancel u \<noteq> None)"
  using assms by (cases "nm_udpServ (n_nm n)")
    (auto simp: node_Stop_def nm_Shutdown_def udp_Stop_def Let_def usable_def life_def nm_life_def ex_bool_eq)

lemma stop_all_append: "stop_all (ps @ qs) c =
   (case stop_all ps c of (c, Inl e) \<Rightarrow> (c, Inl e) | (c, Inr _) \<Rightarrow> stop_all qs c)"
  by (induction ps arbitrary: c) (auto split: prod.splits sum.splits failure.splits)

lemma stop_all_doomed:
  assumes c: "client_ok c" and ps: "ps = as @ p # bs" "distinct ps" "set ps \<subseteq> set (cl_local c # cl_peers c)"
    and n: "nm_receiver (n_nm n) = Some ChanClosed" "\<forall>u. nm_udpServ (n_nm n) = Some u \<longrightarrow> us_cancel u \<noteq> None" "gnode n"
  shows "snd (stop_all ps (c\<lparr>cl_nodes := (cl_nodes c)[p := n]\<rparr>)) = Inl (Panic ClosedChannel)"
proof -
  let ?c = "c\<lparr>cl_nodes := (cl_nodes c)[p := n]\<rparr>"
  have p: "p < length (cl_nodes c)" "p \<notin> set as" using ps client_ok_node(1) [OF c, of p] by auto
  have "q < length (cl_nodes ?c) \<and> usable (cl_nodes ?c ! q)" if "q \<in> set as" for q
  proof -
    have "p \<noteq> q" and q: "q \<in> set (cl_local c # cl_peers c)" using that p(2) ps by auto
    then show ?thesis using client_ok_node [OF c q] by simp
  qed
  moreover have "\<forall>m\<in>set (cl_nodes ?c). gnode m"
    using c n(3) set_update_subset_insert [of "cl_nodes c" p n] by (auto simp: client_ok_def)
  ultimately obtain ns where "stop_all as ?c = (?c\<lparr>cl_nodes := ns\<rparr>, Inr ())"
    "\<forall>i. i \<notin> set as \<longrightarrow> ns ! i = cl_nodes ?c ! i"
    using stop_all_ok [of as ?c] ps(1,2) by auto
  moreover obtain m where "node_Stop n = (m, Inl (Panic ClosedChannel))"
    using Stop_closed(2) [OF n(1,2)] by (cases "node_Stop n") auto
  ultimately show ?thesis using p by (simp add: ps(1) stop_all_append on_node_def)
qed

text \<open>
  C37. What crashes the client. A peer number below zero as the first argument of \<open>join\<close> or \<open>ping\<close> (in fewer than eight
  characters) or \<open>killp\<close>, or as the only one of \<open>table\<close> or \<open>refresh\<close>: only the upper bound is tested. \<open>stats\<close>
  before the first \<open>spin\<close>: the bootstrap pointer is nil. And \<open>killp\<close> of one running peer if the next line leaves the client
  or kills all peers: the peer is still in the list and its channel is closed a second time.
\<close>

theorem client_crashes:
  assumes "client_ok c" and f: "fields line = cmd # args"
  shows "(args = a # others \<longrightarrow> Atoi a = Some i \<longrightarrow> i < 0
        \<longrightarrow> cmd \<in> {''join'', ''ping''} \<and> length a < 8 \<or> cmd = ''killp'' \<or> cmd \<in> {''table'', ''refresh''} \<and> others = []
        \<longrightarrow> snd (run_client ((line, ws) # buf) reads c) = Crash IndexOutOfRange)
    \<and> (cmd = ''stats'' \<longrightarrow> cl_bootstrap c = None \<longrightarrow> snd (run_client ((line, ws) # buf) reads c) = Crash NilDereference)
    \<and> (cmd = ''killp'' \<longrightarrow> args = [a] \<longrightarrow> Atoi a = Some (int j) \<longrightarrow> j < length (cl_peers c)
        \<longrightarrow> nm_receiver (n_nm (cl_nodes c ! (cl_peers c ! j))) = Some ChanOpen
        \<longrightarrow> quits nxt \<or> fields nxt = [''killp'']
        \<longrightarrow> snd (run_client ((line, ws) # (nxt, ws') # buf) reads c) = Crash ClosedChannel)"
proof (intro conjI impI)
  assume "args = a # others" "Atoi a = Some i" "i < 0"
    "cmd \<in> {''join'', ''ping''} \<and> length a < 8 \<or> cmd = ''killp'' \<or> cmd \<in> {''table'', ''refresh''} \<and> others = []"
  then show "snd (run_client ((line, ws) # buf) reads c) = Crash IndexOutOfRange"
    using f by (elim disjE conjE insertE emptyE)
      (simp_all add: commands_def cl_join_def cl_ping_def cl_table_def cl_refresh_def cl_killp_def
        peer_address_def peer_index_def)
next
  assume "cmd = ''stats''" "cl_bootstrap c = None"
  then show "snd (run_client ((line, ws) # buf) reads c) = Crash NilDereference"
    using f by (simp add: commands_def cl_netstat_def)
next
  assume k: "cmd = ''killp''" "args = [a]" "Atoi a = Some (int j)" and j: "j < length (cl_peers c)"
    and running: "nm_receiver (n_nm (cl_nodes c ! (cl_peers c ! j))) = Some ChanOpen"
    and leave: "quits nxt \<or> fields nxt = [''killp'']"
  define p where "p = cl_peers c ! j"
  have p: "p \<in> set (cl_peers c)" using j by (simp add: p_def)
  have u: "usable (cl_nodes c ! p)" using client_ok_node(2) [OF assms(1), of p] p by simp
  obtain n where n: "node_Stop (cl_nodes c ! p) = (n, Inr ())" "gnode n" by (rule Stop_usable [OF u])
  have closed: "nm_receiver (n_nm n) = Some ChanClosed" "\<forall>v. nm_udpServ (n_nm n) = Some v \<longrightarrow> us_cancel v \<noteq> None"
    using Stop_open [OF u running [folded p_def]] n(1) by simp_all
  let ?c = "c\<lparr>cl_nodes := (cl_nodes c)[p := n]\<rparr>"
  have "kill_some [a] c = (?c, Inr ())" using k(3) j n(1) by (simp add: on_node_def p_def)
  then have run: "run_client ((line, ws) # (nxt, ws') # buf) reads c = run_client ((nxt, ws') # buf) reads ?c"
    using f k(1,2) by (simp add: commands_def cl_killp_def unread_def)
  obtain as bs where as: "cl_peers c = as @ p # bs" using split_list [OF p] by blast
  have d: "distinct (cl_local c # cl_peers c)" using assms(1) by (simp add: client_ok_def)
  have doom: "snd (stop_all (cl_peers c) ?c) = Inl (Panic ClosedChannel)"
    "snd (stop_all (cl_local c # cl_peers c) ?c) = Inl (Panic ClosedChannel)"
    using stop_all_doomed [OF assms(1) as _ _ closed n(2)] d
      stop_all_doomed [OF assms(1) _ d order_refl closed n(2), where as = "cl_local c # as" and bs = bs] as by auto
  obtain c1 c2 where doom: "stop_all (cl_peers c) ?c = (c1, Inl (Panic ClosedChannel))"
    "stop_all (cl_local c # cl_peers c) ?c = (c2, Inl (Panic ClosedChannel))"
    using doom by (metis surjective_pairing)
  from leave show "snd (run_client ((line, ws) # (nxt, ws') # buf) reads c) = Crash ClosedChannel"
  proof
    assume "quits nxt"
    then obtain cmd' others where "fields nxt = cmd' # others" "cmd' = ''exit'' \<or> cmd' = ''quit''"
      by (auto simp: quits_def split: list.splits)
    then show ?thesis using doom(2) unfolding run by (auto simp: commands_def cl_shutdown_def simp del: stop_all.simps)
  next
    assume "fields nxt = [''killp'']"
    then show ?thesis using doom(1) unfolding run by (simp add: commands_def cl_killp_def)
  qed
qed

theorem client_crashes_witness:
  "(\<exists>c. NewClient demo_world (\<lambda>_. []) demo_logs = Inr c
      \<and> snd (run_client [(''stats'', \<lambda>_. demo_world)] [] c) = Crash NilDereference
      \<and> snd (run_client [(''ping -7 x'', \<lambda>_. demo_world)] [] c) = Crash IndexOutOfRange)
   \<and> (\<exists>c. cl_peers c = [1]
      \<and> snd (run_client [(''killp 0'', \<lambda>_. demo_world), (''quit'', \<lambda>_. demo_world)] [] c) = Crash ClosedChannel)"
proof -
  let ?w = "\<lambda>_ :: nat. demo_world"
  obtain c where c: "NewClient demo_world (\<lambda>_. []) demo_logs = Inr c" "client_ok c" "cl_bootstrap c = None" by (rule demo_client)
  obtain nm where nm: "node_ok (demo_node nm)" by (rule demo_node_ok)
  define n where "n = (demo_node nm)\<lparr>n_nm := nm\<lparr>nm_receiver := Some ChanOpen, nm_udpServ := None\<rparr>\<rparr>"
  define c2 where "c2 = \<lparr>cl_nodes = [n, n], cl_local = 0, cl_bootstrap = Some 1, cl_peers = [1], cl_env = \<lambda>_. [],
    cl_logs = demo_logs, cl_out = []\<rparr>"
  have "usable n" using nm by (simp add: n_def usable_def gnode_def node_ok_def mgr_ok_life demo_node_def life_def nm_life_def
      demo_config_def default_config_def)
  then have c2: "client_ok c2" "cl_peers c2 = [1]" "nm_receiver (n_nm (cl_nodes c2 ! 1)) = Some ChanOpen"
    by (simp_all add: c2_def client_ok_def usable_def n_def demo_logs_ok)
  have f: "fields ''ping -7 x'' = [''ping'', ''-7'', ''x'']" "Atoi ''-7'' = Some (-7)" "fields ''stats'' = [''stats'']"
    "fields ''killp 0'' = [''killp'', ''0'']" "Atoi ''0'' = Some (int 0)" "quits ''quit''" by code_simp+
  have "snd (run_client [(''stats'', ?w)] [] c) = Crash NilDereference"
    using client_crashes [OF c(2) f(3), where ws = ?w and buf = "[]" and reads = "[]"] c(3) by simp
  moreover have "snd (run_client [(''ping -7 x'', ?w)] [] c) = Crash IndexOutOfRange"
    using client_crashes [OF c(2) f(1), where ws = ?w and buf = "[]" and reads = "[]" and a = "''-7''" and others = "[''x'']" and i = "-7"] f(2)
    by simp
  moreover have "snd (run_client [(''killp 0'', ?w), (''quit'', ?w)] [] c2) = Crash ClosedChannel"
    using client_crashes [OF c2(1) f(4), where ws = ?w and buf = "[]" and reads = "[]" and a = "''0''" and j = 0 and nxt = "''quit''" and ws' = ?w]
      f(5,6) c2 by simp
  ultimately show ?thesis using c(1) c2(2) by blast
qed

end
