(* ===== verification/Logger.thy ===== *)
theory Logger
  imports Printing
begin

text \<open>
  The logging plugin, \<open>plugins/logger/base.go\<close>: levels, entries, and what \<open>Log_dps\<close> prints for the call stack it finds. The
  stack is an argument, innermost frame first, with \<open>Log_dps\<close> itself at number 0; the clock and the formatting of times
  are arguments too. A result is paired with the text printed.
\<close>

section \<open>Levels\<close>

definition TRACE_DEPTH :: int where "TRACE_DEPTH = 10"
definition PATH :: bool where "PATH = False"

text \<open>\<open>LogLevel\<close> is an integer; its \<open>String\<close> indexes an array of five names.\<close>

type_synonym log_level = int

definition DEBUG :: log_level where "DEBUG = 0"
definition INFO :: log_level where "INFO = 1"
definition WARN :: log_level where "WARN = 2"
definition ERROR :: log_level where "ERROR = 3"
definition FATAL :: log_level where "FATAL = 4"

definition level_String :: "log_level \<Rightarrow> ('e, string) go" where
  "level_String l =
     (let names = [''DEBUG'', ''INFO'', ''WARN'', ''ERROR'', ''FATAL''] in
      if l < 0 \<or> int (length names) \<le> l then Inl (Panic IndexOutOfRange) else Inr (names ! nat l))"

text \<open>The verb \<open>%s\<close> calls \<open>String\<close> and prints a panic in its place.\<close>

definition level_text :: "log_level \<Rightarrow> string" where
  "level_text l =
     (case level_String l :: (unit, string) go of
        Inr s \<Rightarrow> s
      | Inl _ \<Rightarrow> ''%!s(PANIC=String method: runtime error: index out of range ['' @ Itoa l @ '']'' @
          (if l < 0 then '''' else '' with length 5'') @ '')'')"

section \<open>Entries\<close>

record frame =
  fr_File :: string
  fr_Line :: nat
  fr_Function :: string

record 't logger_entry =
  le_Timestamp :: 't
  le_Level :: log_level
  le_Message :: string
  le_File :: string
  le_Function :: string
  le_Line :: nat
  le_Trace :: "string list"
  le_Path :: string

text \<open>\<open>filepath.Base\<close> in full.\<close>

definition Base :: "string \<Rightarrow> string" where
  "Base p = (if p = '''' then ''.'' else let q = strip_slashes p in if q = '''' then ''/'' else path_base q)"

text \<open>\<open>runtime.Caller\<close> answers zero values past the end of the stack, and the function of a zero counter has no name.\<close>

definition Caller :: "frame list \<Rightarrow> nat \<Rightarrow> frame \<times> bool" where
  "Caller stack i =
     (if i < length stack then (stack ! i, True) else (\<lparr>fr_File = '''', fr_Line = 0, fr_Function = ''''\<rparr>, False))"

definition trace_entry :: "frame \<Rightarrow> string" where
  "trace_entry f = fr_File f @ '':'' @ nat_digits (fr_Line f) @ '' '' @ Base (fr_Function f)"

function trace_loop :: "frame list \<Rightarrow> nat \<Rightarrow> string list \<Rightarrow> string list" where
  "trace_loop stack i trace =
     (if int i \<le> TRACE_DEPTH
      then (case Caller stack i of
              (f, False) \<Rightarrow> trace
            | (f, True) \<Rightarrow> trace_loop stack (i + 1) (trace @ [trace_entry f]))
      else trace)"
  by pat_completeness auto

termination by (relation "measure (\<lambda>(_, i, _). nat (TRACE_DEPTH + 1) - i)") (auto simp: TRACE_DEPTH_def)

declare trace_loop.simps [simp del]

text \<open>The lines of the stack trace; a warning stops after the fifth.\<close>

fun print_trace :: "log_level \<Rightarrow> nat \<Rightarrow> string list \<Rightarrow> string" where
  "print_trace level i [] = ''''"
| "print_trace level i (t # ts) =
     nat_digits i @ '': '' @ t @ [nl] @ (if level = WARN \<and> i = 4 then '''' else print_trace level (i + 1) ts)"

definition Log_dps :: "('t \<Rightarrow> string) \<Rightarrow> 't \<Rightarrow> frame list \<Rightarrow> log_level \<Rightarrow> string \<Rightarrow> 't logger_entry \<times> string" where
  "Log_dps format now stack level message =
     (let f = fst (Caller stack 2);
          entry = \<lparr>le_Timestamp = now, le_Level = level, le_Message = message, le_File = Base (fr_File f),
                   le_Function = Base (fr_Function f), le_Line = fr_Line f, le_Trace = trace_loop stack 2 [],
                   le_Path = fr_File f\<rparr>
      in (entry,
          (if PATH then [nl] @ ''[PATH] '' @ le_Path entry @ '':'' @ nat_digits (le_Line entry) else '''') @
          [nl] @ ''['' @ level_text (le_Level entry) @ ''] '' @ format (le_Timestamp entry) @ '' - '' @ le_File entry @
          '':'' @ nat_digits (le_Line entry) @ '' - '' @ le_Message entry @ [nl] @
          (if WARN \<le> level then ''Stack trace:'' @ [nl] @ print_trace level 0 (le_Trace entry) else '''')))"

definition Debug :: "('t \<Rightarrow> string) \<Rightarrow> 't \<Rightarrow> frame list \<Rightarrow> string \<Rightarrow> 't logger_entry \<times> string" where
  "Debug format now stack message = Log_dps format now stack DEBUG message"

definition Info :: "('t \<Rightarrow> string) \<Rightarrow> 't \<Rightarrow> frame list \<Rightarrow> string \<Rightarrow> 't logger_entry \<times> string" where
  "Info format now stack message = Log_dps format now stack INFO message"

definition Warn :: "('t \<Rightarrow> string) \<Rightarrow> 't \<Rightarrow> frame list \<Rightarrow> string \<Rightarrow> 't logger_entry \<times> string" where
  "Warn format now stack message = Log_dps format now stack WARN message"

definition Error :: "('t \<Rightarrow> string) \<Rightarrow> 't \<Rightarrow> frame list \<Rightarrow> string \<Rightarrow> 't logger_entry \<times> string" where
  "Error format now stack message = Log_dps format now stack ERROR message"

definition Fatal :: "('t \<Rightarrow> string) \<Rightarrow> 't \<Rightarrow> frame list \<Rightarrow> string \<Rightarrow> 't logger_entry \<times> string" where
  "Fatal format now stack message = (let entry = Log_dps format now stack FATAL message in entry)"

section \<open>What is recorded and printed\<close>

text \<open>The loop collects the frames from number 2 to number 10, as far as the stack goes.\<close>

lemma trace_loop_frames:
  "i \<le> 11 \<Longrightarrow> trace_loop stack i trace = trace @ map trace_entry (take (11 - i) (drop i stack))"
proof (induction stack i trace rule: trace_loop.induct)
  case (1 stack i trace)
  consider "i = 11" | "i \<le> 10" "i < length stack" | "i \<le> 10" "length stack \<le> i" using 1(2) by linarith
  then show ?case
  proof cases
    case 1 then show ?thesis by (simp add: trace_loop.simps TRACE_DEPTH_def)
  next
    case 2
    have "trace_loop stack (i + 1) (trace @ [trace_entry (stack ! i)]) =
        (trace @ [trace_entry (stack ! i)]) @ map trace_entry (take (11 - (i + 1)) (drop (i + 1) stack))"
      using 1(1) 2 by (simp add: TRACE_DEPTH_def Caller_def)
    moreover have "take (11 - i) (drop i stack) = stack ! i # take (11 - (i + 1)) (drop (i + 1) stack)"
      using 2 by (simp add: Cons_nth_drop_Suc [symmetric] Suc_diff_le take_Cons' flip: Suc_diff_le)
    ultimately show ?thesis using 2 by (subst trace_loop.simps) (simp add: TRACE_DEPTH_def Caller_def)
  next
    case 3 then show ?thesis by (subst trace_loop.simps) (simp add: TRACE_DEPTH_def Caller_def)
  qed
qed

lemma Log_dps_trace:
  "le_Trace (fst (Log_dps format now stack level message)) = map trace_entry (take 9 (drop 2 stack))"
  by (simp add: Log_dps_def Let_def trace_loop_frames)

text \<open>A warning prints the first five entries of the trace, a higher level all of them.\<close>

lemma print_trace_lines:
  "print_trace level i ts = concat (map (\<lambda>(j, t). nat_digits j @ '': '' @ t @ [nl])
     (enumerate i (if level = WARN \<and> i \<le> 4 then take (5 - i) ts else ts)))"
proof (induction level i ts rule: print_trace.induct)
  case (2 level i t ts)
  have "take (5 - i) (t # ts) = t # take (5 - Suc i) ts" if "i \<le> 4" using that by (simp add: take_Cons')
  then show ?case using 2 by (cases "level = WARN \<and> i = 4") auto
qed simp

lemma print_trace_warn:
  "print_trace WARN 0 ts = concat (map (\<lambda>(j, t). nat_digits j @ '': '' @ t @ [nl]) (enumerate 0 (take 5 ts)))"
  "level \<noteq> WARN \<Longrightarrow> print_trace level 0 ts = concat (map (\<lambda>(j, t). nat_digits j @ '': '' @ t @ [nl]) (enumerate 0 ts))"
  by (simp_all add: print_trace_lines)

text \<open>The name of a level is defined for the five constants only; printing never panics.\<close>

lemma level_String_levels:
  "(\<exists>s. level_String l = (Inr s :: ('e, string) go)) \<longleftrightarrow> l \<in> {DEBUG, INFO, WARN, ERROR, FATAL}"
  by (auto simp: level_String_def Let_def DEBUG_def INFO_def WARN_def ERROR_def FATAL_def)

end
