(* ===== verification/Spec2Isabelle.thy ===== *)
theory Spec2Isabelle
  imports Cluster Serving StoreCmd TestClient Logger
begin

text \<open>
  A verification library for dps_net, a Kademlia-style peer-to-peer node with a chunked file store, written in Go.

  \<^bold>\<open>The program.\<close> A node (\<open>node/node.go\<close>) owns a contact, a configuration (\<open>config/config.go\<close>), a local storage
  (\<open>storage/storage.go\<close>) and a network manager (\<open>network/manager.go\<close>). The manager owns the routing table
  (\<open>network/routing\<close>), the UDP server (\<open>network/transport\<close>), which pushes decoded datagrams to it as packets, and the
  registry of services guarded by locks of 64 bytes; \<open>network/dispatch.go\<close> runs the handler of a packet and
  \<open>network/invoke.go\<close> makes calls to other nodes, on which the iterative \<open>Lookup\<close> and the operations of
  the node are built. Apart from the node stands the key store (\<open>storage/key_store\<close>, with a command of its own), which cuts
  files into chunks on disk; \<open>storage/store\<close> is the copy of it with other locking that the storage service uses. Two
  commands, \<open>cmd/test_client\<close> and \<open>cmd/insert_n_routing\<close>, drive nodes and tables from a terminal.

  \<^bold>\<open>Conventions.\<close> A Go call that can fail is a sum: \<open>Inr\<close> the value, \<open>Inl (Err e)\<close> an error value, \<open>Inl (Panic p)\<close> a run-time
  panic, \<open>Inl Blocked\<close> a call that never returns (\<^theory_text>\<open>Prelude\<close>). State is passed and returned explicitly,
  also by failing calls. Structs are records with the field names of the source behind a prefix, pointers that can be
  nil are options, byte arrays are lists of \<open>8 word\<close> with their length as a predicate, counters are \<open>64 word\<close>,
  Go's \<open>int\<close> is \<open>int\<close> where the code stays far from its bounds. Maps are functions to options, or association
  lists where the order of iteration or the file system shows. \<open>sort.Slice\<close>, which is not stable, promises a
  sorted permutation, the locale \<open>slice_sorter\<close>. The lookup, whose shortlists can hold contacts at the same distance, takes it as
  an argument; where no two elements compare equal (buckets, \<open>ClosestK\<close>, file names) it is an insertion sort, and the lemmas use
  only the contract.

  \<^bold>\<open>Theories\<close>, in the order of the imports:

  \<^item> \<open>Prelude\<close>: panics and results, slices, sorting behind the locale \<open>slice_sorter\<close>, the collection \<open>shortlist_rules\<close>.
  \<^item> \<open>Keyspace\<close>, \<open>KeyBits\<close>: \<open>api/kdht_utils.go\<close>. Identifiers and conversions; the XOR metric as a number; prefix lengths, single bits,
    random identifiers of a bucket.
  \<^item> \<open>Contact\<close>: \<open>api/rpc_ext.go\<close>, the contact message and its getters, \<open>node/contact.go\<close>.
  \<^item> \<open>KBucket\<close>, \<open>RoutingTable\<close>: \<open>network/routing/buckets.go\<close> and \<open>routing_table.go\<close>. The invariant of the table (bucket \<open>i\<close> holds
    peers sharing exactly \<open>i\<close> leading bits, the last bucket all deeper ones, no peer twice, at most \<open>k\<close> each)
    is kept by every operation; what \<open>Update\<close> keeps, that \<open>Remove\<close> is exact, that \<open>ClosestK\<close> is closest.
  \<^item> \<open>RouterService\<close>: \<open>network/routing/kademlia.go\<close>, the six RPC methods.
  \<^item> \<open>Config\<close>: \<open>config/config.go\<close> and \<open>api/net_utils.go\<close>; \<open>Transport\<close>: \<open>network/transport\<close>.
  \<^item> \<open>Manager\<close>: the manager but for its lookup, and the dispatch. The locale \<open>guarded_handlers\<close> states what dispatching needs
    of a registered service; it is interpreted on the routing service.
  \<^item> \<open>Invoke\<close>, \<open>Lookup\<close>: calls, and the iterative lookup, a loop without a termination proof of its own. Answers that miss the time
    limit of their round can arrive in a later one. It ends on every network, with every sorter, because each round asks an
    address that was not asked before and the answers, decoded from datagrams, name finitely many; its outcome is compared with the
    sorted list of all contacts learnt.
  \<^item> \<open>Node\<close>: construction, start, join, put, get, refresh.
  \<^item> \<open>Network\<close>: managers connected to each other: the datagram of a call is what the receive loop of the peer meets, and its
    reply is what the caller reads. The properties of this theory are about such networks.
  \<^item> \<open>Cluster\<close>: nodes at their addresses as a transition system, and the invariant of its reachable states: traffic among nodes
    with whole identifiers keeps every node serving, and its answers are what maintenance needs.
  \<^item> \<open>Serving\<close>: the receive loop and the goroutines of \<open>serve\<close> as a process whose steps interleave: what its reachable states
    keep, and the two ways in which the process can die.
  \<^item> \<open>TableText\<close>: printed tables, the remaining accessors, \<open>cmd/insert_n_routing\<close>.
  \<^item> \<open>Logs\<close>, \<open>TestClient\<close>: \<open>cmd/test_client\<close>. The log files and their menu; nodes as objects on a heap shared by the commands, and
    the loop that reads the input, parts of which the menu takes.
  \<^item> \<open>Logger\<close>: \<open>plugins/logger\<close>.
  \<^item> \<open>Disk\<close>: the file system. Every system call consumes one entry of a script of faults: it works, fails with or without
    effect, or reports success and does something else.
  \<^item> \<open>Chunking\<close>, \<open>KeyStore\<close>: \<open>storage/key_store\<close>: chunk sizes and keys; writing, reading, storing and reassembling.
  \<^item> \<open>ChunkStore\<close>, \<open>StoreFile\<close>, \<open>StoreRefine\<close>: lemmas on these. On every disk: which files an operation can touch, that the
    registry stays consistent, that what a read returns has the recorded length and hash. On a working disk: the locale
    \<open>chunk_store\<close> (reading after writing), interpreted on both ways of storing, when exactly a file reads back, and the
    refinement of the store to a map from hashes to contents.
  \<^item> \<open>Bootstrap\<close>, \<open>Housekeeping\<close>: start-up from the metadata files, search for orphans, cleanup.
  \<^item> \<open>ServiceStore\<close>, \<open>LocalStorage\<close>: \<open>storage/store\<close> with its non-reentrant lock (the locale \<open>guarded_op\<close>: a locked operation on a
    free lock does what its namesake in \<open>storage/key_store\<close> does) and \<open>storage/storage.go\<close>.
  \<^item> \<open>Printing\<close>: both \<open>string.go\<close> and the size formatting; \<open>StoreCmd\<close>: \<open>storage/key_store/cmd\<close>.

  \<^bold>\<open>Arguments of the model.\<close> Code that is not in the repository is an argument: the protobuf codec (the records \<open>codec\<close> and
  \<open>router_codec\<close>, \<open>None\<close> for its errors; \<open>codec_laws\<close> is what protobuf documents: what was encoded is
  decoded), the TOML codec and the hash functions (the record of \<open>Chunking\<close>), the compressor, the network, the clock, random
  sources, the environment. Concurrency appears as order. In \<open>Serving\<close> the goroutines take their steps in any order, and the
  assignments to the two maps without a lock have a beginning and an end, so that two of them can meet; everywhere else a packet
  is served to its end, which is one of these orders. Which answers of a lookup arrive in which round, and in which order, is an
  argument, as is the order in which the pings of \<open>Join\<close> complete; locks are states that make a second acquisition block.

  \<^bold>\<open>Termination and bounds.\<close> No function has fuel. \<open>Update\<close> retries after a split and ends because a table has at most 160
  buckets; the lookup is an option-valued partial function, \<open>None\<close> for a loop that does not end, which the properties exclude; the
  client's loop is measured by the reads left; the trace of the logger and the unit loop of
  \<open>formatBytes\<close> (at most five rounds) are structural or have a measure. Chunk sizes round a base-2 logarithm that Go
  computes in floating point; \<open>round_log2\<close> takes its exact value, from which the floating-point result differs only for
  sizes whose logarithm is within rounding error of a half, and there by one power of two, within the proved bounds.

  \<^bold>\<open>Not modelled.\<close> \<open>api/interfaces.go\<close> declares interfaces without code. The generated stubs are output of protoc; the messages in
  use are records of the components. Of the data races the one on the maps of the manager is modelled; an answer that misses its
  round in a lookup is appended at the end of a later round, not while the shortlist is being sorted. Clock time, the scheduler, and memory that runs out (a recorded size for which \<open>make\<close> panics) are not
  modelled; printed progress of the key store and
  the text of error messages are left out; the tools written in Rust and the tests are not part of the program.
\<close>

section \<open>Properties of nodes on a network\<close>

text \<open>
  C12. A ping between two nodes over a network that delivers both datagrams. If the peer trusts one lock for the
  service name the caller uses and for the one it registers, the ping succeeds and both learn of each
  other: each records the other under its user name and enters it into its table. Otherwise the peer
  counts an error and stays silent, and the ping fails at its deadline without changing the caller.
\<close>

theorem ping_between_nodes:
  assumes laws: "codec_laws cd" and n: "nm_inv (n_nm n)" "nm_info (n_nm n) = Some (n_Contact n)"
    and b: "nm_inv nm" "nm_info nm = Some b" "nm_registry nm = [lookup_lock nm routing_service \<mapsto> routing_registry cd]"
    and host: "hosts addr = Some nm" and req: "req = ReqPing \<lparr>ping_From = Some (n_Contact n), ping_Value = []\<rparr>"
    and d: "request_datagram cd kademlia_service (n_Contact n) req d"
    and out: "reply_datagram cd kademlia_service b req (RepAck \<lparr>ack_From = Some b, ack_Value = []\<rparr>) out"
  shows "if lookup_lock nm kademlia_service = lookup_lock nm routing_service
    then \<exists>n' nm' rt1. node_Ping cd (lan cd src hosts) n addr = (n', Inr ())
      \<and> answer cd src d nm = (nm', Received out) \<and> nm_inv (n_nm n') \<and> nm_inv nm'
      \<and> nm_peers (n_nm n') = (nm_peers (n_nm n))(c_Username b \<mapsto> Some b)
      \<and> nm_peers nm' = (nm_peers nm)(c_Username (n_Contact n) \<mapsto> Some (n_Contact n))
      \<and> rt_Update (nm_router (n_nm n)) (Some b) = (nm_router (n_nm n'), Inr ())
      \<and> rt_Update (nm_router nm) (Some (n_Contact n)) = (rt1, Inr ())
      \<and> rt_Update rt1 (Some (n_Contact n)) = (nm_router nm', Inr ())
    else node_Ping cd (lan cd src hosts) n addr = (n, Inl (Err (PingFailed addr (ReadFrom addr))))
      \<and> answer cd src d nm = (count_error nm, ReadFailed)"
proof (cases "lookup_lock nm kademlia_service = lookup_lock nm routing_service")
  case True
  then have reg: "nm_registry nm (lookup_lock nm kademlia_service) = Some (routing_registry cd)" using b(3) by simp
  have local: "rt_inv (nm_router nm)" "rt_local (nm_router nm) = Some b"
    using b by (simp_all add: nm_inv_def table_ok_def)
  obtain rt1 where rt1: "rt_Update (nm_router nm) (Some (n_Contact n)) = (rt1, Inr ())" "rt_local rt1 = Some b"
    using rt_Update_ok [OF local(1)] local(2) by metis
  then have serve: "serve_request (nm_router nm) req = (rt1, Inr (RepAck \<lparr>ack_From = Some b, ack_Value = []\<rparr>))"
    by (simp add: req rs_Ping_def noting_ok)
  obtain nm' where nm': "answer cd src d nm = (nm', Received out)" "nm_inv nm'"
    "nm_peers nm' = (nm_peers nm)(c_Username (n_Contact n) \<mapsto> Some (n_Contact n))"
    "rt_Update rt1 (Some (n_Contact n)) = (nm_router nm', Inr ())"
    using call_served [OF laws b(1,2) reg d serve out] by metis
  have ex: "exchange_rpc cd (lan cd src hosts) (Some (n_Contact n)) addr kademlia_service ''Ping'' (SendRouter req) WantAck
      = Inr (GotAck \<lparr>ack_From = Some b, ack_Value = []\<rparr>)"
    using call_returns [where hosts = hosts and addr = addr and
        resp = "GotAck \<lparr>ack_From = Some b, ack_Value = []\<rparr>", OF laws host d nm'(1) out]
    by (simp add: decoded_reply_def holder_for_def req)
  obtain m where m: "note_peer (n_nm n) (c_Username b) (Some b) = (m, Inr ())" "nm_inv m"
    "nm_peers m = (nm_peers (n_nm n))(c_Username b \<mapsto> Some b)"
    "rt_Update (nm_router (n_nm n)) (Some b) = (nm_router m, Inr ())"
    using note_peer_ok [OF n(1)] by metis
  have "node_Ping cd (lan cd src hosts) n addr = (n\<lparr>n_nm := m\<rparr>, Inr ())"
    using ex m(1) n(2) by (simp add: node_Ping_def InvokeRPC_def handle_response_def req)
  then show ?thesis using True m nm' rt1(1) by auto
next
  case False
  then have none: "nm_registry nm (lookup_lock nm kademlia_service) = None" using b(3) by simp
  from call_unserved [where hosts = hosts and addr = addr and h = WantAck, OF laws b(2) none host d] False n(2)
  show ?thesis by (simp add: node_Ping_def InvokeRPC_def req)
qed

theorem ping_between_nodes_witness:
  "(\<exists>(n :: unit node) n' nm. node_Ping (lan_codec zero_id []) (lan (lan_codec zero_id []) ''a'' [''b'' \<mapsto> nm]) n ''b'' = (n', Inr ())
      \<and> nm_peers (n_nm n') (c_Username peer_b) = Some (Some peer_b))
   \<and> (\<exists>(n :: unit node) nm. node_Ping (lan_codec zero_id []) (lan (lan_codec zero_id []) ''a'' [''b'' \<mapsto> nm]) n ''b''
        = (n, Inl (Err (PingFailed ''b'' (ReadFrom ''b'')))))"
proof -
  let ?cd = "lan_codec zero_id []"
  obtain m where m: "nm_inv m" "nm_info m = Some peer_a"
    by (rule lan_manager [of "[routing_service]" ?cd 0]) (auto simp: peers_ab)
  define n :: "unit node" where "n = \<lparr>n_ID = zero_id, n_Contact = peer_a, n_cfg = lan_config one_lock [routing_service],
    n_nm = m, n_storage = None, n_cancelled = False\<rparr>"
  have n: "nm_inv (n_nm n)" "nm_info (n_nm n) = Some (n_Contact n)" "n_Contact n = peer_a"
    using m by (simp_all add: n_def)
  have ping: "demo_ping = ReqPing \<lparr>ping_From = Some (n_Contact n), ping_Value = []\<rparr>" by (simp add: demo_ping_def n(3))
  have run: "if lookup_lock nm kademlia_service = lookup_lock nm routing_service
      then \<exists>n'. node_Ping ?cd (lan ?cd ''a'' [''b'' \<mapsto> nm]) n ''b'' = (n', Inr ())
        \<and> nm_peers (n_nm n') (c_Username peer_b) = Some (Some peer_b)
      else node_Ping ?cd (lan ?cd ''a'' [''b'' \<mapsto> nm]) n ''b'' = (n, Inl (Err (PingFailed ''b'' (ReadFrom ''b''))))"
    if b: "nm_inv nm" "nm_info nm = Some peer_b" "nm_registry nm = [lookup_lock nm routing_service \<mapsto> routing_registry ?cd]" for nm
    using ping_between_nodes [where hosts = "[''b'' \<mapsto> nm]" and addr = "''b''" and src = "''a''",
        OF lan_codec_laws n(1,2) b _ ping lan_codec_datagrams(1) [folded n(3)] lan_codec_datagrams(2)]
    by (auto split: if_splits)
  have ne: "routing_service \<noteq> kademlia_service" "replicate 64 (0x11 :: byte) \<noteq> zero_lock"
    by (simp_all add: routing_service_def kademlia_service_def zero_lock_def)
  obtain b1 where "nm_inv b1" "nm_info b1 = Some peer_b" "nm_registry b1 = [lookup_lock b1 routing_service \<mapsto> routing_registry ?cd]"
    "lookup_lock b1 kademlia_service = lookup_lock b1 routing_service"
    by (rule lan_manager [of "[routing_service, kademlia_service]" ?cd 7]) (use ne in \<open>auto simp: peers_ab\<close>)
  moreover obtain b2 where "nm_inv b2" "nm_info b2 = Some peer_b" "nm_registry b2 = [lookup_lock b2 routing_service \<mapsto> routing_registry ?cd]"
    "lookup_lock b2 kademlia_service \<noteq> lookup_lock b2 routing_service"
    by (rule lan_manager [of "[routing_service]" ?cd 7]) (use ne in \<open>auto simp: peers_ab\<close>)
  ultimately show ?thesis using run [of b1] run [of b2] by auto
qed

text \<open>
  C13. A \<open>FindNode\<close> call as the lookup makes it: the peer notes the caller and answers the \<open>k\<close> contacts of its table
  closest to the target, in increasing order of distance and without itself, and the caller gets
  exactly these; the call does not change the caller.
\<close>

theorem find_node_between_nodes:
  assumes laws: "codec_laws cd" and m: "nm_info m = Some a"
    and b: "nm_serving cd nm" "nm_info nm = Some b" and host: "hosts addr = Some nm"
    and req: "req = ReqFindNode \<lparr>fn_From = Some a, fn_TargetId = t\<rparr>"
    and rt1: "rt_Update (nm_router nm) (Some a) = (rt1, Inr ())" and ns: "ClosestK rt1 (SliceToNodeID t) = Inr ns"
    and d: "request_datagram cd routing_service a req d"
    and out: "reply_datagram cd routing_service b req (RepNodes \<lparr>nodes_From = Some b, nodes_Nodes = ns\<rparr>) out"
  shows "InvokeRPC cd (lan cd src hosts) m addr routing_service ''FindNode'' (SendRouter req) WantNodes
      = (m, Inr (GotNodes \<lparr>nodes_From = Some b, nodes_Nodes = ns\<rparr>))
    \<and> (\<exists>nm'. answer cd src d nm = (nm', Received out) \<and> nm_serving cd nm')
    \<and> length ns \<le> rt_k rt1 \<and> set ns \<subseteq> {c \<in> table_peers rt1. nid c \<noteq> nid (Some b)}
    \<and> distinct (map nid ns) \<and> sorted (map (dist (SliceToNodeID t)) ns)
    \<and> (\<forall>y \<in> table_peers rt1. nid y \<noteq> nid (Some b) \<longrightarrow> nid y \<notin> nid ` set ns \<longrightarrow>
         length ns = rt_k rt1 \<and> (\<forall>x \<in> set ns. dist (SliceToNodeID t) x \<le> dist (SliceToNodeID t) y))"
proof -
  have inv: "nm_inv nm" and reg: "nm_registry nm (lookup_lock nm routing_service) = Some (routing_registry cd)"
    using b(1) by (simp_all add: nm_serving_def)
  have local: "rt_inv (nm_router nm)" "rt_local (nm_router nm) = Some b"
    using inv b(2) by (simp_all add: nm_inv_def table_ok_def)
  then have local1: "rt_local rt1 = Some b" "localID rt1 = nid (Some b)"
    using rt_Update_ok [OF local(1), of "Some a"] rt1 by (metis Pair_inject, metis Pair_inject localID_nid)
  have serve: "serve_request (nm_router nm) req = (rt1, Inr (RepNodes \<lparr>nodes_From = Some b, nodes_Nodes = ns\<rparr>))"
    using rt1 ns local1(1) by (simp add: req rs_FindNode_def noting_ok)
  obtain nm' where nm': "answer cd src d nm = (nm', Received out)" "nm_inv nm'" "nm_registry nm' = nm_registry nm"
    "nm_appLocks nm' = nm_appLocks nm"
    using call_served [OF laws inv b(2) reg d serve out] by metis
  then have serving: "nm_serving cd nm'" using reg lookup_lock_frame [OF nm'(4)] by (simp add: nm_serving_def)
  have "exchange_rpc cd (lan cd src hosts) (Some a) addr routing_service ''FindNode'' (SendRouter req) WantNodes
      = Inr (GotNodes \<lparr>nodes_From = Some b, nodes_Nodes = ns\<rparr>)"
    using call_returns [where hosts = hosts and addr = addr and
        resp = "GotNodes \<lparr>nodes_From = Some b, nodes_Nodes = ns\<rparr>", OF laws host d nm'(1) out]
    by (simp add: decoded_reply_def holder_for_def req)
  then have call: "InvokeRPC cd (lan cd src hosts) m addr routing_service ''FindNode'' (SendRouter req) WantNodes
      = (m, Inr (GotNodes \<lparr>nodes_From = Some b, nodes_Nodes = ns\<rparr>))"
    using m by (simp add: InvokeRPC_def handle_response_def routing_service_def kademlia_service_def)
  obtain res where "ClosestK rt1 (SliceToNodeID t) = Inr res" "length res \<le> rt_k rt1" "set res \<subseteq> table_peers rt1"
    "distinct (map nid res)" "sorted (map (dist (SliceToNodeID t)) res)" "\<And>c. c \<in> set res \<Longrightarrow> nid c \<noteq> localID rt1"
    "\<And>x y. y \<in> table_peers rt1 \<Longrightarrow> nid y \<noteq> localID rt1 \<Longrightarrow> nid y \<notin> nid ` set res
       \<Longrightarrow> length res = rt_k rt1 \<and> (x \<in> set res \<longrightarrow> dist (SliceToNodeID t) x \<le> dist (SliceToNodeID t) y)"
    using ClosestK_correct by blast
  then show ?thesis using ns local1(2) call nm'(1) serving by auto
qed

theorem find_node_between_nodes_witness:
  "\<exists>m nm ns (cd :: router_codec). nm_info nm = Some peer_b
     \<and> InvokeRPC cd (lan cd ''a'' [''b'' \<mapsto> nm]) m ''b'' routing_service ''FindNode'' (SendRouter (demo_find zero_id)) WantNodes
         = (m, Inr (GotNodes \<lparr>nodes_From = Some peer_b, nodes_Nodes = ns\<rparr>))
     \<and> sorted (map (dist (SliceToNodeID zero_id)) ns)"
proof -
  let ?cfg = "lan_config one_lock [routing_service]"
  obtain rt where rt: "NewRoutingTable (low_peer 7) (cf_K ?cfg) (cf_Alpha ?cfg) = Inr rt" "rt_inv rt"
    by (rule NewRoutingTable_inv [of "cf_K ?cfg" "low_peer 7" "cf_Alpha ?cfg"]) (simp_all add: lan_config_def default_config_def)
  obtain rt1 where rt1: "rt_Update rt (Some peer_a) = (rt1, Inr ())" using rt_Update_ok [OF rt(2)] by metis
  obtain ns where ns: "ClosestK rt1 (SliceToNodeID zero_id) = Inr ns" using ClosestK_Inr by blast
  let ?cd = "lan_codec zero_id ns"
  obtain m where m: "nm_inv m" "nm_info m = Some peer_a"
    by (rule lan_manager [of "[routing_service]" ?cd 0]) (auto simp: peers_ab)
  obtain nm where nm: "nm_serving ?cd nm" "nm_info nm = Some peer_b" "nm_router nm = rt"
    by (rule lan_manager [of "[routing_service]" ?cd 7]) (use rt(1) in \<open>auto simp: peers_ab\<close>)
  have req: "demo_find zero_id = ReqFindNode \<lparr>fn_From = Some peer_a, fn_TargetId = zero_id\<rparr>" by (simp add: demo_find_def)
  note run = find_node_between_nodes [where hosts = "[''b'' \<mapsto> nm]" and addr = "''b''" and src = "''a''",
      OF lan_codec_laws m(2) nm(1,2) _ req rt1 [folded nm(3)] ns lan_codec_datagrams(3,4)]
  have "InvokeRPC ?cd (lan ?cd ''a'' [''b'' \<mapsto> nm]) m ''b'' routing_service ''FindNode'' (SendRouter (demo_find zero_id)) WantNodes
      = (m, Inr (GotNodes \<lparr>nodes_From = Some peer_b, nodes_Nodes = ns\<rparr>))"
    "sorted (map (dist (SliceToNodeID zero_id)) ns)" using run by simp_all
  then show ?thesis using nm(2) by blast
qed

text \<open>
  C14. The iterative lookup on a network of serving nodes with whole contacts, whose tables may change from round to round, for
  any \<open>sort.Slice\<close> within its contract and any delay of the answers: it ends without error, with the guarantees of a
  lookup on any network, and every contact it returns is in its own table or in
  the table of some host, or is the caller itself.
\<close>

theorem lookup_between_nodes:
  assumes laws: "codec_laws cd"
    and nm: "nm_inv nm" "0 < cf_K (nm_cfg nm)" "0 \<le> cf_Alpha (nm_cfg nm)" "nm_info nm = Some a" "whole (Some a)"
    and env: "lookup_env_ok env" and own: "\<forall>c \<in> table_peers (nm_router nm). whole c"
    and hosts: "\<forall>n addr h. hosts n addr = Some h \<longrightarrow> lan_host cd h"
  shows "\<exists>seed rounds late res. ClosestK (nm_router nm) target = Inr seed
    \<and> Lookup cd (\<lambda>n. lan cd src (hosts n)) env nm target = Inr res
    \<and> lookup_outcome cd (\<lambda>n. lan cd src (hosts n)) env nm target seed rounds late res
    \<and> set res \<subseteq> insert (Some a) (table_peers (nm_router nm) \<union> lan_contacts hosts)"
proof -
  let ?nets = "\<lambda>n. lan cd src (hosts n)"
  have learned: "learned cd ?nets nm target \<subseteq> insert (Some a) (lan_contacts hosts)"
    by (rule lan_learned [OF laws nm(4)]) (use hosts in blast)
  have "\<forall>c \<in> lan_contacts hosts. whole c" using hosts unfolding lan_contacts_def lan_host_def by blast
  then have "\<forall>c \<in> learned cd ?nets nm target. whole c" using learned nm(5) by blast
  from Lookup_result [OF nm(1-3) env this own] obtain seed rounds late res where
    r: "ClosestK (nm_router nm) target = Inr seed" "Lookup cd ?nets env nm target = Inr res"
    "lookup_outcome cd ?nets env nm target seed rounds late res" by blast
  have "set seed \<subseteq> table_peers (nm_router nm)"
    using ClosestK_correct [of "nm_router nm" target] r(1) by (metis sum.inject(2))
  moreover have "set res \<subseteq> set seed \<union> learned cd ?nets nm target"
    using r(3) unfolding lookup_outcome_def Let_def by blast
  ultimately show ?thesis using r learned by blast
qed

theorem lookup_between_nodes_witness:
  "\<exists>nm nm2 res. nm_info nm = Some peer_a
     \<and> Lookup (lan_codec zero_id []) (\<lambda>_. lan (lan_codec zero_id []) ''a'' [''b'' \<mapsto> nm2]) prompt_env nm zero_id = Inr res
     \<and> set res \<subseteq> {Some peer_a, Some peer_b}"
proof -
  let ?cd = "lan_codec zero_id []" and ?cfg = "lan_config one_lock [routing_service]"
  obtain nm where nm: "nm_inv nm" "nm_info nm = Some peer_a" "nm_cfg nm = ?cfg" "table_peers (nm_router nm) = {Some peer_a}"
    by (rule lan_manager [of "[routing_service]" ?cd 0]) (auto simp: peers_ab)
  obtain nm2 where nm2: "nm_serving ?cd nm2" "table_peers (nm_router nm2) = {Some peer_b}"
    by (rule lan_manager [of "[routing_service]" ?cd 7]) (auto simp: peers_ab)
  have whole: "whole (Some peer_a)" "whole (Some peer_b)"
    by (simp_all add: whole_def low_peer_Some flip: peers_ab del: not_None_eq)
  then have host: "\<forall>(n :: nat) addr h. [''b'' \<mapsto> nm2] addr = Some h \<longrightarrow> lan_host ?cd h"
    using nm2 by (auto simp: lan_host_def split: if_splits)
  have "0 < cf_K (nm_cfg nm)" "0 \<le> cf_Alpha (nm_cfg nm)" by (simp_all add: nm(3) lan_config_def default_config_def)
  moreover have "lan_contacts (\<lambda>_. [''b'' \<mapsto> nm2]) = {Some peer_b}"
    using nm2(2) by (auto simp: lan_contacts_def split: if_splits)
  ultimately obtain res where
    "Lookup ?cd (\<lambda>_. lan ?cd ''a'' [''b'' \<mapsto> nm2]) prompt_env nm zero_id = Inr res" "set res \<subseteq> {Some peer_a, Some peer_b}"
    using lookup_between_nodes [where hosts = "\<lambda>_. [''b'' \<mapsto> nm2]" and target = zero_id and src = "''a''",
        OF lan_codec_laws nm(1) _ _ nm(2) whole(1) prompt_env_ok _ host] nm(4) whole(1) by auto
  then show ?thesis using nm(2) by blast
qed

end
